(* ===== verification/Prelude.thy ===== *)
theory Prelude
  imports
    "HOL-Library.Word"
    "HOL-Library.AList"
    "HOL-Library.Multiset"
begin

unbundle bit_operations_syntax

text \<open>
  What the components share: the result type of fallible Rust code and its combinators, the
  state-passing version of the same combinators for methods that change the state they are
  called on, the machine integers, the hash maps of the standard library and the lemmas on
  lists and sums that the component theories use.
\<close>

named_theorems result_simps \<open>evaluation of the result combinators\<close>
named_theorems result_elims \<open>inversion of a successful result\<close>
named_theorems result_panics \<open>when a result is a panic\<close>
named_theorems action_simps \<open>evaluation of the state-passing combinators\<close>
named_theorems action_elims \<open>inversion of a successful state-passing call\<close>


section \<open>Results, errors and panics\<close>

text \<open>
  Every error value the code builds, one constructor per \<open>anyhow!\<close>, \<open>bail!\<close> or \<open>ensure!\<close>
  message, and \<open>External\<close> for an error that comes from a library the code calls. A panic
  (\<open>expect\<close>, \<open>unwrap\<close>, \<open>todo!\<close>, a failed \<open>assert_eq!\<close>, a division by zero) is not an
  error value: it unwinds the caller, so it is a third outcome.
\<close>

datatype error =
    External string
  | RecordExists string
  | RecordAlreadySpent
  | ChannelClosed
  | ProgramInStore string
  | ProgramExists string
  | ProgramMissing string
  | DuplicateInput string
  | InputSpent string
  | NoTransitions
  | CorruptedId
  | NoVerifyingKeys
  | KeyCountMismatch
  | FunctionKeyMismatch string
  | VerifierKeyMismatch string
  | NegativeFee
  | WrongTransitionId
  | CoinbaseCall
  | TooManyInputs
  | TooManyOutputs
  | BadInput
  | BadOutput
  | MissingVerifyingKey
  | InvalidProof
  | MissingStakingOutput
  | UnsupportedOutput
  | UnknownFunction string
  | NegativeImplicitFee
  | CreditsFunctionMissing
  | ZeroStake
  | NegativeVotingPower
  | DifferentValidator
  | DifferentAccount
  | NotEnoughStake
  | BadPublicKey
  | BadKeyLength
  | BadKeySections
  | ValidatorsFile
  | NoFeeRecord
  | CredentialsMissing
  | ProgramNotFound string
  | RequestRejected
  | NotCommitted string
  | NoFunctions
  | FunctionExists string
  | NoSuchFunction string
  | KeyNotSynthesized

datatype 'a result = Ok 'a | Err error | Panic string

fun is_ok :: "'a result \<Rightarrow> bool" where
  "is_ok (Ok _) = True"
| "is_ok _ = False"

fun and_then :: "'a result \<Rightarrow> ('a \<Rightarrow> 'b result) \<Rightarrow> 'b result" where
  "and_then (Ok a) f = f a"
| "and_then (Err e) f = Err e"
| "and_then (Panic p) f = Panic p"

fun map_ok :: "('a \<Rightarrow> 'b) \<Rightarrow> 'a result \<Rightarrow> 'b result" where
  "map_ok f (Ok a) = Ok (f a)"
| "map_ok f (Err e) = Err e"
| "map_ok f (Panic p) = Panic p"

text \<open>\<open>expect\<close> and \<open>unwrap\<close> turn an error into a panic; \<open>ok_or_else\<close> turns \<open>None\<close> into an error.\<close>

fun expect_ok :: "string \<Rightarrow> 'a result \<Rightarrow> 'a result" where
  "expect_ok msg (Ok a) = Ok a"
| "expect_ok msg (Err e) = Panic msg"
| "expect_ok msg (Panic p) = Panic p"

fun expect_some :: "string \<Rightarrow> 'a option \<Rightarrow> 'a result" where
  "expect_some msg (Some a) = Ok a"
| "expect_some msg None = Panic msg"

fun ok_or :: "error \<Rightarrow> 'a option \<Rightarrow> 'a result" where
  "ok_or e (Some a) = Ok a"
| "ok_or e None = Err e"

definition ensure :: "bool \<Rightarrow> error \<Rightarrow> unit result" where
  "ensure b e = (if b then Ok () else Err e)"

text \<open>The result of a library call: its message is \<open>External\<close> once \<open>?\<close> has converted it.\<close>

fun external :: "string + 'a \<Rightarrow> 'a result" where
  "external (Inl m) = Err (External m)"
| "external (Inr a) = Ok a"

text \<open>A \<open>for\<close> loop whose body uses \<open>?\<close>: it stops at the first error or panic.\<close>

fun try_map :: "('a \<Rightarrow> 'b result) \<Rightarrow> 'a list \<Rightarrow> 'b list result" where
  "try_map f [] = Ok []"
| "try_map f (x # xs) = and_then (f x) (\<lambda>y. map_ok (\<lambda>ys. y # ys) (try_map f xs))"

fun try_each :: "('a \<Rightarrow> unit result) \<Rightarrow> 'a list \<Rightarrow> unit result" where
  "try_each f [] = Ok ()"
| "try_each f (x # xs) = and_then (f x) (\<lambda>_. try_each f xs)"

lemma and_then_Ok_iff [result_elims]:
  "and_then r f = Ok b \<longleftrightarrow> (\<exists>a. r = Ok a \<and> f a = Ok b)"
  by (cases r) auto

lemma and_then_assoc: "and_then (and_then r f) g = and_then r (\<lambda>a. and_then (f a) g)"
  by (cases r) auto

lemma map_ok_Ok_iff [result_elims]: "map_ok f r = Ok b \<longleftrightarrow> (\<exists>a. r = Ok a \<and> b = f a)"
  by (cases r) auto

lemma and_then_Panic_iff [result_panics]:
  "and_then r f = Panic p \<longleftrightarrow> r = Panic p \<or> (\<exists>a. r = Ok a \<and> f a = Panic p)"
  by (cases r) auto

lemma map_ok_Panic_iff [result_panics]: "map_ok f r = Panic p \<longleftrightarrow> r = Panic p"
  by (cases r) auto

lemma expect_ok_Ok_iff [result_elims]: "expect_ok msg r = Ok a \<longleftrightarrow> r = Ok a"
  by (cases r) auto

lemma expect_some_Ok_iff [result_elims]: "expect_some msg r = Ok a \<longleftrightarrow> r = Some a"
  by (cases r) auto

lemma ok_or_Ok_iff [result_elims]: "ok_or e r = Ok a \<longleftrightarrow> r = Some a"
  by (cases r) auto

lemma ok_or_not_Panic [simp]: "ok_or e r \<noteq> Panic p"
  by (cases r) auto

lemma ensure_simps [simp, result_simps]:
  "ensure True e = Ok ()" "ensure False e = Err e"
  by (simp_all add: ensure_def)

lemma ensure_Ok_iff [result_elims]: "ensure b e = Ok u \<longleftrightarrow> b"
  by (simp add: ensure_def)

lemma ensure_not_Panic [simp]: "ensure b e \<noteq> Panic p"
  by (simp add: ensure_def)

lemma external_Ok_iff [result_elims]: "external r = Ok a \<longleftrightarrow> r = Inr a"
  by (cases r) auto

lemma external_not_Panic [simp]: "external r \<noteq> Panic p"
  by (cases r) auto

lemma try_each_Ok_iff [result_elims]: "try_each f xs = Ok u \<longleftrightarrow> (\<forall>x \<in> set xs. f x = Ok ())"
  by (induction xs) (auto simp: and_then_Ok_iff)

lemma try_map_Ok_iff: "try_map f xs = Ok ys \<longleftrightarrow> list_all2 (\<lambda>x y. f x = Ok y) xs ys"
proof (induction xs arbitrary: ys)
  case Nil
  then show ?case by auto
next
  case (Cons x xs)
  then show ?case
    by (cases ys) (auto simp: and_then_Ok_iff map_ok_Ok_iff)
qed

lemma try_each_Panic: "try_each f xs = Panic p \<Longrightarrow> \<exists>x \<in> set xs. f x = Panic p"
  by (induction xs) (auto simp: and_then_Panic_iff)

lemma try_map_Panic: "try_map f xs = Panic p \<Longrightarrow> \<exists>x \<in> set xs. f x = Panic p"
  by (induction xs) (auto simp: and_then_Panic_iff map_ok_Panic_iff)

lemma try_map_append:
  "try_map f (xs @ ys) = and_then (try_map f xs) (\<lambda>as. map_ok (\<lambda>bs. as @ bs) (try_map f ys))"
proof (induction xs)
  case Nil
  then show ?case by (cases "try_map f ys") auto
next
  case (Cons x xs)
  then show ?case
    by (cases "f x"; cases "try_map f xs"; cases "try_map f ys") auto
qed

lemma try_map_Ok_each: "try_map f xs = Ok ys \<Longrightarrow> x \<in> set xs \<Longrightarrow> \<exists>y. f x = Ok y"
  by (induction xs arbitrary: ys) (auto simp: result_elims)

text \<open>Permuting the input of a \<open>?\<close> loop permutes its output.\<close>

lemma try_map_perm:
  assumes "try_map f xs = Ok ys" and "mset xs' = mset xs"
  shows "\<exists>ys'. try_map f xs' = Ok ys' \<and> mset ys' = mset ys"
proof -
  have "\<forall>x\<in>set xs. \<exists>y. f x = Ok y"
    using try_map_Ok_each [OF assms(1)] by blast
  then obtain g where g: "\<forall>x\<in>set xs. f x = Ok (g x)" by metis
  have ok: "try_map f zs = Ok (map g zs)" if "set zs \<subseteq> set xs" for zs
    using that g by (induction zs) auto
  have "ys = map g xs" using assms(1) ok [of xs] by simp
  moreover have "try_map f xs' = Ok (map g xs')"
    using ok assms(2) by (metis order_refl mset_eq_setD)
  ultimately show ?thesis using assms(2) by auto
qed


section \<open>Methods that change the state\<close>

text \<open>
  A method on \<open>&self\<close> whose effect goes through a channel, a mutex or a file takes the state
  and returns the result with the state it leaves, also when the result is an error or a
  panic: what was done before the error stays done.
\<close>

type_synonym ('s, 'a) action = "'s \<Rightarrow> 'a result \<times> 's"

definition pure_action :: "('s \<Rightarrow> 'a result) \<Rightarrow> ('s, 'a) action" where
  "pure_action f s = (f s, s)"

definition act_then :: "('s, 'a) action \<Rightarrow> ('a \<Rightarrow> ('s, 'b) action) \<Rightarrow> ('s, 'b) action" where
  "act_then m f s =
     (case m s of
        (Ok a, t) \<Rightarrow> f a t
      | (Err e, t) \<Rightarrow> (Err e, t)
      | (Panic p, t) \<Rightarrow> (Panic p, t))"

text \<open>\<open>iter().map(f).find(is_err).unwrap_or(Ok(()))\<close>: lazy, so it stops at the first error.\<close>

fun act_each :: "('x \<Rightarrow> ('s, unit) action) \<Rightarrow> 'x list \<Rightarrow> ('s, unit) action" where
  "act_each f [] s = (Ok (), s)"
| "act_each f (x # xs) s = act_then (f x) (\<lambda>_. act_each f xs) s"

lemma pure_action_simp [simp, action_simps]: "pure_action f s = (f s, s)"
  by (simp add: pure_action_def)

lemma act_then_simps [action_simps]:
  "m s = (Ok a, t) \<Longrightarrow> act_then m f s = f a t"
  "m s = (Err e, t) \<Longrightarrow> act_then m f s = (Err e, t)"
  "m s = (Panic p, t) \<Longrightarrow> act_then m f s = (Panic p, t)"
  by (simp_all add: act_then_def)

lemma act_then_Ok_iff [action_elims]:
  "act_then m f s = (Ok b, u) \<longleftrightarrow> (\<exists>a t. m s = (Ok a, t) \<and> f a t = (Ok b, u))"
  by (auto simp: act_then_def split: prod.splits result.splits)

lemma act_then_pure [simp, action_simps]:
  "act_then (pure_action g) f s =
     (case g s of Ok a \<Rightarrow> f a s | Err e \<Rightarrow> (Err e, s) | Panic p \<Rightarrow> (Panic p, s))"
  by (simp add: act_then_def split: result.splits)

text \<open>An invariant every step of a chain keeps is kept by the chain, whatever its outcome.\<close>

lemma act_then_invariant:
  assumes "act_then m f s = (r, u)"
    and "\<And>r t. m s = (r, t) \<Longrightarrow> I t"
    and "\<And>a t r u. m s = (Ok a, t) \<Longrightarrow> f a t = (r, u) \<Longrightarrow> I t \<Longrightarrow> I u"
  shows "I u"
  using assms by (auto simp: act_then_def split: prod.splits result.splits)

lemma act_each_invariant:
  assumes "act_each f xs s = (r, u)" and "I s"
    and "\<And>x r t u. x \<in> set xs \<Longrightarrow> f x t = (r, u) \<Longrightarrow> I t \<Longrightarrow> I u"
  shows "I u"
  using assms
proof (induction xs arbitrary: s)
  case Nil
  then show ?case by simp
next
  case (Cons x xs)
  obtain r1 t where m: "f x s = (r1, t)" by force
  with Cons.prems(2,3) have t: "I t" by (meson list.set_intros(1))
  show ?case
  proof (cases r1)
    case (Ok a)
    with m Cons.prems(1) have "act_each f xs t = (r, u)" by (simp add: act_then_def)
    then show ?thesis using Cons.IH t Cons.prems(3) by (meson list.set_intros(2))
  qed (use m t Cons.prems(1) in \<open>auto simp: act_then_def\<close>)
qed

text \<open>
  Relations between the state before a call and the state after it, whatever its outcome: a
  reflexive and transitive one that every call of a chain respects is respected by the chain.
\<close>

definition keeps :: "('s \<Rightarrow> 's \<Rightarrow> bool) \<Rightarrow> ('s, 'a) action \<Rightarrow> bool" where
  "keeps P m \<longleftrightarrow> (\<forall>s. P s (snd (m s)))"

lemma keepsD: "keeps P m \<Longrightarrow> m s = (r, t) \<Longrightarrow> P s t"
  unfolding keeps_def by (metis snd_conv)

locale action_relation =
  fixes P :: "'s \<Rightarrow> 's \<Rightarrow> bool"
  assumes P_refl: "P s s"
    and P_trans: "P s t \<Longrightarrow> P t u \<Longrightarrow> P s u"
begin

lemma keeps_unchanged: "(\<And>s. snd (m s) = s) \<Longrightarrow> keeps P m"
  by (simp add: keeps_def P_refl)

lemma keeps_pure: "keeps P (pure_action f)"
  by (simp add: keeps_def P_refl)

lemma keeps_then:
  assumes "keeps P m" and "\<And>a. keeps P (f a)"
  shows "keeps P (act_then m f)"
  unfolding keeps_def
proof
  fix s
  obtain r t where m: "m s = (r, t)" by force
  have "P s t" using assms(1) m by (rule keepsD)
  moreover have "P t (snd (f a t))" for a using assms(2) by (simp add: keeps_def)
  ultimately show "P s (snd (act_then m f s))"
    using m P_trans by (cases r) (auto simp: act_then_def)
qed

lemma keeps_each: "(\<And>x. x \<in> set xs \<Longrightarrow> keeps P (f x)) \<Longrightarrow> keeps P (act_each f xs)"
proof (induction xs)
  case Nil
  then show ?case by (simp add: keeps_def P_refl)
next
  case (Cons x xs)
  then have "keeps P (act_then (f x) (\<lambda>_. act_each f xs))" by (intro keeps_then) auto
  then show ?case by (simp add: keeps_def)
qed

end

text \<open>A chain of calls that cannot panic does not panic.\<close>

lemma act_then_no_panic:
  assumes "act_then m f s = (Panic p, u)"
    and "\<And>t. m s \<noteq> (Panic p, t)"
    and "\<And>a t. m s = (Ok a, t) \<Longrightarrow> f a t \<noteq> (Panic p, u)"
  shows False
  using assms by (auto simp: act_then_def split: prod.splits result.splits)


section \<open>Machine integers\<close>

text \<open>
  \<open>u64\<close> and \<open>i64\<close> are 64-bit words; the binaries are built in release mode (\<open>Makefile\<close>), where
  arithmetic wraps. \<open>as u64\<close> and \<open>as i64\<close> keep the bits, so a cast is the identity on words and
  the signed reading is \<open>sint\<close>; \<open><s\<close> and \<open>\<le>s\<close> compare signed values.
\<close>

type_synonym u8 = "8 word"
type_synonym u64 = "64 word"
type_synonym i64 = "64 word"
type_synonym u128 = "128 word"
type_synonym bytes = "8 word list"

text \<open>A word reads as itself below \<open>2 ^ 63\<close> and as itself minus \<open>2 ^ 64\<close> above.\<close>

lemma sint_word64: "sint (w :: 64 word) = (if uint w < 2 ^ 63 then uint w else uint w - 2 ^ 64)"
proof -
  have eq: "uint w = sint w mod 2 ^ 64"
    using uint_sint [of w] by (simp add: take_bit_eq_mod)
  have lo: "- (2 ^ 63) \<le> sint w" and hi: "sint w < 2 ^ 63"
    using sint_ge [of w] sint_lt [of w] by simp_all
  show ?thesis
  proof (cases "0 \<le> sint w")
    case True
    with hi have "sint w mod 2 ^ 64 = sint w" by simp
    with eq hi show ?thesis by simp
  next
    case False
    with lo have "(sint w + 2 ^ 64) mod 2 ^ 64 = sint w + 2 ^ 64"
      by (intro mod_pos_pos_trivial) simp_all
    with eq have "uint w = sint w + 2 ^ 64" by (simp only: mod_add_self2)
    with lo show ?thesis by simp
  qed
qed

lemma sint_eq_uint_iff: "sint (w :: 64 word) = uint w \<longleftrightarrow> uint w < 2 ^ 63"
  by (simp add: sint_word64)

lemma sint_nonneg_iff: "0 \<le> sint (w :: 64 word) \<longleftrightarrow> uint w < 2 ^ 63"
  using uint_lt2p [of w] by (simp add: sint_word64)

text \<open>Sums and differences that stay in range are exact.\<close>

lemma sint_add_exact:
  assumes "- (2 ^ 63) \<le> sint a + sint b" and "sint a + sint b < 2 ^ 63"
  shows "sint (a + b :: 64 word) = sint a + sint b"
  using assms unfolding sint_word_add by (simp add: signed_take_bit_int_eq_self)

lemma uint_add_exact: "uint a + uint b < 2 ^ 64 \<Longrightarrow> uint (a + b :: 64 word) = uint a + uint b"
  by (simp add: uint_word_ariths)

lemma uint_minus_exact: "uint b \<le> uint a \<Longrightarrow> uint (a - b :: 64 word) = uint a - uint b"
  using uint_sub_lem by blast

lemma unat_sum_list_mod:
  "unat (sum_list (map f xs) :: 64 word) = (\<Sum>x\<leftarrow>xs. unat (f x)) mod 2 ^ 64"
  by (induction xs) (simp_all add: unat_word_ariths mod_simps)


lemma unat_sum_list_exact:
  "(\<Sum>x\<leftarrow>xs. unat (f x)) < 2 ^ 64 \<Longrightarrow>
   unat (sum_list (map f xs) :: 64 word) = (\<Sum>x\<leftarrow>xs. unat (f x))"
  by (simp add: unat_sum_list_mod)

lemma unat_bound: "unat (w :: 64 word) < 2 ^ 64"
  using unsigned_less [where w = w and 'a = nat] by simp

text \<open>A product that wraps only gets smaller, so a share is at most the true quotient.\<close>

lemma unat_mult_div_le: "unat ((a * b :: 64 word) div c) \<le> unat a * unat b div unat c"
  by (simp add: unat_div unat_word_ariths div_le_mono)

lemma sum_list_div_le: "(\<Sum>x\<leftarrow>xs. f x div n) \<le> (\<Sum>x\<leftarrow>xs. f x) div (n :: nat)"
proof (induction xs)
  case Nil
  then show ?case by simp
next
  case (Cons x xs)
  have "f x div n + (\<Sum>x\<leftarrow>xs. f x) div n \<le> (f x + (\<Sum>x\<leftarrow>xs. f x)) div n"
    by (subst div_add1_eq) simp
  with Cons.IH show ?case by simp
qed

text \<open>The bytes of a text, and the text of bytes: a HOL string is a list of byte values.\<close>

definition bytes_of :: "string \<Rightarrow> bytes" where
  "bytes_of text = map (\<lambda>ch. of_nat (of_char ch)) text"

definition text_of :: "bytes \<Rightarrow> string" where
  "text_of raw = map (\<lambda>b. char_of (unat b)) raw"

lemma text_of_bytes [simp]: "text_of (bytes_of text) = text"
proof -
  have "char_of (unat (of_nat (of_char ch) :: u8)) = ch" for ch
    using nat_of_char_less_256 [of ch] by (simp add: unat_of_nat)
  then show ?thesis by (simp add: text_of_def bytes_of_def comp_def)
qed

text \<open>\<open>format!("{n}")\<close> of an unsigned integer: its decimal digits.\<close>

fun decimal :: "nat \<Rightarrow> string" where
  "decimal n =
     (if n < 10 then [char_of (48 + n)] else decimal (n div 10) @ [char_of (48 + n mod 10)])"

declare decimal.simps [simp del]

text \<open>\<open>from_be_bytes\<close> and \<open>to_be_bytes\<close>, on naturals and for any number of bytes.\<close>

fun be_nat :: "nat \<Rightarrow> bytes \<Rightarrow> nat" where
  "be_nat acc [] = acc"
| "be_nat acc (b # bs) = be_nat (acc * 256 + unat b) bs"

fun nat_be :: "nat \<Rightarrow> nat \<Rightarrow> bytes" where
  "nat_be 0 v = []"
| "nat_be (Suc n) v = nat_be n (v div 256) @ [of_nat (v mod 256)]"

lemma be_nat_snoc: "be_nat acc (bs @ [b]) = be_nat acc bs * 256 + unat b"
  by (induction acc bs rule: be_nat.induct) simp_all

lemma length_nat_be [simp]: "length (nat_be n v) = n"
  by (induction n arbitrary: v) simp_all

lemma unat_byte: "unat (b :: u8) < 256"
  using unsigned_less [where w = b and 'a = nat] by simp

lemma bytes_of_text [simp]: "bytes_of (text_of raw) = raw"
proof -
  have "of_nat (of_char (char_of (unat b) :: char)) = b" for b :: u8
    using unat_byte [of b] by (simp add: of_char_of)
  then show ?thesis by (simp add: text_of_def bytes_of_def comp_def)
qed

lemma be_nat_bound: "be_nat 0 bs < 256 ^ length bs"
proof (induction bs rule: rev_induct)
  case Nil
  then show ?case by simp
next
  case (snoc b bs)
  then show ?case using unat_byte [of b] by (simp add: be_nat_snoc)
qed

lemma nat_be_of_be_nat: "nat_be (length bs) (be_nat 0 bs) = bs"
proof (induction bs rule: rev_induct)
  case Nil
  then show ?case by simp
next
  case (snoc b bs)
  then show ?case using unat_byte [of b] by (simp add: be_nat_snoc)
qed

lemma be_nat_of_nat_be: "be_nat 0 (nat_be n v) = v mod 256 ^ n"
proof (induction n arbitrary: v)
  case 0
  then show ?case by simp
next
  case (Suc n)
  have "v div 256 mod 256 ^ n * 256 + v mod 256 = v mod (256 * 256 ^ n)"
    by (simp add: mod_mult2_eq)
  with Suc show ?case by (simp add: be_nat_snoc unat_of_nat)
qed


section \<open>Hash maps and lists\<close>

text \<open>
  A \<open>HashMap\<close> is the list of its entries in the order an iteration visits them. The standard
  library leaves that order open (each map is seeded at random), so a property of code that
  iterates over a map is stated for every order. \<open>hm_ok\<close> says that no key occurs twice.
\<close>

type_synonym ('k, 'v) hash_map = "('k \<times> 'v) list"

definition hm_ok :: "('k, 'v) hash_map \<Rightarrow> bool" where
  "hm_ok m = distinct (map fst m)"

definition hm_insert :: "'k \<Rightarrow> 'v \<Rightarrow> ('k, 'v) hash_map \<Rightarrow> ('k, 'v) hash_map" where
  "hm_insert k v m = AList.update k v m"

definition hm_contains :: "('k, 'v) hash_map \<Rightarrow> 'k \<Rightarrow> bool" where
  "hm_contains m k = (map_of m k \<noteq> None)"

text \<open>\<open>collect()\<close> into a map: a later entry replaces an earlier one with the same key.\<close>

definition hm_collect :: "('k \<times> 'v) list \<Rightarrow> ('k, 'v) hash_map" where
  "hm_collect kvs = fold (\<lambda>(k, v). hm_insert k v) kvs []"

lemma map_of_hm_insert [simp]: "map_of (hm_insert k v m) = (map_of m)(k \<mapsto> v)"
  by (simp add: hm_insert_def update_conv')

lemma hm_ok_insert [simp, intro]: "hm_ok m \<Longrightarrow> hm_ok (hm_insert k v m)"
  by (simp add: hm_ok_def hm_insert_def distinct_update)

lemma hm_ok_Nil [simp]: "hm_ok []"
  by (simp add: hm_ok_def)

lemma hm_ok_fold: "hm_ok m \<Longrightarrow> hm_ok (fold (\<lambda>(k, v). hm_insert k v) kvs m)"
  by (induction kvs arbitrary: m) auto

lemma hm_ok_collect [simp, intro]: "hm_ok (hm_collect kvs)"
  by (simp add: hm_collect_def hm_ok_fold)

lemma map_of_fold_insert:
  "map_of (fold (\<lambda>(k, v). hm_insert k v) kvs m) = map_of m ++ map_of (rev kvs)"
  by (induction kvs arbitrary: m) auto

lemma map_of_hm_collect: "map_of (hm_collect kvs) = map_of (rev kvs)"
  by (simp add: hm_collect_def map_of_fold_insert)

lemma hm_contains_iff: "hm_contains m k \<longleftrightarrow> k \<in> fst ` set m"
  by (simp add: hm_contains_def map_of_eq_None_iff)

lemma keys_hm_insert [simp]: "fst ` set (hm_insert k v m) = insert k (fst ` set m)"
  by (simp add: hm_insert_def dom_update)

lemma hm_insert_fresh: "k \<notin> fst ` set m \<Longrightarrow> hm_insert k v m = m @ [(k, v)]"
  by (induction m) (auto simp: hm_insert_def)

lemma hm_ok_map_of: "hm_ok m \<Longrightarrow> map_of m k = Some v \<longleftrightarrow> (k, v) \<in> set m"
  by (simp add: hm_ok_def)

lemma map_of_rev_ok: "hm_ok m \<Longrightarrow> map_of (rev m) = map_of m"
  unfolding hm_ok_def by (subst map_of_inject_set) (simp_all add: rev_map [symmetric])

text \<open>Two iteration orders of the same map hold the same entries.\<close>

lemma hm_same_entries:
  assumes "hm_ok m" and "hm_ok n" and "map_of m = map_of n"
  shows "mset m = mset n"
proof -
  have "set m = set n"
    using assms by (metis hm_ok_def map_of_inject_set)
  moreover have "distinct m" "distinct n"
    using assms by (auto simp: hm_ok_def distinct_map)
  ultimately show ?thesis by (simp add: set_eq_iff_mset_eq_distinct)
qed

lemma sum_list_perm:
  fixes f :: "'x \<Rightarrow> 'n :: comm_monoid_add"
  assumes "mset xs = mset ys"
  shows "(\<Sum>x\<leftarrow>xs. f x) = (\<Sum>x\<leftarrow>ys. f x)"
proof -
  have "sum_mset (mset (map f xs)) = sum_mset (mset (map f ys))" using assms by simp
  then show ?thesis by (simp only: sum_mset_sum_list)
qed

lemma value_le_sum:
  fixes f :: "'v \<Rightarrow> nat"
  assumes "map_of m k = Some v"
  shows "f v \<le> (\<Sum>e\<leftarrow>m. f (snd e))"
  using assms by (induction m) (auto split: if_splits)

text \<open>Inserting an entry moves the sum over the values by the difference.\<close>

lemma sum_values_insert:
  fixes f :: "'v \<Rightarrow> 'n :: comm_monoid_add"
  assumes "hm_ok m"
  shows "(\<Sum>e\<leftarrow>hm_insert k v m. f (snd e)) + (case map_of m k of Some old \<Rightarrow> f old | None \<Rightarrow> 0)
    = (\<Sum>e\<leftarrow>m. f (snd e)) + f v"
  using assms
proof (induction m)
  case Nil
  then show ?case by (simp add: hm_insert_def)
next
  case (Cons e m)
  then have ih: "(\<Sum>e\<leftarrow>hm_insert k v m. f (snd e)) + (case map_of m k of Some old \<Rightarrow> f old | None \<Rightarrow> 0)
      = (\<Sum>e\<leftarrow>m. f (snd e)) + f v"
    by (simp add: hm_ok_def)
  show ?case
    using ih by (cases e) (simp add: hm_insert_def add.assoc add.commute add.left_commute)
qed

text \<open>
  The first element that occurs a second time, as \<open>iter().duplicates().next()\<close> finds it.
\<close>

fun first_duplicate_from :: "'a list \<Rightarrow> 'a list \<Rightarrow> 'a option" where
  "first_duplicate_from seen [] = None"
| "first_duplicate_from seen (x # xs) =
     (if x \<in> set seen then Some x else first_duplicate_from (x # seen) xs)"

definition first_duplicate :: "'a list \<Rightarrow> 'a option" where
  "first_duplicate xs = first_duplicate_from [] xs"

lemma first_duplicate_from_None:
  "first_duplicate_from seen xs = None \<longleftrightarrow> distinct xs \<and> set xs \<inter> set seen = {}"
  by (induction seen xs rule: first_duplicate_from.induct) auto

lemma first_duplicate_None [simp]: "first_duplicate xs = None \<longleftrightarrow> distinct xs"
  by (simp add: first_duplicate_def first_duplicate_from_None)

lemma find_None_ball: "find P xs = None \<longleftrightarrow> (\<forall>x \<in> set xs. \<not> P x)"
  by (auto simp: find_None_iff)



section \<open>State machines\<close>

text \<open>
  The states a component can reach, for a step relation labelled with events, and the rule by
  which an invariant of the component follows from its preservation by each step.
\<close>

inductive reachable :: "('s \<Rightarrow> bool) \<Rightarrow> ('s \<Rightarrow> 'e \<Rightarrow> 's \<Rightarrow> bool) \<Rightarrow> 's \<Rightarrow> bool"
  for init :: "'s \<Rightarrow> bool" and step :: "'s \<Rightarrow> 'e \<Rightarrow> 's \<Rightarrow> bool" where
  reachable_init: "init s \<Longrightarrow> reachable init step s"
| reachable_step: "reachable init step s \<Longrightarrow> step s e t \<Longrightarrow> reachable init step t"

locale machine_invariant =
  fixes init :: "'s \<Rightarrow> bool" and step :: "'s \<Rightarrow> 'e \<Rightarrow> 's \<Rightarrow> bool" and inv :: "'s \<Rightarrow> bool"
  assumes inv_init: "init s \<Longrightarrow> inv s"
    and inv_step: "inv s \<Longrightarrow> step s e t \<Longrightarrow> inv t"
begin

lemma reachable_inv: "reachable init step s \<Longrightarrow> inv s"
  by (induction rule: reachable.induct) (auto intro: inv_init inv_step)

end

end
