(* ===== verification/Vm_Api.thy ===== *)
theory Vm_Api
  imports Prelude
begin

text \<open>
  The VM interface of \<open>src/lib/vm\<close>: what \<open>transaction.rs\<close>, \<open>validator_set.rs\<close> and
  \<open>application.rs\<close> use of \<open>lib::vm\<close>. One of two modules provides it at compile time
  (\<open>src/lib/vm/mod.rs\<close>), so the types that differ between them are type variables: \<open>'f\<close> for
  \<open>vm::Field\<close>, \<open>'er\<close> for \<open>vm::EncryptedRecord\<close>, \<open>'tr\<close> for \<open>vm::Transition\<close> and \<open>'out\<close>
  for an output of a transition. The locale \<open>vm_contract\<close> holds the laws the application
  relies on; the theories of the two backends interpret it.
\<close>

section \<open>Types of the interface\<close>

text \<open>
  Opaque values of the VM crates. The code compares, prints, parses and stores them only, and
  parsing and printing are parameters of the model.
\<close>

datatype aleo_address = AleoAddress string
datatype verifying_key = VerifyingKey string
datatype proving_key = ProvingKey string
datatype private_key = PrivateKey string

text \<open>
  \<open>VerifyingKeyMap\<close> wraps an \<open>IndexMap\<close>: entries in insertion order. A program is known by
  its id and by its \<open>functions()\<close>, an \<open>IndexMap\<close> from a name to a function that has a
  \<open>name()\<close> of its own; the rest of it is its source text.
\<close>

type_synonym vk_map = "(string \<times> verifying_key) list"

record program =
  prog_id :: string
  prog_functions :: "(string \<times> string) list"
  prog_source :: string

text \<open>The functions of \<open>lib::vm\<close> that the blockchain side calls, for one backend.\<close>

record ('f, 'er, 'tr, 'out) vm_backend =
  vm_program_id :: "'tr \<Rightarrow> string"
  vm_function_name :: "'tr \<Rightarrow> string"
  vm_fee :: "'tr \<Rightarrow> i64"
  vm_outputs :: "'tr \<Rightarrow> 'out list"
  vm_serial_numbers :: "'tr \<Rightarrow> 'f list"
  vm_output_records :: "'tr \<Rightarrow> ('f \<times> 'er) list"
  vm_verify_deployment :: "program \<Rightarrow> vk_map \<Rightarrow> unit result"
  vm_verify_execution :: "'tr \<Rightarrow> vk_map \<Rightarrow> unit result"
  vm_int_from_output :: "'out \<Rightarrow> u64 result"
  vm_address_from_output :: "'out \<Rightarrow> aleo_address result"
  vm_parse_address :: "string \<Rightarrow> aleo_address result"
  vm_mint_record :: "string \<Rightarrow> string \<Rightarrow> aleo_address \<Rightarrow> u64 \<Rightarrow> u64 \<Rightarrow> ('f \<times> 'er) result"
  vm_field_to_string :: "'f \<Rightarrow> string"
  vm_field_from_string :: "string \<Rightarrow> 'f option"
  vm_record_to_string :: "'er \<Rightarrow> string"
  vm_record_from_string :: "string \<Rightarrow> 'er option"


section \<open>The contract of a backend\<close>

text \<open>
  What verification promises, whichever backend is compiled in: a verified execution has a
  fee that is not negative and a verifying key for its function, a verified deployment has
  exactly one key per function in the order of the functions, and neither check panics.
\<close>

locale vm_contract =
  fixes vm :: "('f, 'er, 'tr, 'out) vm_backend"
  assumes execution_fee: "vm_verify_execution vm t ks = Ok () \<Longrightarrow> 0 \<le> sint (vm_fee vm t)"
    and execution_key: "vm_verify_execution vm t ks = Ok () \<Longrightarrow> vm_function_name vm t \<in> fst ` set ks"
    and execution_no_panic: "vm_verify_execution vm t ks \<noteq> Panic p"
    and deployment_keys: "vm_verify_deployment vm prog ks = Ok () \<Longrightarrow>
      ks \<noteq> [] \<and> map fst ks = map fst (prog_functions prog)"
    and deployment_no_panic: "vm_verify_deployment vm prog ks \<noteq> Panic p"
begin

lemma execution_fee_below: "vm_verify_execution vm t ks = Ok () \<Longrightarrow> uint (vm_fee vm t) < 2 ^ 63"
  using execution_fee sint_nonneg_iff by blast

lemma deployment_has_function:
  "vm_verify_deployment vm prog ks = Ok () \<Longrightarrow> prog_functions prog \<noteq> []"
  using deployment_keys by fastforce

lemma deployment_key_count:
  "vm_verify_deployment vm prog ks = Ok () \<Longrightarrow> length ks = length (prog_functions prog)"
  using deployment_keys map_eq_imp_length_eq by blast

lemma execution_without_keys: "vm_verify_execution vm t [] \<noteq> Ok ()"
  using execution_key by fastforce

end

text \<open>
  The text form of a value that is stored as a database key or value: printing and parsing
  give the value back, so distinct values have distinct texts.
\<close>

locale text_codec =
  fixes to_text :: "'a \<Rightarrow> string" and from_text :: "string \<Rightarrow> 'a option"
  assumes round_trip: "from_text (to_text x) = Some x"
begin

lemma to_text_inj: "inj to_text"
  by (rule injI) (metis option.inject round_trip)

lemma to_text_eq_iff [simp]: "to_text x = to_text y \<longleftrightarrow> x = y"
  using to_text_inj by (simp add: inj_eq)

lemma parse_all: "map from_text (map to_text xs) = map Some xs"
  by (simp add: round_trip)

end

text \<open>
  The deployment check is the same text in both backends: a loop over the functions and the
  candidate names, zipped with \<open>zip_eq\<close>, which panics when one list ends before the other.
\<close>

fun check_function_names :: "(string \<times> string) list \<Rightarrow> string list \<Rightarrow> unit result" where
  "check_function_names [] [] = Ok ()"
| "check_function_names ((function_name, name) # fs) (candidate # cs) =
     (if function_name \<noteq> name then Err (FunctionKeyMismatch function_name)
      else if candidate \<noteq> name then Err (VerifierKeyMismatch candidate)
      else check_function_names fs cs)"
| "check_function_names _ _ = Panic ''zip_eq''"

lemma check_function_names_Ok_iff:
  "check_function_names fs cs = Ok () \<longleftrightarrow> map fst fs = cs \<and> map snd fs = cs"
  by (induction fs cs rule: check_function_names.induct) auto

lemma check_function_names_no_panic:
  "length fs = length cs \<Longrightarrow> check_function_names fs cs \<noteq> Panic p"
  by (induction fs cs rule: check_function_names.induct) auto

end
