(* ===== verification/Vm_Lambda.thy ===== *)
theory Vm_Lambda
  imports Vm_Api
begin

text \<open>
  The default backend, \<open>src/lib/vm/lambdavm/mod.rs\<close>: deployment and execution checks,
  execution of a function, and the extraction of integers and addresses from the outputs of a
  transition. The \<open>lambdavm\<close> crate is a parameter (\<open>lambda_crate\<close>).
\<close>

section \<open>Data of the lambdavm crate that the module takes apart\<close>

record plain_record =
  rec_owner :: aleo_address
  rec_gates :: u64
  rec_data :: string
  rec_nonce :: string

text \<open>
  \<open>UserInputValueType\<close> and \<open>VariableType\<close> with the variants the module matches on; the
  variants it sends to a wildcard arm are one constructor. The payload of \<open>Address\<close> is a
  byte vector, and a HOL string is a list of bytes.
\<close>

datatype user_value =
    U8 "8 word"
  | U16 "16 word"
  | U32 "32 word"
  | U64 u64
  | U128 u128
  | AddressValue string
  | RecordValue plain_record
  | OtherValue string

datatype variable_type =
    Public user_value
  | Private user_value
  | OtherVariable string

record lambda_transition =
  lt_program_id :: string
  lt_function_name :: string
  lt_inputs :: "variable_type list"
  lt_outputs :: "variable_type list"
  lt_proof :: string
  lt_fee :: i64

text \<open>
  The functions of the crates that the module calls. \<open>'p\<close> is the type of a decoded proof and
  \<open>'er\<close> that of an encrypted record. \<open>Field\<close> is \<open>String\<close> in this backend.
\<close>

record ('p, 'er, 'vars) lambda_crate =
  lc_parse_address :: "string \<Rightarrow> string + aleo_address"
  lc_parse_value :: "string \<Rightarrow> string + user_value"
  lc_get_function :: "program \<Rightarrow> string \<Rightarrow> string + string"
  lc_hex_decode :: "string \<Rightarrow> string + bytes"
  lc_hex_encode :: "bytes \<Rightarrow> string"
  lc_sha3_256 :: "bytes \<Rightarrow> bytes"
  lc_serialize_proof :: "'p \<Rightarrow> string + bytes"
  lc_deserialize_proof :: "bytes \<Rightarrow> string + 'p"
  lc_verify_proof :: "verifying_key \<Rightarrow> user_value list \<Rightarrow> 'p \<Rightarrow> string + bool"
  lc_mint_credits :: "aleo_address \<Rightarrow> u64 \<Rightarrow> u64 \<Rightarrow> string + (string \<times> 'er)"
  lc_execute_function :: "program \<Rightarrow> string \<Rightarrow> user_value list \<Rightarrow> string + ('vars \<times> 'p)"
  lc_process_inputs :: "string \<Rightarrow> 'vars \<Rightarrow> private_key \<Rightarrow> string + (string \<times> variable_type) list"
  lc_process_outputs :: "string \<Rightarrow> 'vars \<Rightarrow> string + (string \<times> variable_type) list"
  lc_serial_numbers :: "lambda_transition \<Rightarrow> string list"
  lc_output_records :: "lambda_transition \<Rightarrow> (string \<times> 'er) list"
  lc_record_to_string :: "'er \<Rightarrow> string"
  lc_record_from_string :: "string \<Rightarrow> 'er option"


section \<open>Deployment check\<close>

definition verify_deployment :: "program \<Rightarrow> vk_map \<Rightarrow> unit result" where
  "verify_deployment prog verifying_keys =
     (if verifying_keys = [] then Err NoVerifyingKeys
      else if length verifying_keys \<noteq> length (prog_functions prog) then Err KeyCountMismatch
      else check_function_names (prog_functions prog) (map fst verifying_keys))"

lemma verify_deployment_Ok_iff:
  "verify_deployment prog ks = Ok () \<longleftrightarrow>
     ks \<noteq> [] \<and> map fst (prog_functions prog) = map fst ks \<and> map snd (prog_functions prog) = map fst ks"
  by (auto simp: verify_deployment_def check_function_names_Ok_iff dest: map_eq_imp_length_eq)

lemma verify_deployment_no_panic: "verify_deployment prog ks \<noteq> Panic p"
  by (simp add: verify_deployment_def check_function_names_no_panic)


section \<open>Execution check\<close>

definition MAX_INPUTS :: nat where "MAX_INPUTS = 8"
definition MAX_OUTPUTS :: nat where "MAX_OUTPUTS = 8"

definition program_is_coinbase :: "string \<Rightarrow> string \<Rightarrow> bool" where
  "program_is_coinbase program_id function_name \<longleftrightarrow>
     (function_name = ''mint'' \<or> function_name = ''genesis'') \<and> program_id = ''credits.aleo''"

text \<open>Only the public inputs of the transition are inputs of the proof check.\<close>

fun public_inputs :: "variable_type list \<Rightarrow> user_value list" where
  "public_inputs [] = []"
| "public_inputs (Public v # vs) = v # public_inputs vs"
| "public_inputs (_ # vs) = public_inputs vs"

definition verify_execution ::
  "('p, 'er, 'vars) lambda_crate \<Rightarrow> lambda_transition \<Rightarrow> vk_map \<Rightarrow> unit result" where
  "verify_execution c t verifying_key_map =
     and_then (ensure (0 \<le> sint (lt_fee t)) NegativeFee) (\<lambda>_.
     and_then (ensure (\<not> program_is_coinbase (lt_program_id t) (lt_function_name t)) CoinbaseCall) (\<lambda>_.
     and_then (ensure (length (lt_inputs t) \<le> MAX_INPUTS) TooManyInputs) (\<lambda>_.
     and_then (ensure (length (lt_outputs t) \<le> MAX_OUTPUTS) TooManyOutputs) (\<lambda>_.
     and_then (ok_or MissingVerifyingKey (map_of verifying_key_map (lt_function_name t))) (\<lambda>verifying_key.
     and_then (external (lc_hex_decode c (lt_proof t))) (\<lambda>proof_bytes.
     and_then (external (lc_deserialize_proof c proof_bytes)) (\<lambda>proof.
     and_then (external (lc_verify_proof c verifying_key (public_inputs (lt_inputs t)) proof)) (\<lambda>valid.
     ensure valid InvalidProof))))))))"

lemma verify_execution_Ok_iff:
  "verify_execution c t ks = Ok () \<longleftrightarrow>
     0 \<le> sint (lt_fee t) \<and> \<not> program_is_coinbase (lt_program_id t) (lt_function_name t)
     \<and> length (lt_inputs t) \<le> MAX_INPUTS \<and> length (lt_outputs t) \<le> MAX_OUTPUTS
     \<and> (\<exists>vk bs pr. map_of ks (lt_function_name t) = Some vk \<and> lc_hex_decode c (lt_proof t) = Inr bs
        \<and> lc_deserialize_proof c bs = Inr pr
        \<and> lc_verify_proof c vk (public_inputs (lt_inputs t)) pr = Inr True)"
  by (auto simp: verify_execution_def result_elims)

lemma verify_execution_no_panic: "verify_execution c t ks \<noteq> Panic p"
  by (simp add: verify_execution_def result_panics)


section \<open>Executing a function\<close>

text \<open>
  \<open>execution\<close> builds one transition, and its fee is the constant 0. The key argument is not
  used by this backend.
\<close>

definition execution ::
  "('p, 'er, 'vars) lambda_crate \<Rightarrow> program \<Rightarrow> string \<Rightarrow> user_value list \<Rightarrow> private_key \<Rightarrow>
   proving_key option \<Rightarrow> lambda_transition list result" where
  "execution c prog function_name inputs private_key proving_key =
     and_then (ensure (\<not> program_is_coinbase (prog_id prog) function_name) CoinbaseCall) (\<lambda>_.
     and_then (external (lc_get_function c prog function_name)) (\<lambda>function.
     and_then (external (lc_execute_function c prog function_name inputs)) (\<lambda>(variables, proof).
     and_then (external (lc_process_inputs c function variables private_key)) (\<lambda>ins.
     and_then (external (lc_process_outputs c function variables)) (\<lambda>outs.
     and_then (external (lc_serialize_proof c proof)) (\<lambda>bytes_proof.
     Ok [\<lparr>lt_program_id = prog_id prog, lt_function_name = function_name,
          lt_inputs = map snd ins, lt_outputs = map snd outs,
          lt_proof = lc_hex_encode c bytes_proof, lt_fee = 0\<rparr>]))))))"

definition gates :: "plain_record \<Rightarrow> u64" where
  "gates record = rec_gates record"

definition sha3_hash :: "('p, 'er, 'vars) lambda_crate \<Rightarrow> bytes \<Rightarrow> string" where
  "sha3_hash c input = lc_hex_encode c (lc_sha3_256 c input)"

definition compute_serial_number ::
  "('p, 'er, 'vars) lambda_crate \<Rightarrow> private_key \<Rightarrow> string \<Rightarrow> string result" where
  "compute_serial_number c private_key commitment =
     map_ok (sha3_hash c) (external (lc_hex_decode c commitment))"

lemma compute_serial_number_no_panic [simp]: "compute_serial_number c key commitment \<noteq> Panic p"
  by (simp add: compute_serial_number_def result_panics)

definition mint_record ::
  "('p, 'er, 'vars) lambda_crate \<Rightarrow> string \<Rightarrow> string \<Rightarrow> aleo_address \<Rightarrow> u64 \<Rightarrow> u64 \<Rightarrow>
   (string \<times> 'er) result" where
  "mint_record c program_id record_name owner_address amount seed =
     external (lc_mint_credits c owner_address amount seed)"

definition u64_to_value :: "('p, 'er, 'vars) lambda_crate \<Rightarrow> u64 \<Rightarrow> user_value result" where
  "u64_to_value c amount =
     expect_ok ''parse amount'' (external (lc_parse_value c (decimal (unat amount) @ ''u64'')))"


section \<open>Reading the outputs of a transition\<close>

text \<open>
  \<open>int_from_output\<close> widens the literal to \<open>u128\<close> and narrows it to the type asked for, here
  \<open>u64\<close>, the only one the library uses. A literal of another type hits \<open>todo!()\<close>.
\<close>

fun as_u128 :: "user_value \<Rightarrow> u128 result" where
  "as_u128 (U8 v) = Ok (ucast v)"
| "as_u128 (U16 v) = Ok (ucast v)"
| "as_u128 (U32 v) = Ok (ucast v)"
| "as_u128 (U64 v) = Ok (ucast v)"
| "as_u128 (U128 v) = Ok v"
| "as_u128 _ = Panic ''not yet implemented''"

definition u64_try_from :: "u128 \<Rightarrow> u64 option" where
  "u64_try_from v = (if uint v < 2 ^ 64 then Some (ucast v) else None)"

fun int_from_output :: "variable_type \<Rightarrow> u64 result" where
  "int_from_output (Private v) =
     and_then (as_u128 v) (\<lambda>w. expect_some ''issue casting literal'' (u64_try_from w))"
| "int_from_output (Public v) =
     and_then (as_u128 v) (\<lambda>w. expect_some ''issue casting literal'' (u64_try_from w))"
| "int_from_output _ = Err UnsupportedOutput"

lemma u64_from_u128: "u64_try_from (ucast g) = Some g"
proof -
  have lt: "uint g < 2 ^ 64" using uint_lt2p [of g] by simp
  then have "take_bit 128 (uint g) = uint g" by (intro take_bit_int_eq_self) auto
  with lt show ?thesis by (simp add: u64_try_from_def unsigned_ucast_eq take_bit_word_eq_self)
qed

text \<open>\<open>std::str::from_utf8\<close>: the byte sequences of well-formed UTF-8.\<close>

definition utf8_tail :: "nat \<Rightarrow> bool" where
  "utf8_tail b \<longleftrightarrow> 128 \<le> b \<and> b < 192"

fun utf8_valid :: "nat list \<Rightarrow> bool" where
  "utf8_valid [] = True"
| "utf8_valid (a # bs) =
     (if a < 128 then utf8_valid bs
      else if 194 \<le> a \<and> a < 224 then
        (case bs of b # cs \<Rightarrow> utf8_tail b \<and> utf8_valid cs | _ \<Rightarrow> False)
      else if 224 \<le> a \<and> a < 240 then
        (case bs of b # c # ds \<Rightarrow>
           (if a = 224 then 160 \<le> b \<and> b < 192 else if a = 237 then 128 \<le> b \<and> b < 160 else utf8_tail b)
           \<and> utf8_tail c \<and> utf8_valid ds
         | _ \<Rightarrow> False)
      else if 240 \<le> a \<and> a < 245 then
        (case bs of b # c # d # es \<Rightarrow>
           (if a = 240 then 144 \<le> b \<and> b < 192 else if a = 244 then 128 \<le> b \<and> b < 144 else utf8_tail b)
           \<and> utf8_tail c \<and> utf8_tail d \<and> utf8_valid es
         | _ \<Rightarrow> False)
      else False)"

definition from_utf8 :: "string \<Rightarrow> string result" where
  "from_utf8 bs = (if utf8_valid (map of_char bs) then Ok bs else Err (External ''invalid utf-8''))"

fun address_from_output ::
  "('p, 'er, 'vars) lambda_crate \<Rightarrow> variable_type \<Rightarrow> aleo_address result" where
  "address_from_output c (Public (AddressValue address)) =
     and_then (from_utf8 address) (\<lambda>address_string. external (lc_parse_address c address_string))"
| "address_from_output c (Private (AddressValue address)) =
     and_then (from_utf8 address) (\<lambda>address_string. external (lc_parse_address c address_string))"
| "address_from_output c _ = Err UnsupportedOutput"


section \<open>The backend as an instance of the interface\<close>

definition lambda_backend ::
  "('p, 'er, 'vars) lambda_crate \<Rightarrow> (string, 'er, lambda_transition, variable_type) vm_backend" where
  "lambda_backend c =
     \<lparr>vm_program_id = lt_program_id, vm_function_name = lt_function_name, vm_fee = lt_fee,
      vm_outputs = lt_outputs, vm_serial_numbers = lc_serial_numbers c,
      vm_output_records = lc_output_records c, vm_verify_deployment = verify_deployment,
      vm_verify_execution = verify_execution c, vm_int_from_output = int_from_output,
      vm_address_from_output = address_from_output c,
      vm_parse_address = (\<lambda>text. external (lc_parse_address c text)), vm_mint_record = mint_record c,
      vm_field_to_string = id, vm_field_from_string = Some,
      vm_record_to_string = lc_record_to_string c, vm_record_from_string = lc_record_from_string c\<rparr>"

interpretation lambda_vm: vm_contract "lambda_backend c"
  for c :: "('p, 'er, 'vars) lambda_crate"
  by unfold_locales
    (auto simp: lambda_backend_def verify_execution_Ok_iff verify_execution_no_panic
       verify_deployment_Ok_iff verify_deployment_no_panic dest: map_of_SomeD intro: rev_image_eqI)

interpretation lambda_field: text_codec "vm_field_to_string (lambda_backend c)"
  "vm_field_from_string (lambda_backend c)" for c :: "('p, 'er, 'vars) lambda_crate"
  by unfold_locales (simp add: lambda_backend_def)



section \<open>Properties\<close>

text \<open>C32. The execution check of this backend binds neither the outputs nor the fee of a
  transition: they are no input of the proof check. A verified transition stays verified when
  its outputs are replaced by any other eight or fewer and its fee by any that is not
  negative, so amounts and validators of a staking transition can be forged.\<close>
theorem execution_check_ignores_outputs:
  assumes "verify_execution c t ks = Ok ()" and "length outs \<le> MAX_OUTPUTS" and "0 \<le> sint fee"
  shows "verify_execution c (t\<lparr>lt_outputs := outs, lt_fee := fee\<rparr>) ks = Ok ()"
  using assms by (auto simp: verify_execution_Ok_iff)

text \<open>What the execution check does guarantee: the fee is not negative, no coinbase function of
  the credits program is called, inputs and outputs are at most eight, and the proof is valid
  for the public inputs under the verifying key of the called function. It never panics.\<close>
theorem execution_check_sound:
  "(verify_execution c t ks = Ok ()) =
     (0 \<le> sint (lt_fee t)
      \<and> \<not> (lt_program_id t = ''credits.aleo'' \<and> lt_function_name t \<in> {''mint'', ''genesis''})
      \<and> length (lt_inputs t) \<le> 8 \<and> length (lt_outputs t) \<le> 8
      \<and> (\<exists>vk raw proof. map_of ks (lt_function_name t) = Some vk \<and> lc_hex_decode c (lt_proof t) = Inr raw
          \<and> lc_deserialize_proof c raw = Inr proof
          \<and> lc_verify_proof c vk [v. Public v \<leftarrow> lt_inputs t] proof = Inr True))
   \<and> (\<forall>p. verify_execution c t ks \<noteq> Panic p)"
proof -
  have "public_inputs vs = [v. Public v \<leftarrow> vs]" for vs
    by (induction vs rule: public_inputs.induct) auto
  then show ?thesis
    by (auto simp: verify_execution_Ok_iff verify_execution_no_panic program_is_coinbase_def
        MAX_INPUTS_def MAX_OUTPUTS_def)
qed

text \<open>Reading an integer output: an unsigned literal in range is returned as it is, also from
  a wider type; one of a wider type that does not fit, and a literal of any other type, panic,
  and an output that is no value is an error.\<close>
theorem int_from_output_value:
  "int_from_output (Public v) = int_from_output (Private v)
    \<and> int_from_output (Public (U64 w)) = Ok w
    \<and> int_from_output (Public (U128 x)) =
        (if uint x < 2 ^ 64 then Ok (ucast x) else Panic ''issue casting literal'')
    \<and> int_from_output (Public (AddressValue a)) = Panic ''not yet implemented''
    \<and> int_from_output (Public (RecordValue r)) = Panic ''not yet implemented''
    \<and> int_from_output (OtherVariable t) = Err UnsupportedOutput"
  using u64_from_u128 [of w] by (simp add: u64_try_from_def)

end
