(* ===== verification/Validator.thy ===== *)
theory Validator
  imports Vm_Api
begin

text \<open>
  \<open>src/lib/validator.rs\<close>: a validator node with its voting power, a stake (a signed change of
  voting power for one validator), and the application of a stake to a validator.
\<close>

section \<open>Keys and addresses\<close>

text \<open>
  \<open>tendermint::PublicKey\<close> is built without the \<open>secp256k1\<close> feature (\<open>Cargo.toml\<close>), so every
  key is an Ed25519 key and \<open>key.ed25519()\<close> is never \<open>None\<close>. Decoding of base64, the check
  of the raw key and the derivation of the account id belong to crates: they are parameters.
\<close>

datatype pub_key = Ed25519 bytes

type_synonym address = bytes

record tendermint_crate =
  tc_base64_decode :: "string \<Rightarrow> string + bytes"
  tc_base64_encode :: "bytes \<Rightarrow> string"
  tc_from_raw_ed25519 :: "bytes \<Rightarrow> pub_key option"
  tc_account_id :: "bytes \<Rightarrow> address"

definition parse_pub_key :: "tendermint_crate \<Rightarrow> string \<Rightarrow> pub_key result" where
  "parse_pub_key c key =
     and_then (external (tc_base64_decode c key)) (\<lambda>raw.
     ok_or BadPublicKey (tc_from_raw_ed25519 c raw))"

fun pub_key_to_address :: "tendermint_crate \<Rightarrow> pub_key \<Rightarrow> address" where
  "pub_key_to_address c (Ed25519 raw) = tc_account_id c raw"

lemma parse_pub_key_no_panic [simp]: "parse_pub_key c key \<noteq> Panic p"
  by (simp add: parse_pub_key_def result_panics)


section \<open>Validators and stakes\<close>

record validator =
  v_aleo_address :: aleo_address
  v_pub_key :: pub_key
  v_voting_power :: u64

record stake =
  s_aleo_address :: aleo_address
  s_pub_key :: pub_key
  s_gates_delta :: i64

definition validator_address :: "tendermint_crate \<Rightarrow> validator \<Rightarrow> address" where
  "validator_address c v = pub_key_to_address c (v_pub_key v)"

definition stake_address :: "tendermint_crate \<Rightarrow> stake \<Rightarrow> address" where
  "stake_address c s = pub_key_to_address c (s_pub_key s)"

definition validator_from_str ::
  "('f, 'er, 'tr, 'out) vm_backend \<Rightarrow> tendermint_crate \<Rightarrow> string \<Rightarrow> string \<Rightarrow> u64 \<Rightarrow> validator result" where
  "validator_from_str vm c key aleo voting_power =
     and_then (vm_parse_address vm aleo) (\<lambda>aleo_address.
     and_then (parse_pub_key c key) (\<lambda>pub_key.
     Ok \<lparr>v_aleo_address = aleo_address, v_pub_key = pub_key, v_voting_power = voting_power\<rparr>))"

definition stake_new ::
  "tendermint_crate \<Rightarrow> string \<Rightarrow> aleo_address \<Rightarrow> i64 \<Rightarrow> stake result" where
  "stake_new c key aleo_address gates_delta =
     and_then (ensure (gates_delta \<noteq> 0) ZeroStake) (\<lambda>_.
     and_then (parse_pub_key c key) (\<lambda>pub_key.
     Ok \<lparr>s_aleo_address = aleo_address, s_pub_key = pub_key, s_gates_delta = gates_delta\<rparr>))"

definition from_stake :: "stake \<Rightarrow> validator result" where
  "from_stake s =
     and_then (ensure (0 < sint (s_gates_delta s)) NegativeVotingPower) (\<lambda>_.
     Ok \<lparr>v_aleo_address = s_aleo_address s, v_pub_key = s_pub_key s,
         v_voting_power = s_gates_delta s\<rparr>)"

text \<open>
  \<open>Validator::apply\<close>. The sum is an \<open>i64\<close> sum of the casted power and the delta: it wraps,
  and the sign of the wrapped sum is what the code checks.
\<close>

definition validator_apply :: "tendermint_crate \<Rightarrow> validator \<Rightarrow> stake \<Rightarrow> validator result" where
  "validator_apply c v s =
     and_then (ensure (validator_address c v = stake_address c s) DifferentValidator) (\<lambda>_.
     and_then (ensure (v_aleo_address v = s_aleo_address s) DifferentAccount) (\<lambda>_.
     let new_power = v_voting_power v + s_gates_delta s in
     and_then (ensure (0 \<le> sint new_power) NotEnoughStake) (\<lambda>_.
     Ok (v\<lparr>v_voting_power := new_power\<rparr>))))"


section \<open>Properties of stakes\<close>

text \<open>The powers the code maintains stay below \<open>2 ^ 63\<close>, the range in which the casts agree.\<close>

definition power_ok :: "validator \<Rightarrow> bool" where
  "power_ok v \<longleftrightarrow> uint (v_voting_power v) < 2 ^ 63"

lemma from_stake_Ok_iff:
  "from_stake s = Ok v \<longleftrightarrow> 0 < sint (s_gates_delta s) \<and>
     v = \<lparr>v_aleo_address = s_aleo_address s, v_pub_key = s_pub_key s, v_voting_power = s_gates_delta s\<rparr>"
  by (auto simp: from_stake_def result_elims)

lemma from_stake_power_ok: "from_stake s = Ok v \<Longrightarrow> power_ok v \<and> v_voting_power v \<noteq> 0"
  using sint_nonneg_iff [of "s_gates_delta s"] by (auto simp: from_stake_Ok_iff power_ok_def)

lemma from_stake_address: "from_stake s = Ok v \<Longrightarrow> validator_address c v = stake_address c s"
  by (auto simp: from_stake_Ok_iff validator_address_def stake_address_def)

lemma from_stake_no_panic [simp]: "from_stake s \<noteq> Panic p"
  by (simp add: from_stake_def result_panics)

lemma validator_apply_Ok_iff:
  "validator_apply c v s = Ok v' \<longleftrightarrow>
     validator_address c v = stake_address c s \<and> v_aleo_address v = s_aleo_address s
     \<and> 0 \<le> sint (v_voting_power v + s_gates_delta s)
     \<and> v' = v\<lparr>v_voting_power := v_voting_power v + s_gates_delta s\<rparr>"
  by (auto simp: validator_apply_def Let_def result_elims)

lemma validator_apply_no_panic [simp]: "validator_apply c v s \<noteq> Panic p"
  by (simp add: validator_apply_def Let_def result_panics)

lemma validator_apply_address:
  "validator_apply c v s = Ok v' \<Longrightarrow> validator_address c v' = validator_address c v"
  by (auto simp: validator_apply_Ok_iff validator_address_def)

lemma validator_apply_power_ok: "validator_apply c v s = Ok v' \<Longrightarrow> power_ok v'"
  using sint_nonneg_iff [of "v_voting_power v + s_gates_delta s"]
  by (auto simp: validator_apply_Ok_iff power_ok_def)

text \<open>
  The sign of the wrapped sum decides exactly whether the true sum is a power in range: a sum
  above the range wraps to a negative number and is refused too.
\<close>

lemma wrapped_sum_nonneg_iff:
  assumes "uint p < 2 ^ 63"
  shows "0 \<le> sint (p + d :: 64 word) \<longleftrightarrow> 0 \<le> uint p + sint d \<and> uint p + sint d < 2 ^ 63"
proof -
  have d: "- (2 ^ 63) \<le> sint d" "sint d < 2 ^ 63"
    using sint_ge [of d] sint_lt [of d] by simp_all
  have p: "sint p = uint p" "0 \<le> uint p"
    using assms by (simp_all add: sint_eq_uint_iff)
  show ?thesis
  proof (cases "uint p + sint d < 2 ^ 63")
    case True
    moreover have "- (2 ^ 63) \<le> uint p + sint d" using d p by linarith
    ultimately have "sint (p + d) = uint p + sint d"
      using sint_add_exact [of p d] p by simp
    then show ?thesis using True by simp
  next
    case False
    then have "0 \<le> sint d" using assms by linarith
    then have "sint d = uint d" by (simp only: sint_nonneg_iff sint_eq_uint_iff)
    then have "uint (p + d) = uint p + uint d"
      using uint_add_exact [of p d] assms d by simp
    then show ?thesis
      using False \<open>sint d = uint d\<close> by (simp add: sint_nonneg_iff)
  qed
qed

lemma wrapped_sum_value:
  assumes "uint p < 2 ^ 63" and "0 \<le> sint (p + d :: 64 word)"
  shows "uint (p + d) = uint p + sint d"
proof -
  have "sint (p + d) = uint p + sint d"
    using assms wrapped_sum_nonneg_iff [OF assms(1), of d] sint_add_exact [of p d]
    by (simp add: sint_eq_uint_iff [THEN iffD2])
  moreover have "sint (p + d) = uint (p + d)"
    using assms(2) by (simp add: sint_eq_uint_iff sint_nonneg_iff)
  ultimately show ?thesis by simp
qed

end
