(* ===== verification/Samples.thy ===== *)
theory Samples
  imports Vm_Lambda Validator
begin

text \<open>
  Concrete instances of the crates the model leaves as parameters. They compute, so the
  properties of the other theories can be evaluated on concrete inputs: base64 and hex are
  replaced by the plain bytes of the text, an account id is a prefix of the key, a proof is
  valid when its bytes are those of the verifying key, and an encrypted record is its text.
\<close>

definition sample_crypto :: tendermint_crate where
  "sample_crypto =
     \<lparr>tc_base64_decode = (\<lambda>text. Inr (bytes_of text)),
      tc_base64_encode = text_of,
      tc_from_raw_ed25519 = (\<lambda>raw. if length raw = 32 then Some (Ed25519 raw) else None),
      tc_account_id = take 20\<rparr>"

definition sample_key :: "u8 \<Rightarrow> pub_key" where
  "sample_key n = Ed25519 (n # replicate 31 0)"

definition sample_address :: "u8 \<Rightarrow> address" where
  "sample_address n = n # replicate 19 0"

definition sample_account :: "string \<Rightarrow> aleo_address" where
  "sample_account name = AleoAddress name"

definition sample_validator :: "u8 \<Rightarrow> u64 \<Rightarrow> validator" where
  "sample_validator n p =
     \<lparr>v_aleo_address = sample_account ''aleo1'', v_pub_key = sample_key n, v_voting_power = p\<rparr>"

definition sample_stake :: "u8 \<Rightarrow> i64 \<Rightarrow> stake" where
  "sample_stake n d =
     \<lparr>s_aleo_address = sample_account ''aleo1'', s_pub_key = sample_key n, s_gates_delta = d\<rparr>"

lemma sample_crypto_simps [simp]:
  "tc_base64_decode sample_crypto text = Inr (bytes_of text)"
  "tc_base64_encode sample_crypto raw = text_of raw"
  "tc_from_raw_ed25519 sample_crypto raw = (if length raw = 32 then Some (Ed25519 raw) else None)"
  "tc_account_id sample_crypto raw = take 20 raw"
  by (simp_all add: sample_crypto_def)

lemma sample_addresses [simp]:
  "validator_address sample_crypto (sample_validator n p) = sample_address n"
  "stake_address sample_crypto (sample_stake n d) = sample_address n"
  by (simp_all add: validator_address_def stake_address_def sample_validator_def sample_stake_def
      sample_key_def sample_address_def take_Cons')

lemma sample_fields [simp]:
  "v_aleo_address (sample_validator n p) = sample_account ''aleo1''"
  "v_voting_power (sample_validator n p) = p"
  "s_aleo_address (sample_stake n d) = sample_account ''aleo1''"
  "s_gates_delta (sample_stake n d) = d"
  by (simp_all add: sample_validator_def sample_stake_def)

lemma sample_address_eq [simp]: "sample_address m = sample_address n \<longleftrightarrow> m = n"
  by (simp add: sample_address_def)

lemma sample_power_ok [simp]: "power_ok (sample_validator n p) \<longleftrightarrow> uint p < 2 ^ 63"
  by (simp add: power_ok_def)

definition sample_crate :: "(bytes, string, string) lambda_crate" where
  "sample_crate =
     \<lparr>lc_parse_address = (\<lambda>text. Inr (AleoAddress text)),
      lc_parse_value = (\<lambda>text. Inr (OtherValue text)),
      lc_get_function = (\<lambda>prog name. if name \<in> fst ` set (prog_functions prog) then Inr name
         else Inl ''function not found''),
      lc_hex_decode = (\<lambda>text. Inr (bytes_of text)),
      lc_hex_encode = text_of,
      lc_sha3_256 = id,
      lc_serialize_proof = Inr,
      lc_deserialize_proof = Inr,
      lc_verify_proof = (\<lambda>vk inputs proof. Inr (vk = VerifyingKey (text_of proof))),
      lc_mint_credits = (\<lambda>owner amount seed.
         Inr (decimal (unat amount) @ ''-'' @ decimal (unat seed), ''record'')),
      lc_execute_function = (\<lambda>prog name inputs. Inr (name, bytes_of name)),
      lc_process_inputs = (\<lambda>function variables key. Inr []),
      lc_process_outputs = (\<lambda>function variables. Inr []),
      lc_serial_numbers = (\<lambda>t. concat (map (\<lambda>i. case i of OtherVariable sn \<Rightarrow> [sn] | _ \<Rightarrow> []) (lt_inputs t))),
      lc_output_records = (\<lambda>t. concat (map (\<lambda>v. case v of OtherVariable cm \<Rightarrow> [(cm, ''record'')] | _ \<Rightarrow> [])
         (lt_outputs t))),
      lc_record_to_string = id,
      lc_record_from_string = Some\<rparr>"

abbreviation sample_vm :: "(string, string, lambda_transition, variable_type) vm_backend" where
  "sample_vm \<equiv> lambda_backend sample_crate"

text \<open>A transition the sample verifier accepts, and the keys it is checked with.\<close>

definition verified_sample :: lambda_transition where
  "verified_sample =
     \<lparr>lt_program_id = ''credits.aleo'', lt_function_name = ''stake'', lt_inputs = [Public (U64 3)],
      lt_outputs = [], lt_proof = ''vk'', lt_fee = 2\<rparr>"

theorem execution_check_ignores_outputs_witness:
  "verify_execution sample_crate (verified_sample\<lparr>lt_outputs := [Public (U64 1000000)], lt_fee := 9\<rparr>)
     [(''stake'', VerifyingKey ''vk'')] = Ok ()"
  by (rule execution_check_ignores_outputs)
    (simp_all add: verify_execution_Ok_iff verified_sample_def program_is_coinbase_def MAX_INPUTS_def
      MAX_OUTPUTS_def sample_crate_def)

end
