(* ===== verification/Transaction.thy ===== *)
theory Transaction
  imports Samples
begin

text \<open>
  \<open>src/lib/transaction.rs\<close>: transactions, their hash and id, their fees and record serial
  numbers, the staking updates they contain, and how a client builds them.
\<close>

section \<open>Transactions\<close>

text \<open>The transitions \<open>'tr\<close> are those of the backend that is compiled in.\<close>

datatype 'tr transaction =
    Deployment string program vk_map "'tr option"
  | Execution string "'tr list"

fun tx_id :: "'tr transaction \<Rightarrow> string" where
  "tx_id (Deployment i _ _ _) = i"
| "tx_id (Execution i _) = i"

fun transitions :: "'tr transaction \<Rightarrow> 'tr list" where
  "transitions (Deployment _ _ _ fee) = (case fee of Some transition \<Rightarrow> [transition] | None \<Rightarrow> [])"
| "transitions (Execution _ ts) = ts"

definition output_records ::
  "('f, 'er, 'tr, 'out) vm_backend \<Rightarrow> 'tr transaction \<Rightarrow> ('f \<times> 'er) list" where
  "output_records vm tx = concat (map (vm_output_records vm) (transitions tx))"

definition record_serial_numbers ::
  "('f, 'er, 'tr, 'out) vm_backend \<Rightarrow> 'tr transaction \<Rightarrow> 'f list" where
  "record_serial_numbers vm tx = concat (map (vm_serial_numbers vm) (transitions tx))"

text \<open>The sum of an execution is an \<open>i64\<close> sum, which wraps.\<close>

fun fees :: "('f, 'er, 'tr, 'out) vm_backend \<Rightarrow> 'tr transaction \<Rightarrow> i64" where
  "fees vm (Deployment _ _ _ fee) = (case fee of Some transition \<Rightarrow> vm_fee vm transition | None \<Rightarrow> 0)"
| "fees vm (Execution _ ts) = fold (\<lambda>transition acc. acc + vm_fee vm transition) ts 0"


section \<open>Validator keys in transition outputs\<close>

text \<open>
  A validator key is 32 bytes. A staking transition carries it as four \<open>u64\<close> outputs (or two
  \<open>u128\<close>), most significant section first.
\<close>

definition u64_from_be_bytes :: "bytes \<Rightarrow> u64" where "u64_from_be_bytes bs = of_nat (be_nat 0 bs)"
definition u64_to_be_bytes :: "u64 \<Rightarrow> bytes" where "u64_to_be_bytes w = nat_be 8 (unat w)"
definition u128_from_be_bytes :: "bytes \<Rightarrow> u128" where "u128_from_be_bytes bs = of_nat (be_nat 0 bs)"
definition u128_to_be_bytes :: "u128 \<Rightarrow> bytes" where "u128_to_be_bytes w = nat_be 16 (unat w)"

text \<open>\<open>chunks_exact\<close>: a rest shorter than the chunk size is left out.\<close>

function chunks_exact :: "nat \<Rightarrow> 'a list \<Rightarrow> 'a list list" where
  "chunks_exact n xs =
     (if n = 0 \<or> length xs < n then [] else take n xs # chunks_exact n (drop n xs))"
  by auto
termination by (relation "measure (\<lambda>(n, xs). length xs)") auto

declare chunks_exact.simps [simp del]

definition validator_key_as_u128s :: "bytes \<Rightarrow> (u128 \<times> u128) result" where
  "validator_key_as_u128s bytes =
     and_then (ensure (length bytes = 32) BadKeyLength) (\<lambda>_.
     Ok (u128_from_be_bytes (take 16 bytes), u128_from_be_bytes (drop 16 bytes)))"

definition validator_key_from_u128s :: "tendermint_crate \<Rightarrow> u128 \<Rightarrow> u128 \<Rightarrow> string result" where
  "validator_key_from_u128s c higher lower =
     Ok (tc_base64_encode c (u128_to_be_bytes higher @ u128_to_be_bytes lower))"

definition validator_key_as_u64s :: "bytes \<Rightarrow> u64 list result" where
  "validator_key_as_u64s bytes =
     and_then (ensure (length bytes = 32) BadKeyLength) (\<lambda>_.
     let sections = map u64_from_be_bytes (chunks_exact 8 bytes) in
     and_then (ensure (length sections = 4) BadKeyLength) (\<lambda>_. Ok sections))"

definition validator_key_from_u64s :: "tendermint_crate \<Rightarrow> u64 list \<Rightarrow> string result" where
  "validator_key_from_u64s c sections =
     and_then (ensure (length sections = 4) BadKeySections) (\<lambda>_.
     Ok (tc_base64_encode c (concat (map u64_to_be_bytes sections))))"


section \<open>Staking updates\<close>

definition extract_output ::
  "('f, 'er, 'tr, 'out) vm_backend \<Rightarrow> 'tr \<Rightarrow> nat \<Rightarrow> 'out result" where
  "extract_output vm transition index =
     ok_or MissingStakingOutput
       (if index < length (vm_outputs vm transition) then Some (vm_outputs vm transition ! index) else None)"

definition int_output :: "('f, 'er, 'tr, 'out) vm_backend \<Rightarrow> 'tr \<Rightarrow> nat \<Rightarrow> u64 result" where
  "int_output vm transition index = and_then (extract_output vm transition index) (vm_int_from_output vm)"

text \<open>
  The update of one transition of the credits program: \<open>None\<close> for a function other than stake
  and unstake (\<open>continue\<close>). The amount is a \<open>u64\<close> cast to \<open>i64\<close>.
\<close>

definition stake_of ::
  "('f, 'er, 'tr, 'out) vm_backend \<Rightarrow> tendermint_crate \<Rightarrow> 'tr \<Rightarrow> i64 \<Rightarrow> stake result" where
  "stake_of vm c transition amount =
     and_then (try_map (int_output vm transition) [4, 5, 6, 7]) (\<lambda>validator_key.
     and_then (validator_key_from_u64s c validator_key) (\<lambda>validator.
     and_then (and_then (extract_output vm transition 3) (vm_address_from_output vm)) (\<lambda>aleo_address.
     stake_new c validator aleo_address amount)))"

definition stake_update ::
  "('f, 'er, 'tr, 'out) vm_backend \<Rightarrow> tendermint_crate \<Rightarrow> 'tr \<Rightarrow> stake option result" where
  "stake_update vm c transition =
     (if vm_program_id vm transition = ''credits.aleo'' then
        (if vm_function_name vm transition = ''stake'' then
           and_then (int_output vm transition 2) (\<lambda>gates. map_ok Some (stake_of vm c transition gates))
         else if vm_function_name vm transition = ''unstake'' then
           and_then (int_output vm transition 2) (\<lambda>gates. map_ok Some (stake_of vm c transition (- gates)))
         else Ok None)
      else Ok None)"

fun somes :: "'a option list \<Rightarrow> 'a list" where
  "somes [] = []"
| "somes (Some x # xs) = x # somes xs"
| "somes (None # xs) = somes xs"

lemma set_somes: "set (somes xs) = {x. Some x \<in> set xs}"
  by (induction xs rule: somes.induct) auto

fun stake_updates ::
  "('f, 'er, 'tr, 'out) vm_backend \<Rightarrow> tendermint_crate \<Rightarrow> 'tr transaction \<Rightarrow> stake list result" where
  "stake_updates vm c (Execution _ ts) = map_ok somes (try_map (stake_update vm c) ts)"
| "stake_updates vm c (Deployment _ _ _ _) = Ok []"


section \<open>The hash and the id\<close>

text \<open>
  \<open>sha2\<close>, \<open>hex\<close> and the two serializers are parameters: \<open>txc_vk_bytes\<close> is
  \<open>serialize_verifying_key\<close> in the default backend and JSON in the other one.
\<close>

record 'tr tx_crate =
  txc_sha256 :: "bytes \<Rightarrow> bytes"
  txc_hex_encode :: "bytes \<Rightarrow> string"
  txc_vk_bytes :: "verifying_key \<Rightarrow> string + bytes"
  txc_transition_json :: "'tr \<Rightarrow> string + string"

definition json_bytes :: "'tr tx_crate \<Rightarrow> 'tr \<Rightarrow> bytes result" where
  "json_bytes x transition = map_ok bytes_of (external (txc_transition_json x transition))"

text \<open>What the hasher is fed with, in order: \<open>update\<close> appends.\<close>

fun hash_input :: "'tr tx_crate \<Rightarrow> 'tr transaction \<Rightarrow> bytes result" where
  "hash_input x (Deployment _ prog verifying_keys fee) =
     and_then (try_map (\<lambda>(key, value). map_ok (\<lambda>s. bytes_of key @ s) (external (txc_vk_bytes x value)))
       verifying_keys) (\<lambda>keys.
     and_then (case fee of Some transition \<Rightarrow> json_bytes x transition | None \<Rightarrow> Ok []) (\<lambda>fee_bytes.
     Ok ([0] @ bytes_of (prog_id prog) @ concat keys @ fee_bytes)))"
| "hash_input x (Execution _ ts) = map_ok (\<lambda>pieces. [1] @ concat pieces) (try_map (json_bytes x) ts)"

definition tx_hash :: "'tr tx_crate \<Rightarrow> 'tr transaction \<Rightarrow> string result" where
  "tx_hash x tx = map_ok (\<lambda>input. txc_hex_encode x (txc_sha256 x input)) (hash_input x tx)"

definition verify :: "'tr tx_crate \<Rightarrow> 'tr transaction \<Rightarrow> unit result" where
  "verify x tx = and_then (tx_hash x tx) (\<lambda>hash. ensure (tx_id tx = hash) CorruptedId)"

fun with_id :: "string \<Rightarrow> 'tr transaction \<Rightarrow> 'tr transaction" where
  "with_id i (Deployment _ prog ks fee) = Deployment i prog ks fee"
| "with_id i (Execution _ ts) = Execution i ts"

definition set_hashed_id :: "'tr tx_crate \<Rightarrow> 'tr transaction \<Rightarrow> 'tr transaction result" where
  "set_hashed_id x tx = map_ok (\<lambda>new_id. with_id new_id tx) (tx_hash x tx)"


section \<open>Building transactions\<close>

text \<open>
  What the constructors use of \<open>lib::vm\<close> and of the file system. \<open>'v\<close> is the type of user
  inputs and \<open>'r\<close> that of decrypted records. \<open>tv_credits\<close> is the outcome of
  \<open>lib::load_credits\<close>, which may panic (modelled in Program_File). \<open>tv_amount\<close> turns an amount of gates into an
  input: a constructor in the default backend, a parser in the other one.
\<close>

record ('tr, 'v, 'r) tx_vm =
  tv_read_file :: "string \<Rightarrow> string + string"
  tv_build_program :: "string \<Rightarrow> (program \<times> (string \<times> proving_key \<times> verifying_key) list) result"
  tv_execution :: "program \<Rightarrow> string \<Rightarrow> 'v list \<Rightarrow> private_key \<Rightarrow> proving_key option \<Rightarrow> 'tr list result"
  tv_identifier :: "string \<Rightarrow> string result"
  tv_record_value :: "'r \<Rightarrow> 'v"
  tv_amount :: "i64 \<Rightarrow> 'v result"
  tv_credits :: "(program \<times> (string \<times> proving_key \<times> verifying_key) list) result"

definition execute_credits ::
  "('tr, 'v, 'r) tx_vm \<Rightarrow> string \<Rightarrow> 'v list \<Rightarrow> private_key \<Rightarrow> 'tr list result" where
  "execute_credits tv function_text inputs private_key =
     and_then (tv_identifier tv function_text) (\<lambda>function.
     and_then (tv_credits tv) (\<lambda>(prog, keys).
     and_then (ok_or CreditsFunctionMissing (map_of keys function)) (\<lambda>(proving_key, _).
     tv_execution tv prog function inputs private_key (Some proving_key))))"

fun first_transition :: "'tr list \<Rightarrow> 'tr option result" where
  "first_transition (t # _) = Ok (Some t)"
| "first_transition [] = Panic ''unwrap on None''"

definition execute_fee ::
  "('tr, 'v, 'r) tx_vm \<Rightarrow> private_key \<Rightarrow> (u64 \<times> 'r) option \<Rightarrow> i64 \<Rightarrow> 'tr option result" where
  "execute_fee tv private_key requested_fee implicit_fee =
     (case requested_fee of
        None \<Rightarrow> Ok None
      | Some (requested, record) \<Rightarrow>
          and_then (ensure (0 \<le> sint implicit_fee) NegativeImplicitFee) (\<lambda>_.
          if sint requested < sint implicit_fee then Ok None
          else
            (let gates = requested - implicit_fee in
             and_then (tv_amount tv gates) (\<lambda>amount.
             and_then (execute_credits tv ''fee'' [tv_record_value tv record, amount] private_key)
               first_transition))))"

definition finish_execution ::
  "('f, 'er, 'tr, 'out) vm_backend \<Rightarrow> 'tr tx_crate \<Rightarrow> ('tr, 'v, 'r) tx_vm \<Rightarrow> private_key \<Rightarrow>
   (u64 \<times> 'r) option \<Rightarrow> 'tr list \<Rightarrow> 'tr transaction result" where
  "finish_execution vm x tv private_key requested_fee ts =
     (let implicit_fees = sum_list (map (vm_fee vm) ts) in
      and_then (execute_fee tv private_key requested_fee implicit_fees) (\<lambda>fee.
      set_hashed_id x (Execution ''not known yet'' (ts @ (case fee of Some t \<Rightarrow> [t] | None \<Rightarrow> [])))))"

definition tx_execution ::
  "('f, 'er, 'tr, 'out) vm_backend \<Rightarrow> 'tr tx_crate \<Rightarrow> ('tr, 'v, 'r) tx_vm \<Rightarrow> program \<Rightarrow> string \<Rightarrow> 'v list \<Rightarrow>
   private_key \<Rightarrow> (u64 \<times> 'r) option \<Rightarrow> 'tr transaction result" where
  "tx_execution vm x tv prog function_name inputs private_key requested_fee =
     and_then (tv_execution tv prog function_name inputs private_key None)
       (finish_execution vm x tv private_key requested_fee)"

definition credits_execution ::
  "('f, 'er, 'tr, 'out) vm_backend \<Rightarrow> 'tr tx_crate \<Rightarrow> ('tr, 'v, 'r) tx_vm \<Rightarrow> string \<Rightarrow> 'v list \<Rightarrow>
   private_key \<Rightarrow> (u64 \<times> 'r) option \<Rightarrow> 'tr transaction result" where
  "credits_execution vm x tv function_name inputs private_key requested_fee =
     and_then (execute_credits tv function_name inputs private_key)
       (finish_execution vm x tv private_key requested_fee)"

definition deployment ::
  "'tr tx_crate \<Rightarrow> ('tr, 'v, 'r) tx_vm \<Rightarrow> string \<Rightarrow> private_key \<Rightarrow> (u64 \<times> 'r) option \<Rightarrow> 'tr transaction result" where
  "deployment x tv path private_key fee =
     and_then (external (tv_read_file tv path)) (\<lambda>program_string.
     and_then (tv_build_program tv program_string) (\<lambda>(prog, program_build).
     and_then (execute_fee tv private_key fee 0) (\<lambda>fee_transition.
     set_hashed_id x (Deployment ''not known yet'' prog
       (map (\<lambda>(i, keys). (i, snd keys)) program_build) fee_transition))))"


section \<open>Lemmas on keys\<close>

lemma u64_bytes_round_trip: "length bs = 8 \<Longrightarrow> u64_to_be_bytes (u64_from_be_bytes bs) = bs"
  using be_nat_bound [of bs] nat_be_of_be_nat [of bs]
  by (simp add: u64_to_be_bytes_def u64_from_be_bytes_def unat_of_nat)

lemma u64_word_round_trip: "u64_from_be_bytes (u64_to_be_bytes w) = w"
  using unat_bound [of w] by (simp add: u64_to_be_bytes_def u64_from_be_bytes_def be_nat_of_nat_be)

lemma u128_bytes_round_trip: "length bs = 16 \<Longrightarrow> u128_to_be_bytes (u128_from_be_bytes bs) = bs"
  using be_nat_bound [of bs] nat_be_of_be_nat [of bs]
  by (simp add: u128_to_be_bytes_def u128_from_be_bytes_def unat_of_nat)

lemma chunks_exact_concat:
  "0 < n \<Longrightarrow> length xs = k * n \<Longrightarrow>
   concat (chunks_exact n xs) = xs \<and> length (chunks_exact n xs) = k \<and> (\<forall>c \<in> set (chunks_exact n xs). length c = n)"
proof (induction k arbitrary: xs)
  case 0
  then show ?case by (simp add: chunks_exact.simps [of n "[]"])
next
  case (Suc k)
  from Suc.prems have "length (drop n xs) = k * n" by simp
  with Suc.IH [of "drop n xs"] Suc.prems show ?case
    by (simp add: chunks_exact.simps [of n xs])
qed



section \<open>Lemmas on fees, hashes and amounts\<close>

lemma fold_fees: "fold (\<lambda>t acc. acc + f t) ts a = a + (sum_list (map f ts) :: i64)"
  by (induction ts arbitrary: a) (simp_all add: add.assoc)

lemma fees_execution: "fees vm (Execution i ts) = sum_list (map (vm_fee vm) ts)"
  by (simp add: fold_fees)

lemma sum_words_exact:
  fixes f :: "'a \<Rightarrow> i64"
  assumes "\<And>t. t \<in> set ts \<Longrightarrow> 0 \<le> sint (f t)" and "(\<Sum>t\<leftarrow>ts. sint (f t)) < 2 ^ 63"
  shows "sint (sum_list (map f ts)) = (\<Sum>t\<leftarrow>ts. sint (f t))"
  using assms
proof (induction ts)
  case Nil
  then show ?case by simp
next
  case (Cons t ts)
  have nonneg: "0 \<le> sint (f t)" "0 \<le> (\<Sum>t\<leftarrow>ts. sint (f t))"
    using Cons.prems(1) by (auto intro!: sum_list_nonneg)
  have rest: "(\<Sum>t\<leftarrow>ts. sint (f t)) < 2 ^ 63"
    using Cons.prems(2) nonneg unfolding list.map sum_list.Cons by linarith
  have eq: "sint (sum_list (map f ts)) = (\<Sum>t\<leftarrow>ts. sint (f t))"
    by (rule Cons.IH) (use Cons.prems(1) rest in auto)
  have "sint (f t + sum_list (map f ts)) = sint (f t) + sint (sum_list (map f ts))"
    using nonneg Cons.prems(2) unfolding list.map sum_list.Cons eq [symmetric]
    by (intro sint_add_exact) linarith+
  then show ?case by (simp add: eq)
qed

lemma hash_with_id [simp]: "tx_hash x (with_id i tx) = tx_hash x tx"
  by (cases tx) (simp_all add: tx_hash_def)

lemma tx_id_with_id [simp]: "tx_id (with_id i tx) = i"
  by (cases tx) simp_all

lemma transitions_with_id [simp]: "transitions (with_id i tx) = transitions tx"
  by (cases tx) (simp_all split: option.splits)

lemma with_id_twice [simp]: "with_id i (with_id j tx) = with_id i tx"
  by (cases tx) simp_all

lemma verify_Ok_iff: "verify x tx = Ok () \<longleftrightarrow> tx_hash x tx = Ok (tx_id tx)"
  by (auto simp: verify_def result_elims)

lemma set_hashed_id_Ok_iff:
  "set_hashed_id x tx = Ok tx' \<longleftrightarrow> (\<exists>h. tx_hash x tx = Ok h \<and> tx' = with_id h tx)"
  by (auto simp: set_hashed_id_def result_elims)

lemma json_bytes_no_panic [simp]: "json_bytes x t \<noteq> Panic p"
  by (simp add: json_bytes_def result_panics)

lemma hash_input_no_panic [simp]: "hash_input x tx \<noteq> Panic p"
proof (cases tx)
  case (Deployment i prog ks fee)
  have "try_map (\<lambda>(key, value). map_ok (\<lambda>s. bytes_of key @ s) (external (txc_vk_bytes x value))) ks \<noteq> Panic p"
    by (auto dest!: try_map_Panic simp: result_panics)
  moreover have "(case fee of Some transition \<Rightarrow> json_bytes x transition | None \<Rightarrow> Ok []) \<noteq> Panic p"
    by (simp split: option.splits)
  ultimately show ?thesis by (auto simp: Deployment result_panics)
next
  case (Execution i ts)
  have "try_map (json_bytes x) ts \<noteq> Panic p" by (auto dest!: try_map_Panic)
  then show ?thesis by (simp add: Execution result_panics)
qed

lemma verify_no_panic [simp]: "verify x tx \<noteq> Panic p"
  by (simp add: verify_def tx_hash_def result_panics)

lemma stake_new_Ok_iff:
  "stake_new c key a d = Ok s \<longleftrightarrow> d \<noteq> 0 \<and> (\<exists>pk. parse_pub_key c key = Ok pk \<and>
     s = \<lparr>s_aleo_address = a, s_pub_key = pk, s_gates_delta = d\<rparr>)"
  by (auto simp: stake_new_def result_elims)

lemma stake_of_Ok: "stake_of vm c t d = Ok s \<Longrightarrow> s_gates_delta s = d \<and> d \<noteq> 0"
  by (auto simp: stake_of_def result_elims stake_new_Ok_iff)

lemma stake_update_Some:
  assumes "stake_update vm c t = Ok (Some s)"
  shows "vm_program_id vm t = ''credits.aleo'' \<and> (\<exists>gates. int_output vm t 2 = Ok gates \<and> gates \<noteq> 0
    \<and> (vm_function_name vm t = ''stake'' \<and> s_gates_delta s = gates
       \<or> vm_function_name vm t = ''unstake'' \<and> s_gates_delta s = - gates))"
  using assms by (auto simp: stake_update_def result_elims dest: stake_of_Ok split: if_splits)

lemma sint_minus_word64:
  fixes g :: "64 word"
  assumes "g \<noteq> 0"
  shows "sint (- g) = (if uint g \<le> 2 ^ 63 then - uint g else 2 ^ 64 - uint g)"
proof -
  have "uint g \<noteq> 0" using assms by (metis uint_0_iff)
  moreover have "0 \<le> uint g" by simp
  ultimately have pos: "0 < uint g" by linarith
  have lt: "uint g < 2 ^ 64" using uint_lt2p [of g] by simp
  have "uint (- g) = (- uint g) mod 2 ^ 64"
    by (simp add: uint_word_ariths)
  also have "\<dots> = (2 ^ 64 - uint g) mod 2 ^ 64"
    by (metis (no_types, opaque_lifting) add.commute diff_conv_add_uminus mod_add_self1)
  also have "\<dots> = 2 ^ 64 - uint g"
    using pos lt by (intro mod_pos_pos_trivial) linarith+
  finally show ?thesis by (simp add: sint_word64)
qed


section \<open>The default backend behind the constructors\<close>

text \<open>
  \<open>vm::execution\<close> of \<open>lambdavm\<close> as the constructors call it; file access, the program builder
  and the credits program stay parameters.
\<close>

definition lambda_tx_vm ::
  "('p, 'er, 'vars) lambda_crate \<Rightarrow> (string \<Rightarrow> string + string) \<Rightarrow>
   (string \<Rightarrow> (program \<times> (string \<times> proving_key \<times> verifying_key) list) result) \<Rightarrow>
   (program \<times> (string \<times> proving_key \<times> verifying_key) list) result \<Rightarrow>
   (lambda_transition, user_value, plain_record) tx_vm" where
  "lambda_tx_vm c read_file build credits =
     \<lparr>tv_read_file = read_file, tv_build_program = build, tv_execution = Vm_Lambda.execution c,
      tv_identifier = Ok, tv_record_value = RecordValue, tv_amount = (\<lambda>gates. Ok (U64 gates)),
      tv_credits = credits\<rparr>"

lemma lambda_execution_fee: "Vm_Lambda.execution c prog f ins key pk = Ok ts \<Longrightarrow> \<forall>t \<in> set ts. lt_fee t = 0"
  by (auto simp: Vm_Lambda.execution_def result_elims split: prod.splits)

lemma execute_credits_Ok:
  "execute_credits tv f ins key = Ok ts \<Longrightarrow>
   \<exists>prog function pk. tv_execution tv prog function ins key (Some pk) = Ok ts"
  by (auto simp: execute_credits_def and_then_Ok_iff)

lemma execute_fee_Some:
  assumes "execute_fee tv key requested fee = Ok (Some t)"
  shows "\<exists>prog function ins pk ts. tv_execution tv prog function ins key (Some pk) = Ok (t # ts)"
proof -
  from assms obtain ins ts where "execute_credits tv ''fee'' ins key = Ok ts"
    and "first_transition ts = Ok (Some t)"
    by (auto simp: execute_fee_def Let_def and_then_Ok_iff split: option.splits if_splits)
  then have "execute_credits tv ''fee'' ins key = Ok (t # tl ts)" by (cases ts) auto
  from execute_credits_Ok [OF this] show ?thesis by blast
qed

lemma lambda_fee_transition:
  assumes "execute_fee (lambda_tx_vm c read_file build credits) key requested implicit = Ok fee" and "fee = Some t"
  shows "lt_fee t = 0"
  using execute_fee_Some [OF assms(1) [unfolded assms(2)]] by (auto simp: lambda_tx_vm_def dest: lambda_execution_fee)

lemma zero_fees: "\<forall>t \<in> set ts. lt_fee t = 0 \<Longrightarrow> sum_list (map lt_fee ts) = 0"
  by (induction ts) simp_all

lemma set_hashed_id_verifies: "set_hashed_id x tx = Ok tx' \<Longrightarrow> verify x tx' = Ok ()"
  by (auto simp: set_hashed_id_Ok_iff verify_Ok_iff)

text \<open>Whatever the constructors build verifies.\<close>

lemma credits_execution_verifies: "credits_execution vm x tv f ins key fee = Ok tx \<Longrightarrow> verify x tx = Ok ()"
  by (auto simp: credits_execution_def finish_execution_def Let_def result_elims intro: set_hashed_id_verifies)

lemma tx_execution_verifies: "tx_execution vm x tv prog f ins key fee = Ok tx \<Longrightarrow> verify x tx = Ok ()"
  by (auto simp: tx_execution_def finish_execution_def Let_def result_elims intro: set_hashed_id_verifies)

lemma deployment_verifies: "deployment x tv path key fee = Ok tx \<Longrightarrow> verify x tx = Ok ()"
  by (auto simp: deployment_def result_elims intro: set_hashed_id_verifies split: prod.splits)


section \<open>Properties\<close>

text \<open>C16. The id seals the contents: a transaction built with \<open>set_hashed_id\<close> verifies, keeps its
  transitions, and with any other id it is refused.\<close>
theorem hashed_id_verifies:
  assumes "set_hashed_id x tx = Ok tx'"
  shows "verify x tx' = Ok () \<and> transitions tx' = transitions tx
    \<and> (\<forall>i. verify x (with_id i tx') = (if i = tx_id tx' then Ok () else Err CorruptedId))"
  using assms by (auto simp: set_hashed_id_Ok_iff verify_Ok_iff) (simp add: verify_def ensure_def)

text \<open>C33. The hash of a deployment does not cover the program: only its id, the verifying keys and
  the fee are hashed. Whoever relays a deployment can put another program with the same id and
  function names in it, and both the id check and the deployment check still accept it.\<close>
theorem deployment_body_unsealed:
  assumes "prog_id q = prog_id p" and "prog_functions q = prog_functions p"
    and "verify x (Deployment i p ks fee) = Ok ()" and "verify_deployment p ks = Ok ()"
  shows "verify x (Deployment i q ks fee) = Ok () \<and> verify_deployment q ks = Ok ()"
proof -
  have "verify x (Deployment i q ks fee) = verify x (Deployment i p ks fee)"
    using assms(1) by (simp add: verify_def tx_hash_def)
  moreover have "verify_deployment q ks = verify_deployment p ks"
    using assms(2) by (simp add: verify_deployment_def)
  ultimately show ?thesis using assms(3,4) by simp
qed

text \<open>C34. The fees of a transaction are the true sum of the fees of its transitions when none is
  negative and the sum fits into an \<open>i64\<close>; beyond that the sum wraps, and fees that were each
  verified as not negative add up to a negative number.\<close>
theorem fees_sum:
  assumes "\<forall>t \<in> set ts. 0 \<le> sint (vm_fee vm t)"
  shows "((\<Sum>t\<leftarrow>ts. sint (vm_fee vm t)) < 2 ^ 63 \<longrightarrow>
      sint (fees vm (Execution i ts)) = (\<Sum>t\<leftarrow>ts. sint (vm_fee vm t)))
    \<and> (2 ^ 63 \<le> (\<Sum>t\<leftarrow>ts. sint (vm_fee vm t)) \<and> (\<Sum>t\<leftarrow>ts. sint (vm_fee vm t)) < 2 ^ 64 \<longrightarrow>
      sint (fees vm (Execution i ts)) = (\<Sum>t\<leftarrow>ts. sint (vm_fee vm t)) - 2 ^ 64)"
proof -
  have u: "(\<Sum>t\<leftarrow>ts. sint (vm_fee vm t)) = int (\<Sum>t\<leftarrow>ts. unat (vm_fee vm t))"
    using assms
  proof (induction ts)
    case (Cons t ts)
    then have "sint (vm_fee vm t) = int (unat (vm_fee vm t))"
      by (simp add: sint_nonneg_iff sint_eq_uint_iff [THEN iffD2])
    with Cons show ?case by simp
  qed simp
  have f: "unat (fees vm (Execution i ts)) = (\<Sum>t\<leftarrow>ts. unat (vm_fee vm t)) mod 2 ^ 64"
    by (simp only: fees_execution unat_sum_list_mod)
  show ?thesis
  proof (intro conjI impI)
    assume "(\<Sum>t\<leftarrow>ts. sint (vm_fee vm t)) < 2 ^ 63"
    with assms show "sint (fees vm (Execution i ts)) = (\<Sum>t\<leftarrow>ts. sint (vm_fee vm t))"
      unfolding fees_execution by (intro sum_words_exact) auto
  next
    assume "2 ^ 63 \<le> (\<Sum>t\<leftarrow>ts. sint (vm_fee vm t)) \<and> (\<Sum>t\<leftarrow>ts. sint (vm_fee vm t)) < 2 ^ 64"
    then have b: "2 ^ 63 \<le> int (\<Sum>t\<leftarrow>ts. unat (vm_fee vm t)) \<and> int (\<Sum>t\<leftarrow>ts. unat (vm_fee vm t)) < 2 ^ 64"
      by (simp only: u)
    then have "(\<Sum>t\<leftarrow>ts. unat (vm_fee vm t)) < 2 ^ 64" by (metis of_nat_less_iff of_nat_numeral of_nat_power)
    then have "uint (fees vm (Execution i ts)) = int (\<Sum>t\<leftarrow>ts. unat (vm_fee vm t))"
      unfolding uint_nat f by simp
    with b show "sint (fees vm (Execution i ts)) = (\<Sum>t\<leftarrow>ts. sint (vm_fee vm t)) - 2 ^ 64"
      unfolding u by (simp add: sint_word64)
  qed
qed

text \<open>The sign of a staking update: only the stake and unstake functions of the credits
  program give one, stake adds the amount in the third output and unstake subtracts it. The
  cast of an amount of \<open>2 ^ 63\<close> or more flips the sign: such a stake is an unstake.\<close>
theorem stake_update_amount:
  assumes "stake_update vm c t = Ok (Some s)"
  shows "vm_program_id vm t = ''credits.aleo'' \<and> (\<exists>gates. int_output vm t 2 = Ok gates \<and>
    (vm_function_name vm t = ''stake'' \<and>
       sint (s_gates_delta s) = (if uint gates < 2 ^ 63 then uint gates else uint gates - 2 ^ 64)
     \<or> vm_function_name vm t = ''unstake'' \<and>
       sint (s_gates_delta s) = (if uint gates \<le> 2 ^ 63 then - uint gates else 2 ^ 64 - uint gates)))"
proof -
  from stake_update_Some [OF assms] obtain gates where "vm_program_id vm t = ''credits.aleo''"
    and g: "int_output vm t 2 = Ok gates" "gates \<noteq> 0"
    and d: "vm_function_name vm t = ''stake'' \<and> s_gates_delta s = gates
      \<or> vm_function_name vm t = ''unstake'' \<and> s_gates_delta s = - gates" by blast
  moreover have "sint gates = (if uint gates < 2 ^ 63 then uint gates else uint gates - 2 ^ 64)"
    by (rule sint_word64)
  ultimately show ?thesis using sint_minus_word64 [OF g(2)] by metis
qed

text \<open>C35. A 32-byte key survives both encodings: split into four \<open>u64\<close> or two \<open>u128\<close> sections and
  put together again it is the base64 text of the same bytes; other lengths are refused.\<close>
theorem validator_key_round_trip:
  "(if length raw = 32
    then and_then (validator_key_as_u64s raw) (validator_key_from_u64s c) = Ok (tc_base64_encode c raw)
      \<and> and_then (validator_key_as_u128s raw) (\<lambda>(h, l). validator_key_from_u128s c h l)
          = Ok (tc_base64_encode c raw)
    else validator_key_as_u64s raw = Err BadKeyLength \<and> validator_key_as_u128s raw = Err BadKeyLength)"
proof (cases "length raw = 32")
  case True
  then have chunks: "concat (chunks_exact 8 raw) = raw" "length (chunks_exact 8 raw) = 4"
    "\<forall>b \<in> set (chunks_exact 8 raw). length b = 8"
    using chunks_exact_concat [of 8 raw 4] by auto
  from chunks(3) have "map (u64_to_be_bytes \<circ> u64_from_be_bytes) (chunks_exact 8 raw) = chunks_exact 8 raw"
    by (intro map_idI) (simp add: u64_bytes_round_trip)
  with True chunks show ?thesis
    by (simp add: validator_key_as_u64s_def validator_key_from_u64s_def validator_key_as_u128s_def
        validator_key_from_u128s_def u128_bytes_round_trip)
qed (simp add: validator_key_as_u64s_def validator_key_as_u128s_def)

text \<open>The fee transition asks the credits program for exactly the part of the requested fee
  that the execution has not dropped already, and is left out when there is nothing requested
  or the execution covers it. A request of \<open>2 ^ 63\<close> gates or more counts as covered.\<close>
theorem execute_fee_amount:
  assumes "0 \<le> sint implicit"
  shows "execute_fee tv key (Some (requested, record)) implicit =
    (if 2 ^ 63 \<le> uint requested \<or> uint requested < uint implicit then Ok None
     else and_then (tv_amount tv (requested - implicit)) (\<lambda>amount.
       and_then (execute_credits tv ''fee'' [tv_record_value tv record, amount] key) first_transition))
    \<and> (uint implicit \<le> uint requested \<longrightarrow> uint (requested - implicit) = uint requested - uint implicit)"
proof -
  have i: "sint implicit = uint implicit" "0 \<le> uint implicit"
    using assms by (simp_all add: sint_nonneg_iff sint_eq_uint_iff)
  have "sint requested < sint implicit \<longleftrightarrow> 2 ^ 63 \<le> uint requested \<or> uint requested < uint implicit"
  proof (cases "uint requested < 2 ^ 63")
    case True
    then show ?thesis unfolding i(1) sint_word64 [of requested] by simp
  next
    case False
    moreover have "uint requested < 2 ^ 64" using uint_lt2p [of requested] by simp
    ultimately have "uint requested - 2 ^ 64 < uint implicit" using i(2) by linarith
    with False show ?thesis unfolding i(1) sint_word64 [of requested] by simp
  qed
  then show ?thesis
    using assms uint_minus_exact by (simp add: execute_fee_def Let_def)
qed

text \<open>C36. In the default backend every transition a client builds declares a fee of zero, also the
  one that executes the fee function, for executions, executions of the credits program and
  deployments alike: whatever fee was requested, the fees of the transaction are zero, so the
  validators collect none.\<close>
theorem lambda_fees_are_zero:
  fixes c :: "('p, 'er, 'vars) lambda_crate"
  assumes "tx_execution (lambda_backend c) x (lambda_tx_vm c read_file build credits)
      prog function_name inputs key requested = Ok tx
    \<or> credits_execution (lambda_backend c) x (lambda_tx_vm c read_file build credits)
      function_name inputs key requested = Ok tx
    \<or> deployment x (lambda_tx_vm c read_file build credits) path key requested = Ok tx"
  shows "fees (lambda_backend c) tx = 0 \<and> verify x tx = Ok ()"
proof -
  let ?tv = "lambda_tx_vm c read_file build credits"
  have executed: "fees (lambda_backend c) tx = 0 \<and> verify x tx = Ok ()"
    if "\<forall>t \<in> set ts. lt_fee t = 0" and "finish_execution (lambda_backend c) x ?tv key requested ts = Ok tx" for ts
  proof -
    obtain i implicit fee where "execute_fee ?tv key requested implicit = Ok fee"
      and tx: "set_hashed_id x (Execution i (ts @ (case fee of Some t \<Rightarrow> [t] | None \<Rightarrow> []))) = Ok tx"
      using \<open>finish_execution _ _ _ _ _ ts = Ok tx\<close> by (auto simp: finish_execution_def Let_def and_then_Ok_iff)
    from lambda_fee_transition [OF this(1)] have fee: "\<forall>t. fee = Some t \<longrightarrow> lt_fee t = 0" by blast
    have "\<forall>t \<in> set (ts @ (case fee of Some t \<Rightarrow> [t] | None \<Rightarrow> [])). lt_fee t = 0"
      using fee \<open>\<forall>t \<in> set ts. lt_fee t = 0\<close> by (auto split: option.splits)
    from zero_fees [OF this] tx have "fees (lambda_backend c) tx = 0"
      by (auto simp: set_hashed_id_Ok_iff fees_execution lambda_backend_def simp del: fees.simps)
    with tx show ?thesis by (simp add: set_hashed_id_verifies)
  qed
  have exec: "tv_execution ?tv = Vm_Lambda.execution c" by (simp add: lambda_tx_vm_def)
  from assms consider ts where "\<forall>t \<in> set ts. lt_fee t = 0" "finish_execution (lambda_backend c) x ?tv key requested ts = Ok tx"
    | "deployment x ?tv path key requested = Ok tx"
    unfolding tx_execution_def credits_execution_def and_then_Ok_iff exec
    by (metis exec execute_credits_Ok lambda_execution_fee)
  then show ?thesis
  proof cases
    case 1
    then show ?thesis by (rule executed)
  next
    case 2
    then obtain i p ks fee where tx: "set_hashed_id x (Deployment i p ks fee) = Ok tx"
      and "execute_fee ?tv key requested 0 = Ok fee"
      by (auto simp: deployment_def and_then_Ok_iff)
    with lambda_fee_transition [OF this(2)] have "fees (lambda_backend c) tx = 0"
      by (auto simp: set_hashed_id_Ok_iff lambda_backend_def split: option.splits)
    with tx show ?thesis by (simp add: set_hashed_id_verifies)
  qed
qed

section \<open>Witnesses\<close>

definition sample_tx_crate :: "lambda_transition tx_crate" where
  "sample_tx_crate =
     \<lparr>txc_sha256 = id, txc_hex_encode = text_of,
      txc_vk_bytes = (\<lambda>vk. case vk of VerifyingKey text \<Rightarrow> Inr (bytes_of text)),
      txc_transition_json = (\<lambda>t. Inr (lt_program_id t @ ''/'' @ lt_function_name t @ ''/'' @ lt_proof t))\<rparr>"

definition sample_transition :: "string \<Rightarrow> string \<Rightarrow> variable_type list \<Rightarrow> i64 \<Rightarrow> lambda_transition" where
  "sample_transition prog function outs fee =
     \<lparr>lt_program_id = prog, lt_function_name = function, lt_inputs = [], lt_outputs = outs,
      lt_proof = ''vk'', lt_fee = fee\<rparr>"

text \<open>The outputs of a staking transition for the validator with key \<open>n, 0, ..., 0\<close>.\<close>

definition staking_outputs :: "u8 \<Rightarrow> u64 \<Rightarrow> variable_type list" where
  "staking_outputs n amount =
     [OtherVariable ''record'', OtherVariable ''record'', Public (U64 amount),
      Public (AddressValue ''aleo1''), Public (U64 (u64_from_be_bytes [n, 0, 0, 0, 0, 0, 0, 0])),
      Public (U64 0), Public (U64 0), Public (U64 0)]"

definition fee_program :: program where
  "fee_program = \<lparr>prog_id = ''credits.aleo'', prog_functions = [(''fee'', ''fee'')], prog_source = ''a''\<rparr>"

abbreviation sample_tx_vm :: "(lambda_transition, user_value, plain_record) tx_vm" where
  "sample_tx_vm \<equiv> lambda_tx_vm sample_crate (\<lambda>path. Inr ''source'')
     (\<lambda>source. Ok (fee_program, [])) (Ok (fee_program, [(''fee'', ProvingKey ''pk'', VerifyingKey ''vk'')]))"

definition sample_record :: plain_record where
  "sample_record = \<lparr>rec_owner = AleoAddress ''aleo1'', rec_gates = 50, rec_data = ''d'', rec_nonce = ''1''\<rparr>"

theorem hashed_id_verifies_witness:
  "\<exists>tx. set_hashed_id sample_tx_crate (Execution ''x'' [sample_transition ''p'' ''f'' [] 1]) = Ok tx
    \<and> verify sample_tx_crate tx = Ok () \<and> verify sample_tx_crate (with_id (''0'' @ tx_id tx) tx) = Err CorruptedId"
proof -
  obtain tx where "set_hashed_id sample_tx_crate (Execution ''x'' [sample_transition ''p'' ''f'' [] 1]) = Ok tx"
    by (simp add: set_hashed_id_def tx_hash_def json_bytes_def sample_tx_crate_def)
  with hashed_id_verifies [OF this] show ?thesis by auto
qed

theorem deployment_body_unsealed_witness:
  "\<exists>i. verify sample_tx_crate (Deployment i fee_program [(''fee'', VerifyingKey ''vk'')] None) = Ok ()
    \<and> verify sample_tx_crate (Deployment i (fee_program\<lparr>prog_source := ''b''\<rparr>) [(''fee'', VerifyingKey ''vk'')] None) = Ok ()
    \<and> fee_program\<lparr>prog_source := ''b''\<rparr> \<noteq> fee_program"
proof -
  let ?ks = "[(''fee'', VerifyingKey ''vk'')]"
  obtain i where i: "tx_hash sample_tx_crate (Deployment ''x'' fee_program ?ks None) = Ok i"
    by (simp add: tx_hash_def sample_tx_crate_def)
  then have v: "verify sample_tx_crate (Deployment i fee_program ?ks None) = Ok ()"
    by (simp add: verify_def tx_hash_def)
  moreover have "verify_deployment fee_program ?ks = Ok ()"
    by (simp add: verify_deployment_def fee_program_def)
  ultimately show ?thesis
    using deployment_body_unsealed [of "fee_program\<lparr>prog_source := ''b''\<rparr>" fee_program sample_tx_crate i ?ks None]
    by (auto simp: fee_program_def)
qed

theorem fees_sum_witness:
  "sint (fees sample_vm (Execution ''x'' [sample_transition ''p'' ''f'' [] (2 ^ 62), sample_transition ''p'' ''g'' [] (2 ^ 62)]))
    = - (2 ^ 63)"
  using fees_sum [of "[sample_transition ''p'' ''f'' [] (2 ^ 62), sample_transition ''p'' ''g'' [] (2 ^ 62)]" sample_vm]
  by (simp add: lambda_backend_def sample_transition_def)

lemma sample_u64s: "validator_key_from_u64s sample_crypto [u64_from_be_bytes [n, 0, 0, 0, 0, 0, 0, 0], 0, 0, 0]
   = Ok (text_of (n # replicate 31 0))"
proof -
  have zeros: "nat_be k 0 = replicate k 0" for k
    by (induction k) (simp_all add: replicate_append_same)
  have "u64_to_be_bytes 0 = [0, 0, 0, 0, 0, 0, 0, 0]"
    by (simp add: u64_to_be_bytes_def zeros) (simp add: eval_nat_numeral)
  moreover have "u64_to_be_bytes (u64_from_be_bytes [n, 0, 0, 0, 0, 0, 0, 0]) = [n, 0, 0, 0, 0, 0, 0, 0]"
    by (rule u64_bytes_round_trip) simp
  moreover have "replicate 31 (0 :: u8) = [0, 0, 0, 0, 0, 0, 0] @ concat (replicate 3 [0, 0, 0, 0, 0, 0, 0, 0])"
    by (simp add: eval_nat_numeral)
  ultimately show ?thesis
    by (simp add: validator_key_from_u64s_def eval_nat_numeral)
qed

lemma sample_int_output:
  "index \<in> {2, 4, 5, 6, 7} \<Longrightarrow> int_output sample_vm (sample_transition p f (staking_outputs n g) fee) index
     = Ok (if index = 2 then g else if index = 4 then u64_from_be_bytes [n, 0, 0, 0, 0, 0, 0, 0] else 0)"
  by (auto simp: int_output_def extract_output_def lambda_backend_def sample_transition_def staking_outputs_def
     u64_from_u128 u64_from_u128 [of 0, simplified])
lemma sample_stake_of:
  "stake_of sample_vm sample_crypto (sample_transition p f (staking_outputs n g) fee) d
     = (if d = 0 then Err ZeroStake else Ok (sample_stake n d))"
proof -
  let ?t = "sample_transition p f (staking_outputs n g) fee"
  have "extract_output sample_vm ?t 3 = Ok (Public (AddressValue ''aleo1''))"
    by (simp add: extract_output_def lambda_backend_def sample_transition_def staking_outputs_def)
  moreover have "vm_address_from_output sample_vm (Public (AddressValue ''aleo1'')) = Ok (AleoAddress ''aleo1'')"
    by (simp add: lambda_backend_def from_utf8_def sample_crate_def)
  ultimately show ?thesis
    by (simp add: stake_of_def sample_int_output sample_u64s stake_new_def parse_pub_key_def
        sample_stake_def sample_account_def sample_key_def)
qed

lemma sample_stake_update:
  "stake_update sample_vm sample_crypto (sample_transition ''credits.aleo'' ''stake'' (staking_outputs n g) fee)
    = (if g = 0 then Err ZeroStake else Ok (Some (sample_stake n g)))"
  "stake_update sample_vm sample_crypto (sample_transition ''credits.aleo'' ''unstake'' (staking_outputs n g) fee)
    = (if g = 0 then Err ZeroStake else Ok (Some (sample_stake n (- g))))"
  by (simp_all add: stake_update_def sample_int_output sample_stake_of)
    (simp_all add: lambda_backend_def sample_transition_def)

theorem stake_update_amount_witness:
  "\<exists>s. stake_update sample_vm sample_crypto
      (sample_transition ''credits.aleo'' ''stake'' (staking_outputs 1 (2 ^ 64 - 5)) 0) = Ok (Some s)
    \<and> sint (s_gates_delta s) = - 5"
proof -
  let ?t = "sample_transition ''credits.aleo'' ''stake'' (staking_outputs 1 (2 ^ 64 - 5)) 0"
  have s: "stake_update sample_vm sample_crypto ?t = Ok (Some (sample_stake 1 (2 ^ 64 - 5)))"
    by (simp add: sample_stake_update)
  from stake_update_amount [OF s] show ?thesis
    using s by (auto simp: int_output_def extract_output_def lambda_backend_def sample_transition_def
        staking_outputs_def u64_from_u128)
qed

theorem execute_fee_amount_witness:
  "execute_fee sample_tx_vm (PrivateKey ''k'') (Some (20, sample_record)) 5
    = Ok (Some (sample_transition ''credits.aleo'' ''fee'' [] 0\<lparr>lt_proof := ''fee''\<rparr>))"
  using execute_fee_amount [of 5 sample_tx_vm "PrivateKey ''k''" 20 sample_record]
  by (simp add: lambda_tx_vm_def execute_credits_def Vm_Lambda.execution_def sample_crate_def fee_program_def
      program_is_coinbase_def sample_transition_def)

theorem lambda_fees_are_zero_witness:
  "\<exists>tx. credits_execution sample_vm sample_tx_crate sample_tx_vm ''fee'' [] (PrivateKey ''k'')
      (Some (20, sample_record)) = Ok tx \<and> length (transitions tx) = 2 \<and> fees sample_vm tx = 0"
proof -
  obtain tx where tx: "credits_execution sample_vm sample_tx_crate sample_tx_vm ''fee'' [] (PrivateKey ''k'')
      (Some (20, sample_record)) = Ok tx" and l: "length (transitions tx) = 2"
    by (simp add: credits_execution_def finish_execution_def execute_fee_def lambda_tx_vm_def execute_credits_def
        Vm_Lambda.execution_def sample_crate_def fee_program_def program_is_coinbase_def Let_def
        set_hashed_id_def tx_hash_def json_bytes_def sample_tx_crate_def lambda_backend_def)
  with lambda_fees_are_zero [of sample_crate sample_tx_crate "\<lambda>path. Inr ''source''" "\<lambda>source. Ok (fee_program, [])"
      "Ok (fee_program, [(''fee'', ProvingKey ''pk'', VerifyingKey ''vk'')])" fee_program "''fee''" "[]" "PrivateKey ''k''"
      "Some (20, sample_record)" tx] show ?thesis by blast
qed

end
