(* ===== verification/Program_File.thy ===== *)
theory Program_File
  imports Transaction
begin

text \<open>
  \<open>src/lib/program_file.rs\<close> and the helpers of \<open>src/lib/mod.rs\<close>: built programs are dumped to
  files with their keys, and the credits program is cached in the home directory. Client and
  server load it from there.
\<close>

section \<open>Files\<close>

text \<open>
  The files a process sees, by path. What a write does is up to the operating system: it
  succeeds or fails, and says what the file holds afterwards.
\<close>

type_synonym files = "string \<Rightarrow> string option"

record file_io =
  fio_write :: "string \<Rightarrow> string \<Rightarrow> bool \<times> string option"
  fio_create_dir :: "string \<Rightarrow> bool"

definition read_to_string :: "files \<Rightarrow> string \<Rightarrow> string result" where
  "read_to_string fs path = ok_or (External ''read'') (fs path)"

definition write_file :: "file_io \<Rightarrow> string \<Rightarrow> string \<Rightarrow> (files, unit) action" where
  "write_file io path content fs =
     (case fio_write io path content of (written, held) \<Rightarrow>
        (ensure written (External ''write''), fs(path := held)))"

definition path_join :: "string \<Rightarrow> string \<Rightarrow> string" where
  "path_join path component = path @ ''/'' @ component"

text \<open>A write that succeeds leaves the content it was given.\<close>

definition writes_kept :: "file_io \<Rightarrow> bool" where
  "writes_kept io \<longleftrightarrow> (\<forall>path content. fst (fio_write io path content) \<longrightarrow> snd (fio_write io path content) = Some content)"

definition all_writable :: "file_io \<Rightarrow> bool" where
  "all_writable io \<longleftrightarrow> (\<forall>path content. fst (fio_write io path content)) \<and> (\<forall>path. fio_create_dir io path)"

lemma write_file_Ok_iff:
  "writes_kept io \<Longrightarrow> write_file io path content fs = (Ok (), fs') \<longleftrightarrow>
     fst (fio_write io path content) \<and> fs' = fs(path \<mapsto> content)"
proof -
  assume "writes_kept io"
  then have "held = Some content" if "fio_write io path content = (True, held)" for held
    using that unfolding writes_kept_def by (metis fst_conv snd_conv)
  then show ?thesis by (cases "fio_write io path content") (auto simp: write_file_def ensure_def)
qed

lemma read_written: "read_to_string (fs(path \<mapsto> content)) path = Ok content"
  by (simp add: read_to_string_def)


section \<open>Program files\<close>

text \<open>\<open>ProgramBuild\<close>: the keys of each function, in the order of the program.\<close>

type_synonym program_build = "(string \<times> proving_key \<times> verifying_key) list"
type_synonym program_file = "program \<times> program_build"

text \<open>
  \<open>vm::build_program\<close> and the JSON of a program file, which \<open>serde_json\<close> writes and reads, with
  the text of the credits program and the check on the SRS file of the default backend.
\<close>

record program_crate =
  pc_build_program :: "string \<Rightarrow> program_file result"
  pc_to_json :: "program_file \<Rightarrow> string + string"
  pc_from_json :: "string \<Rightarrow> string + program_file"
  pc_ensure_srs :: "unit result"
  pc_credits_source :: string

definition program_file_build :: "program_crate \<Rightarrow> string \<Rightarrow> program_file result" where
  "program_file_build pc program_source = pc_build_program pc program_source"

definition program_file_save ::
  "program_crate \<Rightarrow> file_io \<Rightarrow> program_file \<Rightarrow> string \<Rightarrow> (files, unit) action" where
  "program_file_save pc io stored output_path =
     act_then (pure_action (\<lambda>_. external (pc_to_json pc stored))) (write_file io output_path)"

definition program_file_load :: "program_crate \<Rightarrow> files \<Rightarrow> string \<Rightarrow> program_file result" where
  "program_file_load pc fs path =
     and_then (read_to_string fs path) (\<lambda>json. external (pc_from_json pc json))"


section \<open>The credits program\<close>

text \<open>\<open>aleo_home\<close>: the environment variable, or \<open>.aleo\<close> in the home directory of the user.\<close>

definition aleo_home :: "string option \<Rightarrow> string option \<Rightarrow> string result" where
  "aleo_home variable home_dir =
     (case variable of
        Some path \<Rightarrow> Ok path
      | None \<Rightarrow> map_ok (\<lambda>home. path_join home ''.aleo'') (expect_some ''no home directory'' home_dir))"

definition cached_credits :: "string \<Rightarrow> string" where
  "cached_credits home = path_join home ''cache/credits.avm''"

definition load_credits_file ::
  "program_crate \<Rightarrow> file_io \<Rightarrow> string \<Rightarrow> (files, program_file) action" where
  "load_credits_file pc io home =
     act_then (pure_action (\<lambda>_. expect_ok ''Error reading or creating Universal SRS file'' (pc_ensure_srs pc))) (\<lambda>_ fs.
     case program_file_load pc fs (cached_credits home) of
       Ok stored \<Rightarrow> (Ok stored, fs)
     | Panic p \<Rightarrow> (Panic p, fs)
     | Err e \<Rightarrow>
         act_then (pure_action (\<lambda>_. expect_ok ''couldn't build credits program''
           (program_file_build pc (pc_credits_source pc)))) (\<lambda>built.
         act_then (pure_action (\<lambda>_. expect_ok ''couldn't create cache dir''
           (ensure (fio_create_dir io (path_join home ''cache'')) (External ''create_dir_all'')))) (\<lambda>_.
         act_then (\<lambda>fs. case program_file_save pc io built (cached_credits home) fs of
             (r, fs') \<Rightarrow> (expect_ok ''couldn't save credits program'' r, fs')) (\<lambda>_.
         pure_action (\<lambda>_. Ok built)))) fs)"

text \<open>JSON gives a program file back.\<close>

definition json_law :: "program_crate \<Rightarrow> bool" where
  "json_law pc \<longleftrightarrow> (\<forall>stored json. pc_to_json pc stored = Inr json \<longrightarrow> pc_from_json pc json = Inr stored)"

lemma save_load:
  assumes "json_law pc" and "writes_kept io" and "program_file_save pc io stored path fs = (Ok (), fs')"
  shows "program_file_load pc fs' path = Ok stored \<and> (\<forall>other. other \<noteq> path \<longrightarrow> fs' other = fs other)"
proof -
  from assms(3) obtain json where json: "pc_to_json pc stored = Inr json"
    and w: "write_file io path json fs = (Ok (), fs')"
    by (cases "pc_to_json pc stored") (auto simp: program_file_save_def act_then_def)
  then have "fs' = fs(path \<mapsto> json)" using write_file_Ok_iff [OF assms(2)] by blast
  moreover from json assms(1) have "pc_from_json pc json = Inr stored" unfolding json_law_def by blast
  ultimately show ?thesis by (simp add: program_file_load_def read_written)
qed

lemma program_file_load_no_panic: "program_file_load pc fs path \<noteq> Panic p"
proof -
  have "external r \<noteq> Panic p" for r :: "string + program_file" by (cases r) auto
  then show ?thesis by (auto simp: program_file_load_def read_to_string_def result_panics)
qed

lemma load_credits_cached:
  assumes "program_file_load pc fs (cached_credits home) = Ok stored" and "is_ok (pc_ensure_srs pc)"
  shows "load_credits_file pc io home fs = (Ok stored, fs)"
  using assms by (cases "pc_ensure_srs pc") (simp_all add: load_credits_file_def act_then_def)

lemma load_credits_built:
  assumes "load_credits_file pc io home fs = (Ok stored, fs')"
    and "\<not> is_ok (program_file_load pc fs (cached_credits home))"
  shows "program_file_build pc (pc_credits_source pc) = Ok stored
    \<and> program_file_save pc io stored (cached_credits home) fs = (Ok (), fs')"
  using assms
  by (auto simp: load_credits_file_def act_then_Ok_iff result_elims split: result.splits prod.splits
      simp del: act_then_pure) (metis surj_pair)+


section \<open>Properties\<close>

text \<open>C37. The cache of the credits program is sound: whatever a first \<open>load_credits\<close> returns, it
  is the cached program or the one built from the source, every later call returns the same
  program and keys without touching a file, and no other file has changed.\<close>
theorem credits_cache_sound:
  assumes "json_law pc" and "writes_kept io" and "load_credits_file pc io home fs = (Ok stored, fs')"
  shows "load_credits_file pc io home fs' = (Ok stored, fs')
    \<and> (program_file_load pc fs (cached_credits home) = Ok stored \<and> fs' = fs
       \<or> program_file_build pc (pc_credits_source pc) = Ok stored)
    \<and> (\<forall>path. path \<noteq> cached_credits home \<longrightarrow> fs' path = fs path)"
proof -
  have srs: "is_ok (pc_ensure_srs pc)"
    using assms(3) by (auto simp: load_credits_file_def act_then_Ok_iff result_elims simp del: act_then_pure)
  show ?thesis
  proof (cases "program_file_load pc fs (cached_credits home)")
    case (Ok cached)
    from load_credits_cached [OF this srs, of io] assms(3) have "cached = stored" "fs' = fs" by simp_all
    then show ?thesis using Ok load_credits_cached [OF Ok srs, of io] by simp
  next
    case (Err e)
    then have "\<not> is_ok (program_file_load pc fs (cached_credits home))" by simp
    from load_credits_built [OF assms(3) this] have built: "program_file_build pc (pc_credits_source pc) = Ok stored"
      and save: "program_file_save pc io stored (cached_credits home) fs = (Ok (), fs')" by blast+
    from save_load [OF assms(1,2) save] built load_credits_cached [OF _ srs, of fs' home stored io]
    show ?thesis by blast
  next
    case (Panic p)
    then show ?thesis using program_file_load_no_panic by blast
  qed
qed


section \<open>Witnesses\<close>

definition credits_file :: program_file where
  "credits_file =
     (\<lparr>prog_id = ''credits.aleo'', prog_functions = [(''fee'', ''fee'')], prog_source = ''credits''\<rparr>,
      [(''fee'', ProvingKey ''pk'', VerifyingKey ''vk'')])"

definition sample_program_crate :: program_crate where
  "sample_program_crate =
     \<lparr>pc_build_program = (\<lambda>source. if source = ''credits'' then Ok credits_file else Err NoFunctions),
      pc_to_json = (\<lambda>stored. if stored = credits_file then Inr ''credits file'' else Inl ''json''),
      pc_from_json = (\<lambda>json. if json = ''credits file'' then Inr credits_file else Inl ''json''),
      pc_ensure_srs = Ok (), pc_credits_source = ''credits''\<rparr>"

definition sample_files_io :: file_io where
  "sample_files_io = \<lparr>fio_write = (\<lambda>path content. (True, Some content)), fio_create_dir = (\<lambda>path. True)\<rparr>"

lemma sample_files_io_laws: "writes_kept sample_files_io" "all_writable sample_files_io"
  by (simp_all add: writes_kept_def all_writable_def sample_files_io_def)

lemma sample_json_law: "json_law sample_program_crate"
  by (auto simp: json_law_def sample_program_crate_def split: if_splits)

theorem credits_cache_sound_witness:
  "\<exists>fs'. load_credits_file sample_program_crate sample_files_io ''home'' (\<lambda>_. None) = (Ok credits_file, fs')
    \<and> load_credits_file sample_program_crate sample_files_io ''home'' fs' = (Ok credits_file, fs')"
proof -
  obtain fs' where "load_credits_file sample_program_crate sample_files_io ''home'' (\<lambda>_. None) = (Ok credits_file, fs')"
    by (simp add: load_credits_file_def act_then_def sample_program_crate_def program_file_load_def read_to_string_def
        program_file_build_def program_file_save_def write_file_def sample_files_io_def)
  with credits_cache_sound [OF sample_json_law sample_files_io_laws(1) this] show ?thesis by blast
qed

end
