(* ===== verification/Validator_Set.thy ===== *)
theory Validator_Set
  imports Samples
begin

text \<open>
  \<open>src/blockchain/validator_set.rs\<close>: the validators known to a node, the fees and votes of
  the current block, the voting power changes that staking transactions apply, and the
  distribution of a block's rewards.
\<close>

section \<open>State\<close>

record validator_set =
  vs_validators :: "(address, validator) hash_map"
  vs_fees :: u64
  vs_current_proposer :: "address option"
  vs_current_votes :: "(address, u64) hash_map"
  vs_current_height :: u64
  vs_updated_validators :: "address list"

definition BASELINE_BLOCK_REWARD :: u64 where "BASELINE_BLOCK_REWARD = 100"
definition PROPOSER_REWARD_PERCENTAGE :: u64 where "PROPOSER_REWARD_PERCENTAGE = 50"

text \<open>
  The validators file holds the JSON text of a list of validators. Writing and parsing that
  text belong to \<open>serde_json\<close>, and the outcome of \<open>std::fs::write\<close> to the operating system:
  it returns whether the write succeeded, with the text the file holds afterwards (\<open>None\<close> for
  a file that cannot be read).
\<close>

record validators_io =
  io_to_json :: "validator list \<Rightarrow> string"
  io_from_json :: "string \<Rightarrow> validator list option"
  io_write :: "string option \<Rightarrow> string \<Rightarrow> bool \<times> string option"

text \<open>The map from addresses to validators that \<open>load_or_create\<close> and \<open>replace\<close> collect.\<close>

definition by_address :: "tendermint_crate \<Rightarrow> validator list \<Rightarrow> (address, validator) hash_map" where
  "by_address c validators = hm_collect (map (\<lambda>v. (validator_address c v, v)) validators)"

definition load_or_create ::
  "tendermint_crate \<Rightarrow> validators_io \<Rightarrow> string option \<Rightarrow> validator_set result" where
  "load_or_create c io file =
     and_then
       (case file of
          Some json \<Rightarrow> map_ok (by_address c)
            (expect_some ''validators file content is invalid'' (io_from_json io json))
        | None \<Rightarrow> Ok [])
       (\<lambda>validators. Ok
         \<lparr>vs_validators = validators, vs_fees = 0, vs_current_proposer = None,
          vs_current_votes = [], vs_current_height = 0, vs_updated_validators = []\<rparr>)"

definition replace :: "tendermint_crate \<Rightarrow> validator list \<Rightarrow> validator_set \<Rightarrow> validator_set" where
  "replace c validators vs = vs\<lparr>vs_validators := by_address c validators\<rparr>"

text \<open>An unknown proposer or voter is logged and accepted.\<close>

definition begin_block ::
  "address \<Rightarrow> (address, u64) hash_map \<Rightarrow> u64 \<Rightarrow> validator_set \<Rightarrow> validator_set" where
  "begin_block proposer votes height vs =
     vs\<lparr>vs_updated_validators := [], vs_current_height := height,
        vs_current_proposer := Some proposer, vs_current_votes := votes,
        vs_fees := BASELINE_BLOCK_REWARD\<rparr>"


section \<open>Staking updates\<close>

definition validate :: "tendermint_crate \<Rightarrow> validator_set \<Rightarrow> stake \<Rightarrow> unit result" where
  "validate c vs update =
     (case map_of (vs_validators vs) (stake_address c update) of
        Some validator \<Rightarrow> map_ok (\<lambda>_. ()) (validator_apply c validator update)
      | None \<Rightarrow> map_ok (\<lambda>_. ()) (from_stake update))"

text \<open>
  \<open>ValidatorSet::apply\<close>: the address is marked as updated first, so it stays marked when the
  update turns out to be invalid and the \<open>expect\<close> panics.
\<close>

definition apply_update :: "tendermint_crate \<Rightarrow> stake \<Rightarrow> (validator_set, unit) action" where
  "apply_update c update vs =
     (let address = stake_address c update;
          marked = vs\<lparr>vs_updated_validators := List.insert address (vs_updated_validators vs)\<rparr>;
          outcome = expect_ok ''attempted to apply an invalid update''
            (case map_of (vs_validators vs) address of
               Some validator \<Rightarrow> validator_apply c validator update
             | None \<Rightarrow> from_stake update)
      in (case outcome of
            Ok validator \<Rightarrow>
              (Ok (), marked\<lparr>vs_validators := hm_insert address validator (vs_validators vs)\<rparr>)
          | Err e \<Rightarrow> (Err e, marked)
          | Panic p \<Rightarrow> (Panic p, marked)))"

definition collect :: "u64 \<Rightarrow> validator_set \<Rightarrow> validator_set" where
  "collect fee vs = vs\<lparr>vs_fees := vs_fees vs + fee\<rparr>"

definition pending_updates :: "validator_set \<Rightarrow> validator list result" where
  "pending_updates vs =
     try_map (\<lambda>address. expect_some ''missing updated validator'' (map_of (vs_validators vs) address))
       (vs_updated_validators vs)"


section \<open>Block rewards\<close>

text \<open>
  The loop over the votes: each voter gets its share, rounded down, and what it gets leaves
  the remaining fees. The division panics on a total voting power of zero.
\<close>

fun distribute ::
  "u64 \<Rightarrow> u64 \<Rightarrow> (address \<times> u64) list \<Rightarrow> u64 \<Rightarrow> (address, u64) hash_map \<Rightarrow>
   (u64 \<times> (address, u64) hash_map) result" where
  "distribute total_voter_reward total_voting_power [] remaining_fees rewards = Ok (remaining_fees, rewards)"
| "distribute total_voter_reward total_voting_power ((address, voting_power) # votes) remaining_fees rewards =
     (if total_voting_power = 0 then Panic ''attempt to divide by zero''
      else
        (let credits = (voting_power * total_voter_reward) div total_voting_power
         in distribute total_voter_reward total_voting_power votes (remaining_fees - credits)
              (hm_insert address credits rewards)))"

definition total_voter_reward :: "u64 \<Rightarrow> u64" where
  "total_voter_reward fees = (fees * (100 - PROPOSER_REWARD_PERCENTAGE)) div 100"

definition total_voting_power :: "(address, u64) hash_map \<Rightarrow> u64" where
  "total_voting_power votes = fold (\<lambda>(_, power) accum. accum + power) votes 0"

text \<open>The rewards map up to the \<open>assert_eq!\<close> that no credits were lost.\<close>

definition reward_map ::
  "u64 \<Rightarrow> address \<Rightarrow> (address, u64) hash_map \<Rightarrow> (address, u64) hash_map result" where
  "reward_map fees proposer votes =
     and_then (distribute (total_voter_reward fees) (total_voting_power votes) votes fees [])
       (\<lambda>(remaining_fees, shares).
          let rewards = hm_insert proposer
                ((case map_of shares proposer of Some credits \<Rightarrow> credits | None \<Rightarrow> 0) + remaining_fees) shares
          in if fees = sum_list (map snd rewards) then Ok rewards
             else Panic ''the sum of rewarded credits is different than the fees'')"

text \<open>
  \<open>block_rewards\<close>. The rewards are a local hash map, whose iteration order is an argument
  (\<open>order\<close>). The \<open>expect\<close> on the proposer inside the \<open>debug!\<close> call is left out: it is
  evaluated at debug level only, and the loop looks the proposer up as well.
\<close>

definition reward_record ::
  "('f, 'er, 'tr, 'out) vm_backend \<Rightarrow> validator_set \<Rightarrow> address \<times> u64 \<Rightarrow> ('f \<times> 'er) result" where
  "reward_record vm vs reward =
     (case reward of (address, credits) \<Rightarrow>
       and_then (expect_some ''validator address not found'' (map_of (vs_validators vs) address))
         (\<lambda>validator. expect_ok ''mint credit records''
            (vm_mint_record vm ''credits.aleo'' ''credits'' (v_aleo_address validator) credits
              (vs_current_height vs))))"

definition block_rewards ::
  "('f, 'er, 'tr, 'out) vm_backend \<Rightarrow> ((address, u64) hash_map \<Rightarrow> (address \<times> u64) list) \<Rightarrow>
   validator_set \<Rightarrow> ('f \<times> 'er) list result" where
  "block_rewards vm order vs =
     (case vs_current_proposer vs of
        None \<Rightarrow> Ok []
      | Some proposer \<Rightarrow>
          and_then (reward_map (vs_fees vs) proposer (vs_current_votes vs))
            (\<lambda>rewards. try_map (reward_record vm vs) (order rewards)))"

definition commit_validators ::
  "validators_io \<Rightarrow> validator_set \<Rightarrow> string option \<Rightarrow> unit result \<times> string option" where
  "commit_validators io vs file =
     (let json = io_to_json io (map snd (vs_validators vs)); (written, file') = io_write io file json
      in (if written then Ok () else Err ValidatorsFile, file'))"


section \<open>The invariant of the validator set\<close>

text \<open>
  Every validator is filed under its own address with a power below \<open>2 ^ 63\<close>, no address and no
  voter occurs twice, and the addresses marked as updated are known.
\<close>

definition vs_inv :: "tendermint_crate \<Rightarrow> validator_set \<Rightarrow> bool" where
  "vs_inv c vs \<longleftrightarrow>
     hm_ok (vs_validators vs) \<and> hm_ok (vs_current_votes vs)
     \<and> (\<forall>(a, v) \<in> set (vs_validators vs). validator_address c v = a \<and> power_ok v)
     \<and> distinct (vs_updated_validators vs)
     \<and> set (vs_updated_validators vs) \<subseteq> fst ` set (vs_validators vs)"

lemma vs_inv_lookup:
  "vs_inv c vs \<Longrightarrow> map_of (vs_validators vs) a = Some v \<Longrightarrow> validator_address c v = a \<and> power_ok v"
  unfolding vs_inv_def by (blast dest: map_of_SomeD)

lemma vs_inv_power:
  "vs_inv c vs \<Longrightarrow> map_of (vs_validators vs) a = Some v \<Longrightarrow> uint (v_voting_power v) < 2 ^ 63"
  using vs_inv_lookup power_ok_def by blast

lemma vs_inv_known:
  "vs_inv c vs \<Longrightarrow> a \<in> set (vs_updated_validators vs) \<Longrightarrow> \<exists>v. map_of (vs_validators vs) a = Some v"
  unfolding vs_inv_def by (metis map_of_eq_None_iff not_None_eq subsetD)

lemma by_address_entry:
  "(a, v) \<in> set (by_address c vs) \<Longrightarrow> v \<in> set vs \<and> validator_address c v = a"
  unfolding by_address_def
  by (auto simp: hm_ok_map_of [symmetric] hm_ok_collect map_of_hm_collect dest!: map_of_SomeD)

lemma hm_ok_by_address [simp]: "hm_ok (by_address c vs)"
  by (simp add: by_address_def)

lemma vs_inv_load:
  assumes "load_or_create c io file = Ok vs"
    and "\<And>json l. file = Some json \<Longrightarrow> io_from_json io json = Some l \<Longrightarrow> list_all power_ok l"
  shows "vs_inv c vs"
  using assms
  by (auto simp: load_or_create_def vs_inv_def result_elims list_all_iff
      dest!: by_address_entry split: option.splits)

lemma vs_inv_replace:
  assumes "vs_inv c vs" and "list_all power_ok l" and "vs_updated_validators vs = []"
  shows "vs_inv c (replace c l vs)"
  using assms by (auto simp: replace_def vs_inv_def list_all_iff dest!: by_address_entry)

lemma vs_inv_begin_block: "vs_inv c vs \<Longrightarrow> hm_ok votes \<Longrightarrow> vs_inv c (begin_block p votes h vs)"
  by (simp add: vs_inv_def begin_block_def)

lemma vs_inv_collect: "vs_inv c vs \<Longrightarrow> vs_inv c (collect fee vs)"
  by (simp add: vs_inv_def collect_def)


section \<open>Validating and applying updates\<close>

text \<open>The validator an update leads to: the common part of \<open>validate\<close> and \<open>apply\<close>.\<close>

definition updated_validator :: "tendermint_crate \<Rightarrow> validator_set \<Rightarrow> stake \<Rightarrow> validator result" where
  "updated_validator c vs s =
     (case map_of (vs_validators vs) (stake_address c s) of
        Some v \<Rightarrow> validator_apply c v s
      | None \<Rightarrow> from_stake s)"

lemma validate_eq: "validate c vs s = map_ok (\<lambda>_. ()) (updated_validator c vs s)"
  by (simp add: validate_def updated_validator_def split: option.splits)

lemma updated_validator_no_panic [simp]: "updated_validator c vs s \<noteq> Panic p"
  by (simp add: updated_validator_def split: option.splits)

lemma validate_no_panic [simp]: "validate c vs s \<noteq> Panic p"
  by (simp add: validate_eq result_panics)

lemma validate_Ok_iff: "validate c vs s = Ok () \<longleftrightarrow> (\<exists>v. updated_validator c vs s = Ok v)"
  by (simp add: validate_eq result_elims)

definition marked :: "tendermint_crate \<Rightarrow> stake \<Rightarrow> validator_set \<Rightarrow> validator_set" where
  "marked c s vs =
     vs\<lparr>vs_updated_validators := List.insert (stake_address c s) (vs_updated_validators vs)\<rparr>"

lemma apply_update_eq:
  "apply_update c s vs =
     (case updated_validator c vs s of
        Ok v \<Rightarrow> (Ok (), (marked c s vs)
          \<lparr>vs_validators := hm_insert (stake_address c s) v (vs_validators vs)\<rparr>)
      | _ \<Rightarrow> (Panic ''attempted to apply an invalid update'', marked c s vs))"
  using updated_validator_no_panic [of c vs s]
  by (cases "updated_validator c vs s")
    (simp_all add: apply_update_def updated_validator_def marked_def Let_def)

lemma apply_update_Ok_iff:
  "apply_update c s vs = (Ok (), vs') \<longleftrightarrow>
     (\<exists>v. updated_validator c vs s = Ok v \<and> vs' = (marked c s vs)
        \<lparr>vs_validators := hm_insert (stake_address c s) v (vs_validators vs)\<rparr>)"
  by (auto simp: apply_update_eq split: result.splits)

lemma updated_validator_ok:
  assumes "updated_validator c vs s = Ok v"
  shows "validator_address c v = stake_address c s \<and> power_ok v"
  using assms from_stake_power_ok from_stake_address validator_apply_power_ok
  by (auto simp: updated_validator_def validator_apply_Ok_iff validator_address_def
      split: option.splits)

lemma set_hm_insert: "hm_ok m \<Longrightarrow> e \<in> set (hm_insert k v m) \<Longrightarrow> e = (k, v) \<or> e \<in> set m"
  by (cases e) (auto simp: hm_ok_map_of [symmetric] hm_ok_insert split: if_splits)

lemma vs_inv_apply:
  assumes "vs_inv c vs" and "apply_update c s vs = (Ok (), vs')"
  shows "vs_inv c vs'"
proof -
  from assms(2) obtain v where v: "updated_validator c vs s = Ok v" and vs': "vs' = (marked c s vs)
      \<lparr>vs_validators := hm_insert (stake_address c s) v (vs_validators vs)\<rparr>"
    by (auto simp: apply_update_Ok_iff)
  have "\<forall>(a, w) \<in> set (hm_insert (stake_address c s) v (vs_validators vs)).
      validator_address c w = a \<and> power_ok w"
    using assms(1) updated_validator_ok [OF v] by (auto simp: vs_inv_def dest!: set_hm_insert)
  then show ?thesis
    using assms(1) unfolding vs' vs_inv_def marked_def by auto
qed

text \<open>The power after an update is the true sum of the old power and the delta.\<close>

definition power_of :: "validator_set \<Rightarrow> address \<Rightarrow> int" where
  "power_of vs a = (case map_of (vs_validators vs) a of Some v \<Rightarrow> uint (v_voting_power v) | None \<Rightarrow> 0)"

lemma updated_validator_power:
  assumes "vs_inv c vs" and "updated_validator c vs s = Ok v"
  shows "uint (v_voting_power v) = power_of vs (stake_address c s) + sint (s_gates_delta s)"
proof (cases "map_of (vs_validators vs) (stake_address c s)")
  case None
  with assms(2) show ?thesis
    using sint_eq_uint_iff [of "s_gates_delta s"] sint_nonneg_iff [of "s_gates_delta s"]
    by (auto simp: updated_validator_def from_stake_Ok_iff power_of_def)
next
  case (Some w)
  with assms vs_inv_power [OF assms(1) Some] show ?thesis
    by (auto simp: updated_validator_def validator_apply_Ok_iff power_of_def wrapped_sum_value)
qed

lemma apply_update_power:
  assumes "vs_inv c vs" and "apply_update c s vs = (Ok (), vs')"
  shows "power_of vs' a = power_of vs a + (if a = stake_address c s then sint (s_gates_delta s) else 0)"
  using assms updated_validator_power [OF assms(1)]
  by (auto simp: apply_update_Ok_iff power_of_def marked_def)

lemma apply_update_others:
  "apply_update c s vs = (r, vs') \<Longrightarrow> a \<noteq> stake_address c s \<Longrightarrow>
   map_of (vs_validators vs') a = map_of (vs_validators vs) a"
  by (auto simp: apply_update_eq marked_def split: result.splits)

lemma updated_validator_cong:
  "map_of (vs_validators vs') (stake_address c s) = map_of (vs_validators vs) (stake_address c s) \<Longrightarrow>
   updated_validator c vs' s = updated_validator c vs s"
  by (simp add: updated_validator_def)

text \<open>Validated updates of distinct validators all apply, in any order.\<close>

lemma validated_updates_apply:
  assumes "\<And>s. s \<in> set us \<Longrightarrow> validate c vs s = Ok ()" and "distinct (map (stake_address c) us)"
  shows "\<exists>vs'. act_each (apply_update c) us vs = (Ok (), vs')"
  using assms
proof (induction us arbitrary: vs)
  case Nil
  then show ?case by simp
next
  case (Cons s us)
  from Cons.prems(1) [of s] obtain vs' where vs': "apply_update c s vs = (Ok (), vs')"
    by (auto simp: validate_Ok_iff apply_update_Ok_iff)
  have "validate c vs' u = Ok ()" if "u \<in> set us" for u
  proof -
    from that Cons.prems(2) have "stake_address c u \<noteq> stake_address c s" by (metis distinct.simps(2) image_eqI list.map(2) list.set_map)
    then have "updated_validator c vs' u = updated_validator c vs u"
      by (intro updated_validator_cong apply_update_others [OF vs'])
    then show ?thesis using Cons.prems(1) [of u] that by (simp add: validate_eq)
  qed
  then obtain vs'' where "act_each (apply_update c) us vs' = (Ok (), vs'')"
    using Cons.IH Cons.prems(2) by fastforce
  with vs' show ?case by (auto simp: act_then_def)
qed

lemma apply_updates_power:
  assumes "vs_inv c vs" and "act_each (apply_update c) us vs = (Ok (), vs')"
  shows "vs_inv c vs' \<and> power_of vs' a =
    power_of vs a + (\<Sum>s\<leftarrow>us. if stake_address c s = a then sint (s_gates_delta s) else 0)"
  using assms
proof (induction us arbitrary: vs)
  case Nil
  then show ?case by simp
next
  case (Cons s us)
  from Cons.prems(2) obtain vs1 where vs1: "apply_update c s vs = (Ok (), vs1)"
    and rest: "act_each (apply_update c) us vs1 = (Ok (), vs')"
    by (auto simp: act_then_Ok_iff)
  from vs_inv_apply [OF Cons.prems(1) vs1] Cons.IH [OF _ rest]
    apply_update_power [OF Cons.prems(1) vs1, of a]
  show ?case by simp
qed

lemma pending_updates_Ok:
  assumes "vs_inv c vs"
  shows "pending_updates vs = Ok (map (the \<circ> map_of (vs_validators vs)) (vs_updated_validators vs))"
proof -
  have "try_map (\<lambda>a. expect_some ''missing updated validator'' (map_of (vs_validators vs) a)) as
      = Ok (map (the \<circ> map_of (vs_validators vs)) as)" if "set as \<subseteq> set (vs_updated_validators vs)" for as
    using that
  proof (induction as)
    case (Cons a as)
    with vs_inv_known [OF assms, of a] show ?case by auto
  qed simp
  then show ?thesis by (simp add: pending_updates_def)
qed


section \<open>The life of a validator set\<close>

text \<open>
  The calls the application makes, as a step relation: a block begins, fees are collected, an
  update is applied. A node starts from its validators file, and the genesis handler replaces
  the validators before the first block. An update that panics poisons the mutex around the
  set, so no state follows it.
\<close>

datatype vs_event =
    VsBegin address "(address, u64) hash_map" u64
  | VsCollect u64
  | VsApply stake

inductive vs_init :: "tendermint_crate \<Rightarrow> validators_io \<Rightarrow> validator_set \<Rightarrow> bool"
  for c :: tendermint_crate and io :: validators_io where
  vs_init_load:
    "(\<And>json l. content = Some json \<Longrightarrow> io_from_json io json = Some l \<Longrightarrow> list_all power_ok l) \<Longrightarrow>
     load_or_create c io content = Ok vs \<Longrightarrow> vs_init c io vs"
| vs_init_genesis:
    "vs_init c io vs \<Longrightarrow> list_all power_ok l \<Longrightarrow> vs_init c io (replace c l vs)"

inductive vs_step :: "tendermint_crate \<Rightarrow> validator_set \<Rightarrow> vs_event \<Rightarrow> validator_set \<Rightarrow> bool"
  for c :: tendermint_crate where
  vs_step_begin: "hm_ok votes \<Longrightarrow> vs_step c vs (VsBegin p votes h) (begin_block p votes h vs)"
| vs_step_collect: "vs_step c vs (VsCollect fee) (collect fee vs)"
| vs_step_apply: "apply_update c s vs = (Ok (), vs') \<Longrightarrow> vs_step c vs (VsApply s) vs'"

lemma vs_inv_init: "vs_init c io vs \<Longrightarrow> vs_inv c vs \<and> vs_updated_validators vs = []"
proof (induction rule: vs_init.induct)
  case (vs_init_load content vs)
  then show ?case
    using vs_inv_load [of c io content vs] by (auto simp: load_or_create_def result_elims)
next
  case (vs_init_genesis vs l)
  then show ?case by (auto simp: vs_inv_replace) (simp add: replace_def)
qed

lemma vs_inv_step: "vs_inv c vs \<Longrightarrow> vs_step c vs e vs' \<Longrightarrow> vs_inv c vs'"
  by (erule vs_step.cases) (auto intro: vs_inv_begin_block vs_inv_collect vs_inv_apply)

interpretation vs_machine: machine_invariant "vs_init c io" "vs_step c" "vs_inv c"
  for c :: tendermint_crate and io :: validators_io
  by unfold_locales (auto dest: vs_inv_init intro: vs_inv_step)


section \<open>The validators file\<close>

text \<open>
  What \<open>serde_json\<close> promises: the text of a list of validators parses back to the list.
  A successful \<open>std::fs::write\<close> replaces the contents of the file.
\<close>

definition io_json_law :: "validators_io \<Rightarrow> validator list \<Rightarrow> bool" where
  "io_json_law io l \<longleftrightarrow> io_from_json io (io_to_json io l) = Some l"

definition io_write_law :: "validators_io \<Rightarrow> bool" where
  "io_write_law io \<longleftrightarrow>
     (\<forall>old text. fst (io_write io old text) \<longrightarrow> snd (io_write io old text) = Some text)"

lemma by_address_of_values:
  assumes "hm_ok m" and "\<forall>(a, v) \<in> set m. validator_address c v = a"
  shows "map_of (by_address c (map snd m)) = map_of m"
proof -
  have "map (\<lambda>v. (validator_address c v, v)) (map snd m) = m"
    using assms(2) by (induction m) auto
  then show ?thesis
    using assms(1) by (simp add: by_address_def map_of_hm_collect map_of_rev_ok)
qed


section \<open>Properties\<close>

text \<open>In every state a validator set can reach, the list of pending updates is built
  without a panic, and every power it reports to the consensus engine is below \<open>2 ^ 63\<close>, so
  the cast to \<open>i64\<close> never shows a negative power.\<close>
theorem pending_updates_in_range:
  assumes "reachable (vs_init c io) (vs_step c) vs"
  shows "\<exists>l. pending_updates vs = Ok l \<and> (\<forall>v \<in> set l. 0 \<le> sint (v_voting_power v))"
proof -
  have inv: "vs_inv c vs" using assms by (rule vs_machine.reachable_inv)
  have "0 \<le> sint (v_voting_power (the (map_of (vs_validators vs) a)))"
    if a: "a \<in> set (vs_updated_validators vs)" for a
  proof -
    obtain v where "map_of (vs_validators vs) a = Some v"
      using vs_inv_known [OF inv a] by blast
    then show ?thesis using vs_inv_power [OF inv] by (simp add: sint_nonneg_iff)
  qed
  then show ?thesis using pending_updates_Ok [OF inv] by simp
qed

text \<open>C6. Updates that were each validated against the current set and concern distinct
  validators all apply without a panic, whatever their order, and each validator's power moves
  by exactly its delta as an integer.\<close>
theorem validated_updates_exact:
  assumes "vs_inv c vs" and "\<forall>s \<in> set us. validate c vs s = Ok ()"
    and "distinct (map (stake_address c) us)"
  shows "\<exists>vs'. act_each (apply_update c) us vs = (Ok (), vs') \<and> vs_inv c vs' \<and>
    (\<forall>a. power_of vs' a =
       power_of vs a + (\<Sum>s\<leftarrow>us. if stake_address c s = a then sint (s_gates_delta s) else 0))"
  using validated_updates_apply [of us c vs] apply_updates_power [OF assms(1)] assms(2,3) by blast

text \<open>The validation does not cover a transaction that unstakes twice from one validator:
  each unstake is valid on its own, and applying both panics (with the mutex of the validator
  set held) as soon as together they exceed the power.\<close>
theorem double_unstake_panics:
  assumes "map_of (vs_validators vs) (stake_address c s) = Some v" and "vs_inv c vs"
    and "v_aleo_address v = s_aleo_address s"
    and "0 \<le> uint (v_voting_power v) + sint (s_gates_delta s)"
    and "uint (v_voting_power v) + 2 * sint (s_gates_delta s) < 0"
  shows "list_all (\<lambda>u. validate c vs u = Ok ()) [s, s] \<and>
    fst (act_each (apply_update c) [s, s] vs) = Panic ''attempted to apply an invalid update''"
proof -
  let ?w = "v\<lparr>v_voting_power := v_voting_power v + s_gates_delta s\<rparr>"
  have v: "validator_address c v = stake_address c s" and p: "uint (v_voting_power v) < 2 ^ 63"
    using vs_inv_lookup [OF assms(2,1)] vs_inv_power [OF assms(2,1)] by simp_all
  have le: "uint (v_voting_power v) + sint (s_gates_delta s) < 2 ^ 63"
    using assms(4,5) p by linarith
  then have sum: "0 \<le> sint (v_voting_power v + s_gates_delta s)"
    using wrapped_sum_nonneg_iff [OF p] assms(4) by simp
  have first: "updated_validator c vs s = Ok ?w"
    using assms(1,3) v sum by (simp add: updated_validator_def validator_apply_Ok_iff)
  have w: "uint (v_voting_power ?w) = uint (v_voting_power v) + sint (s_gates_delta s)"
    using wrapped_sum_value [OF p sum] by simp
  then have "\<not> 0 \<le> sint (v_voting_power ?w + s_gates_delta s)"
    using wrapped_sum_nonneg_iff [of "v_voting_power ?w" "s_gates_delta s"] le assms(5) by simp
  then have "validator_apply c ?w s \<noteq> Ok u" for u
    by (simp add: validator_apply_Ok_iff)
  then have second: "fst (apply_update c s ((marked c s vs)
      \<lparr>vs_validators := hm_insert (stake_address c s) ?w (vs_validators vs)\<rparr>))
    = Panic ''attempted to apply an invalid update''"
    by (auto simp: apply_update_eq updated_validator_def split: result.splits)
  show ?thesis
    using first second by (simp add: validate_Ok_iff act_then_def apply_update_eq split: prod.splits)
      (auto split: result.splits)
qed

text \<open>C29. What \<open>commit\<close> writes, \<open>load_or_create\<close> reads back: after a successful write a
  restarted node knows the same validators, although the file holds them in no fixed order.\<close>
theorem commit_load_round_trip:
  assumes "vs_inv c vs" and "io_json_law io (map snd (vs_validators vs))" and "io_write_law io"
    and "commit_validators io vs content = (Ok (), content')"
  shows "\<exists>vs'. load_or_create c io content' = Ok vs' \<and>
    map_of (vs_validators vs') = map_of (vs_validators vs) \<and> vs_inv c vs'"
proof -
  let ?l = "map snd (vs_validators vs)"
  have stored: "content' = Some (io_to_json io ?l)"
    using assms(3,4) by (auto simp: commit_validators_def io_write_law_def Let_def split: prod.splits if_splits)
      (metis fst_conv snd_conv)
  then obtain vs' where vs': "load_or_create c io content' = Ok vs'"
      and m: "vs_validators vs' = by_address c ?l"
    using assms(2) by (auto simp: load_or_create_def io_json_law_def)
  have "map_of (vs_validators vs') = map_of (vs_validators vs)"
    using by_address_of_values [of "vs_validators vs" c] assms(1) by (auto simp: m vs_inv_def)
  moreover have "list_all power_ok ?l"
    using assms(1) by (auto simp: vs_inv_def list_all_iff)
  then have "vs_inv c vs'"
    using vs' stored assms(2) by (intro vs_inv_load [of c io content']) (auto simp: io_json_law_def)
  ultimately show ?thesis using vs' by blast
qed


section \<open>Witnesses\<close>

text \<open>A set with two validators, and a validators file that holds exactly this set.\<close>

definition sample_set :: validator_set where
  "sample_set =
     \<lparr>vs_validators = [(sample_address 1, sample_validator 1 10), (sample_address 2, sample_validator 2 5)],
      vs_fees = 100, vs_current_proposer = Some (sample_address 1),
      vs_current_votes = [(sample_address 1, 10), (sample_address 2, 5)],
      vs_current_height = 7, vs_updated_validators = []\<rparr>"

definition sample_json :: "validator list \<Rightarrow> string" where
  "sample_json l = concat (map (\<lambda>v. case v_pub_key v of Ed25519 raw \<Rightarrow> text_of raw) l)"

definition sample_io :: validators_io where
  "sample_io =
     \<lparr>io_to_json = sample_json,
      io_from_json = (\<lambda>text. let l = map snd (vs_validators sample_set)
         in if text = sample_json l then Some l else None),
      io_write = (\<lambda>old text. (True, Some text))\<rparr>"

lemma sample_set_inv: "vs_inv sample_crypto sample_set"
  by (simp add: vs_inv_def sample_set_def hm_ok_def)

theorem double_unstake_panics_witness:
  "list_all (\<lambda>u. validate sample_crypto sample_set u = Ok ()) [sample_stake 1 (- 6), sample_stake 1 (- 6)] \<and>
    fst (act_each (apply_update sample_crypto) [sample_stake 1 (- 6), sample_stake 1 (- 6)] sample_set)
      = Panic ''attempted to apply an invalid update''"
  using double_unstake_panics [of sample_set sample_crypto "sample_stake 1 (- 6)" "sample_validator 1 10"]
    sample_set_inv by (simp add: sample_set_def)

theorem validated_updates_exact_witness:
  "\<exists>vs'. act_each (apply_update sample_crypto) [sample_stake 1 (- 6), sample_stake 3 4] sample_set = (Ok (), vs') \<and>
    power_of vs' (sample_address 1) = 4 \<and> power_of vs' (sample_address 3) = 4"
proof -
  have "\<forall>s \<in> set [sample_stake 1 (- 6), sample_stake 3 4]. validate sample_crypto sample_set s = Ok ()"
    by (simp add: validate_def sample_set_def validator_apply_def from_stake_def)
  moreover have "power_of sample_set (sample_address 1) = 10" "power_of sample_set (sample_address 3) = 0"
    by (simp_all add: power_of_def sample_set_def)
  ultimately show ?thesis
    using validated_updates_exact [of sample_crypto sample_set "[sample_stake 1 (- 6), sample_stake 3 4]"]
      sample_set_inv by fastforce
qed

definition new_set :: validator_set where
  "new_set =
     \<lparr>vs_validators = [], vs_fees = 0, vs_current_proposer = None, vs_current_votes = [],
      vs_current_height = 0, vs_updated_validators = []\<rparr>"

theorem pending_updates_in_range_witness:
  "\<exists>l. pending_updates (collect 5 (begin_block (sample_address 1) [] 3
      (replace sample_crypto [sample_validator 1 10] new_set))) = Ok l
    \<and> (\<forall>v \<in> set l. 0 \<le> sint (v_voting_power v))"
proof (rule pending_updates_in_range)
  let ?g = "replace sample_crypto [sample_validator 1 10] new_set"
  have "vs_init sample_crypto sample_io new_set"
    by (rule vs_init_load [where content = None]) (simp_all add: load_or_create_def new_set_def)
  then have "vs_init sample_crypto sample_io ?g"
    by (rule vs_init_genesis) simp
  then have "reachable (vs_init sample_crypto sample_io) (vs_step sample_crypto) ?g"
    by (rule reachable_init)
  then have "reachable (vs_init sample_crypto sample_io) (vs_step sample_crypto)
      (begin_block (sample_address 1) [] 3 ?g)"
    by (rule reachable_step) (rule vs_step_begin, simp)
  then show "reachable (vs_init sample_crypto sample_io) (vs_step sample_crypto)
      (collect 5 (begin_block (sample_address 1) [] 3 ?g))"
    by (rule reachable_step) (rule vs_step_collect)
qed

theorem commit_load_round_trip_witness:
  "\<exists>vs'. load_or_create sample_crypto sample_io (Some (sample_json (map snd (vs_validators sample_set)))) = Ok vs'
     \<and> map_of (vs_validators vs') = map_of (vs_validators sample_set)"
  using commit_load_round_trip [of sample_crypto sample_set sample_io None]
    sample_set_inv by (simp add: io_json_law_def io_write_law_def commit_validators_def sample_io_def Let_def) blast

end
