(* ===== verification/Rewards.thy ===== *)
theory Rewards
  imports Validator_Set
begin

text \<open>
  The mathematics of \<open>ValidatorSet::block_rewards\<close>: what every voter and the proposer get,
  why the assertion of the code cannot fail, the exact value of a share while nothing wraps,
  and independence of the iteration orders of the hash maps.
\<close>

section \<open>Shares and what is left\<close>

definition share :: "u64 \<Rightarrow> (address, u64) hash_map \<Rightarrow> u64 \<Rightarrow> u64" where
  "share fees votes p = (p * total_voter_reward fees) div total_voting_power votes"

lemma total_voting_power_sum: "total_voting_power votes = sum_list (map snd votes)"
proof -
  have "fold (\<lambda>(_, tp) accum. accum + tp) votes a = a + sum_list (map snd votes)" for a
    by (induction votes arbitrary: a) (auto simp: add.assoc)
  then show ?thesis by (simp add: total_voting_power_def)
qed

lemma distribute_eq:
  assumes "tp \<noteq> 0 \<or> votes = []" and "hm_ok (rewards @ votes)"
  shows "distribute reward tp votes remaining rewards =
    Ok (remaining - (\<Sum>v\<leftarrow>votes. snd v * reward div tp),
        rewards @ map (\<lambda>(a, p). (a, p * reward div tp)) votes)"
  using assms
proof (induction votes arbitrary: remaining rewards)
  case Nil
  then show ?case by simp
next
  case (Cons v votes)
  obtain a p where v: "v = (a, p)" by force
  from Cons.prems v have "hm_insert a x rewards = rewards @ [(a, x)]" for x
    by (intro hm_insert_fresh) (auto simp: hm_ok_def)
  moreover from Cons.prems v have "hm_ok ((rewards @ [(a, x)]) @ votes)" for x
    by (simp add: hm_ok_def)
  ultimately show ?case
    using Cons.IH [of "rewards @ [(a, p * reward div tp)]"] Cons.prems v
    by (simp add: Let_def algebra_simps)
qed

text \<open>The rewards before the proposer's part is added.\<close>

definition voter_shares :: "u64 \<Rightarrow> (address, u64) hash_map \<Rightarrow> (address, u64) hash_map" where
  "voter_shares fees votes = map (\<lambda>(a, p). (a, share fees votes p)) votes"

definition leftover :: "u64 \<Rightarrow> (address, u64) hash_map \<Rightarrow> u64" where
  "leftover fees votes = fees - (\<Sum>v\<leftarrow>votes. share fees votes (snd v))"

lemma map_of_voter_shares: "map_of (voter_shares fees votes) a = map_option (share fees votes) (map_of votes a)"
  unfolding voter_shares_def by (induction votes) (auto simp: map_of_map)

lemma keys_voter_shares: "map fst (voter_shares fees votes) = map fst votes"
  by (simp add: voter_shares_def case_prod_unfold comp_def)

lemma hm_ok_voter_shares [simp]: "hm_ok (voter_shares fees votes) = hm_ok votes"
  by (simp add: hm_ok_def keys_voter_shares)

lemma sum_voter_shares:
  "(\<Sum>e\<leftarrow>voter_shares fees votes. f (snd e)) = (\<Sum>v\<leftarrow>votes. f (share fees votes (snd v)))"
  by (simp add: voter_shares_def case_prod_unfold comp_def)

definition full_rewards :: "u64 \<Rightarrow> address \<Rightarrow> (address, u64) hash_map \<Rightarrow> (address, u64) hash_map" where
  "full_rewards fees proposer votes =
     hm_insert proposer
       ((case map_of votes proposer of Some p \<Rightarrow> share fees votes p | None \<Rightarrow> 0) + leftover fees votes)
       (voter_shares fees votes)"

lemma sum_full_rewards: "hm_ok votes \<Longrightarrow> sum_list (map snd (full_rewards fees proposer votes)) = fees"
  using sum_values_insert [of "voter_shares fees votes" "\<lambda>x. x" proposer
      "(case map_of votes proposer of Some p \<Rightarrow> share fees votes p | None \<Rightarrow> 0) + leftover fees votes"]
    sum_voter_shares [of "\<lambda>x. x" fees votes]
  by (simp add: full_rewards_def map_of_voter_shares leftover_def algebra_simps split: option.splits)

text \<open>The assertion of the code never fails, also when sums and products wrap.\<close>

lemma reward_map_eq:
  assumes "hm_ok votes"
  shows "reward_map fees proposer votes =
    (if votes \<noteq> [] \<and> total_voting_power votes = 0 then Panic ''attempt to divide by zero''
     else Ok (full_rewards fees proposer votes))"
proof (cases "votes \<noteq> [] \<and> total_voting_power votes = 0")
  case True
  then show ?thesis by (cases votes) (auto simp: reward_map_def)
next
  case False
  then have "total_voting_power votes \<noteq> 0 \<or> votes = []" by auto
  then have "distribute (total_voter_reward fees) (total_voting_power votes) votes fees []
      = Ok (leftover fees votes, voter_shares fees votes)"
    using distribute_eq [of "total_voting_power votes" votes "[]" "total_voter_reward fees" fees] assms
    by (simp add: leftover_def voter_shares_def share_def)
  with False assms sum_full_rewards [of votes fees proposer] show ?thesis
    by (simp add: reward_map_def full_rewards_def map_of_voter_shares Let_def split: option.splits)
qed

lemma total_voter_reward_half: "unat (total_voter_reward fees) \<le> unat fees div 2"
proof -
  have "unat (total_voter_reward fees) \<le> unat fees * 50 div 100"
    using unat_mult_div_le [of fees 50 100]
    by (simp add: total_voter_reward_def PROPOSER_REWARD_PERCENTAGE_def)
  then show ?thesis by simp
qed

lemma shares_within_reward:
  assumes "(\<Sum>v\<leftarrow>votes. unat (snd v)) < 2 ^ 64"
  shows "(\<Sum>v\<leftarrow>votes. unat (share fees votes (snd v))) \<le> unat (total_voter_reward fees)"
proof -
  let ?r = "unat (total_voter_reward fees)" and ?P = "\<Sum>v\<leftarrow>votes. unat (snd v)"
  have P: "unat (total_voting_power votes) = ?P"
    using assms by (simp add: total_voting_power_sum unat_sum_list_exact)
  have "(\<Sum>v\<leftarrow>votes. unat (share fees votes (snd v))) \<le> (\<Sum>v\<leftarrow>votes. unat (snd v) * ?r div ?P)"
    using unat_mult_div_le by (intro sum_list_mono) (simp add: share_def flip: P)
  also have "\<dots> \<le> (\<Sum>v\<leftarrow>votes. unat (snd v) * ?r) div ?P"
    by (rule sum_list_div_le)
  also have "\<dots> = ?P * ?r div ?P" by (simp add: sum_list_mult_const)
  also have "\<dots> \<le> ?r" by simp
  finally show ?thesis .
qed

lemma leftover_exact:
  assumes "(\<Sum>v\<leftarrow>votes. unat (snd v)) < 2 ^ 64"
  shows "unat (leftover fees votes) + (\<Sum>v\<leftarrow>votes. unat (share fees votes (snd v))) = unat fees"
proof -
  let ?S = "\<Sum>v\<leftarrow>votes. unat (share fees votes (snd v))"
  have "?S \<le> unat fees"
    using shares_within_reward [OF assms] total_voter_reward_half [of fees] by (meson div_le_dividend le_trans)
  moreover have "unat (\<Sum>v\<leftarrow>votes. share fees votes (snd v)) = ?S"
    using calculation unsigned_less [where w = fees and 'a = nat] by (intro unat_sum_list_exact) simp
  ultimately show ?thesis by (simp add: leftover_def unat_sub word_le_nat_alt)
qed


definition own_share :: "u64 \<Rightarrow> address \<Rightarrow> (address, u64) hash_map \<Rightarrow> u64" where
  "own_share fees proposer votes =
     (case map_of votes proposer of Some p \<Rightarrow> share fees votes p | None \<Rightarrow> 0)"

lemma proposer_total_exact:
  assumes "(\<Sum>v\<leftarrow>votes. unat (snd v)) < 2 ^ 64"
  shows "unat (own_share fees proposer votes + leftover fees votes)
    = unat (own_share fees proposer votes) + unat (leftover fees votes)"
proof -
  have "unat (own_share fees proposer votes) \<le> (\<Sum>v\<leftarrow>votes. unat (share fees votes (snd v)))"
    using value_le_sum [of votes proposer _ "\<lambda>p. unat (share fees votes p)"]
    by (auto simp: own_share_def split: option.splits)
  then show ?thesis
    using leftover_exact [OF assms, of fees] unat_bound [of fees] by (simp add: unat_word_ariths)
qed

lemma full_rewards_exact:
  assumes "hm_ok votes" and "(\<Sum>v\<leftarrow>votes. unat (snd v)) < 2 ^ 64"
  shows "(\<Sum>e\<leftarrow>full_rewards fees proposer votes. unat (snd e)) = unat fees"
  using sum_values_insert [of "voter_shares fees votes" unat proposer
      "own_share fees proposer votes + leftover fees votes"]
    leftover_exact [OF assms(2), of fees] proposer_total_exact [OF assms(2), of fees proposer] assms(1)
  by (simp add: full_rewards_def map_of_voter_shares sum_voter_shares own_share_def split: option.splits)

lemma proposer_reward:
  assumes "(\<Sum>v\<leftarrow>votes. unat (snd v)) < 2 ^ 64"
  shows "\<exists>w. map_of (full_rewards fees proposer votes) proposer = Some w \<and>
    unat fees - unat fees div 2 \<le> unat w"
proof -
  have "map_of (full_rewards fees proposer votes) proposer
      = Some (own_share fees proposer votes + leftover fees votes)"
    by (simp add: full_rewards_def own_share_def)
  moreover have "(\<Sum>v\<leftarrow>votes. unat (share fees votes (snd v))) \<le> unat fees div 2"
    using shares_within_reward [OF assms, of fees] total_voter_reward_half [of fees] by linarith
  ultimately show ?thesis
    using leftover_exact [OF assms, of fees] proposer_total_exact [OF assms, of fees proposer] by simp
qed

lemma share_exact:
  assumes "(\<Sum>v\<leftarrow>votes. unat (snd v)) < 2 ^ 64" and "unat fees * 50 < 2 ^ 64"
    and "unat p * (unat fees div 2) < 2 ^ 64"
  shows "unat (share fees votes p) = unat p * (unat fees div 2) div (\<Sum>v\<leftarrow>votes. unat (snd v))"
proof -
  have "unat (total_voter_reward fees) = unat fees div 2"
    using assms(2)
    by (simp add: total_voter_reward_def PROPOSER_REWARD_PERCENTAGE_def unat_div unat_word_ariths)
  then show ?thesis
    using assms(1,3)
    by (simp add: share_def unat_div unat_word_ariths total_voting_power_sum unat_sum_list_exact)
qed

lemma total_voting_power_perm:
  "mset votes = mset votes' \<Longrightarrow> total_voting_power votes = total_voting_power votes'"
  unfolding total_voting_power_sum by (rule sum_list_perm)

lemma full_rewards_perm:
  assumes "hm_ok votes" and "hm_ok votes'" and "map_of votes = map_of votes'"
  shows "mset (full_rewards fees proposer votes) = mset (full_rewards fees proposer votes')"
proof -
  have m: "mset votes = mset votes'" using assms by (rule hm_same_entries)
  have sh: "share fees votes p = share fees votes' p" for p
    by (simp only: share_def total_voting_power_perm [OF m])
  have left: "leftover fees votes = leftover fees votes'"
    unfolding leftover_def sh
    by (simp only: sum_list_perm [OF m, of "\<lambda>v. share fees votes' (snd v)"])
  have own: "own_share fees proposer votes = own_share fees proposer votes'"
    by (simp only: own_share_def assms(3) sh)
  have "map_of (full_rewards fees proposer votes) a = map_of (full_rewards fees proposer votes') a" for a
    unfolding full_rewards_def own_share_def [symmetric] left own map_of_hm_insert fun_upd_apply
      map_of_voter_shares assms(3) sh [abs_def] by (rule refl)
  then show ?thesis
    using assms by (intro hm_same_entries) (simp_all add: full_rewards_def hm_ok_insert fun_eq_iff)
qed


section \<open>The records of a block\<close>

text \<open>The votes a node can distribute: at least one credit of power, when there are votes.\<close>

definition votes_ok :: "(address, u64) hash_map \<Rightarrow> bool" where
  "votes_ok votes \<longleftrightarrow> hm_ok votes \<and> (votes = [] \<or> total_voting_power votes \<noteq> 0)"

lemma reward_map_Ok: "votes_ok votes \<Longrightarrow> reward_map fees proposer votes = Ok (full_rewards fees proposer votes)"
  by (auto simp: votes_ok_def reward_map_eq)

lemma keys_full_rewards: "fst ` set (full_rewards fees proposer votes) = insert proposer (fst ` set votes)"
  by (simp add: full_rewards_def) (metis keys_voter_shares list.set_map)

lemma hm_ok_full_rewards: "hm_ok votes \<Longrightarrow> hm_ok (full_rewards fees proposer votes)"
  by (simp add: full_rewards_def hm_ok_insert)

text \<open>A hash map may be visited in any order of its entries.\<close>

definition any_order :: "(('k, 'v) hash_map \<Rightarrow> ('k \<times> 'v) list) \<Rightarrow> bool" where
  "any_order order \<longleftrightarrow> (\<forall>m. mset (order m) = mset m)"

lemma any_order_set: "any_order order \<Longrightarrow> set (order m) = set m"
  unfolding any_order_def by (metis mset_eq_setD)

lemma any_order_length:
  assumes "any_order order" and "hm_ok m"
  shows "length (order m) = card (fst ` set (order m))"
proof -
  have "mset (map fst (order m)) = mset (map fst m)"
    using assms(1) by (simp add: any_order_def)
  then have "distinct (map fst (order m))"
    using assms(2) unfolding hm_ok_def by (metis mset_eq_imp_distinct_iff)
  then show ?thesis by (metis distinct_card length_map list.set_map)
qed

lemma try_map_total:
  "(\<And>x. x \<in> set xs \<Longrightarrow> \<exists>y. f x = Ok y) \<Longrightarrow> \<exists>ys. try_map f xs = Ok ys \<and> length ys = length xs"
  by (induction xs) fastforce+

lemma try_map_panics:
  "(\<And>x. x \<in> set xs \<Longrightarrow> \<not> (\<exists>e. f x = Err e)) \<Longrightarrow> x \<in> set xs \<Longrightarrow> f x = Panic p \<Longrightarrow>
   \<exists>q. try_map f xs = Panic q"
proof (induction xs)
  case (Cons y ys)
  show ?case
  proof (cases "f y")
    case (Ok v)
    with Cons.prems(2,3) have "x \<in> set ys" by auto
    with Cons Ok show ?thesis by fastforce
  qed (use Cons.prems(1) in auto)
qed simp

lemma reward_record_outcome:
  assumes "\<And>account credits. is_ok (vm_mint_record vm ''credits.aleo'' ''credits'' account credits (vs_current_height vs))"
  shows "if fst e \<in> fst ` set (vs_validators vs) then \<exists>r. reward_record vm vs e = Ok r
    else reward_record vm vs e = Panic ''validator address not found''"
proof (cases "map_of (vs_validators vs) (fst e)")
  case None
  then have "fst e \<notin> fst ` set (vs_validators vs)" by (simp add: map_of_eq_None_iff)
  with None show ?thesis by (cases e) (simp add: reward_record_def)
next
  case (Some v)
  then have "fst e \<in> fst ` set (vs_validators vs)"
    by (metis map_of_eq_None_iff option.distinct(1))
  moreover obtain r where "vm_mint_record vm ''credits.aleo'' ''credits'' (v_aleo_address v) (snd e)
      (vs_current_height vs) = Ok r"
    using assms is_ok.elims(2) by blast
  ultimately show ?thesis using Some by (auto simp: reward_record_def split: prod.splits)
qed

section \<open>Properties\<close>

text \<open>C5. The rewards of a block conserve the collected fees: when the votes carry some power
  and their sum does not wrap, the reward map is built (neither the division nor the assertion
  panics), its values sum to the fees as natural numbers, every voter other than the proposer
  gets its proportional share, and the proposer gets at least half of the fees.\<close>
theorem rewards_conserve_fees:
  assumes "votes_ok votes" and "(\<Sum>v\<leftarrow>votes. unat (snd v)) < 2 ^ 64"
  shows "\<exists>rewards. reward_map fees proposer votes = Ok rewards \<and> hm_ok rewards
    \<and> (\<Sum>e\<leftarrow>rewards. unat (snd e)) = unat fees
    \<and> (\<forall>a p. map_of votes a = Some p \<and> a \<noteq> proposer \<longrightarrow>
        map_of rewards a = Some (p * total_voter_reward fees div total_voting_power votes))
    \<and> (\<exists>w. map_of rewards proposer = Some w \<and> unat fees - unat fees div 2 \<le> unat w)"
proof -
  have "hm_ok votes" using assms(1) by (simp add: votes_ok_def)
  then show ?thesis
    using reward_map_Ok [OF assms(1)] hm_ok_full_rewards full_rewards_exact assms(2) proposer_reward
    by (intro exI [of _ "full_rewards fees proposer votes"])
      (simp add: full_rewards_def map_of_voter_shares share_def)
qed

text \<open>While the products stay in range, a voter's share is the true quotient: its power
  times half the fees (rounded down) over the total power.\<close>
theorem voter_share_exact:
  assumes "votes_ok votes" and "(\<Sum>v\<leftarrow>votes. unat (snd v)) * unat fees < 2 ^ 64"
    and "unat fees * 50 < 2 ^ 64" and "map_of votes a = Some p" and "a \<noteq> proposer" and "fees \<noteq> 0"
  shows "\<exists>rewards w. reward_map fees proposer votes = Ok rewards \<and> map_of rewards a = Some w
    \<and> unat w = unat p * (unat fees div 2) div (\<Sum>v\<leftarrow>votes. unat (snd v))"
proof -
  let ?P = "\<Sum>v\<leftarrow>votes. unat (snd v)"
  have f: "1 \<le> unat fees" using assms(6) by (simp add: unat_gt_0 Suc_le_eq)
  then have "?P \<le> ?P * unat fees" by (cases "unat fees") auto
  with assms(2) have P: "?P < 2 ^ 64" by linarith
  have "unat p * (unat fees div 2) \<le> ?P * unat fees"
    using value_le_sum [OF assms(4), of unat] by (intro mult_le_mono) simp_all
  with assms(2) have "unat p * (unat fees div 2) < 2 ^ 64" by linarith
  from share_exact [OF P assms(3) this] show ?thesis
    using reward_map_Ok [OF assms(1), of fees proposer] assms(4,5)
    by (simp add: full_rewards_def map_of_voter_shares)
qed

text \<open>C18. \<open>block_rewards\<close> is deterministic across nodes: two nodes that agree on the
  validators, votes, fees, proposer and height mint the same records, whatever the iteration
  orders of their hash maps.\<close>
theorem block_rewards_deterministic:
  assumes "any_order order" and "any_order order'"
    and "hm_ok (vs_current_votes vs)" and "hm_ok (vs_current_votes vs')"
    and "map_of (vs_current_votes vs) = map_of (vs_current_votes vs')"
    and "map_of (vs_validators vs) = map_of (vs_validators vs')"
    and "vs_fees vs = vs_fees vs'" and "vs_current_proposer vs = vs_current_proposer vs'"
    and "vs_current_height vs = vs_current_height vs'"
    and "block_rewards vm order vs = Ok records"
  shows "\<exists>records'. block_rewards vm order' vs' = Ok records' \<and> mset records' = mset records"
proof (cases "vs_current_proposer vs")
  case None
  with assms(8,10) show ?thesis by (simp add: block_rewards_def)
next
  case (Some proposer)
  let ?r = "full_rewards (vs_fees vs) proposer (vs_current_votes vs)"
  let ?r' = "full_rewards (vs_fees vs) proposer (vs_current_votes vs')"
  from Some assms(10) have ok: "votes_ok (vs_current_votes vs)" and run: "try_map (reward_record vm vs) (order ?r) = Ok records"
    using reward_map_eq [OF assms(3), of "vs_fees vs" proposer] assms(3)
    by (auto simp: block_rewards_def votes_ok_def split: if_splits)
  have same: "mset (vs_current_votes vs) = mset (vs_current_votes vs')"
    using assms(3-5) by (rule hm_same_entries)
  then have ok': "votes_ok (vs_current_votes vs')"
    using ok assms(4) total_voting_power_perm [OF same] by (auto simp: votes_ok_def)
  have "mset (order' ?r') = mset (order ?r)"
    using assms(1,2) full_rewards_perm [OF assms(3-5)] by (simp add: any_order_def)
  from try_map_perm [OF run this] obtain records' where
    run': "try_map (reward_record vm vs) (order' ?r') = Ok records'" and ms: "mset records' = mset records"
    by blast
  have "reward_record vm vs = reward_record vm vs'"
    using assms(6,9) by (simp add: reward_record_def fun_eq_iff)
  then show ?thesis
    using Some assms(7,8) reward_map_Ok [OF ok'] run' ms by (simp add: block_rewards_def)
qed

text \<open>C28. \<open>block_rewards\<close> mints one record per rewarded validator when the votes carry some
  power, the proposer and all voters are known, and minting works; an unknown proposer or
  voter, which \<open>begin_block\<close> only logs, and votes without power make it panic instead.\<close>
theorem block_rewards_outcome:
  assumes "any_order order" and "hm_ok (vs_current_votes vs)"
    and "vs_current_proposer vs = Some proposer"
    and "\<And>account credits. is_ok (vm_mint_record vm ''credits.aleo'' ''credits'' account credits (vs_current_height vs))"
  shows "if votes_ok (vs_current_votes vs)
        \<and> insert proposer (fst ` set (vs_current_votes vs)) \<subseteq> fst ` set (vs_validators vs)
      then \<exists>records. block_rewards vm order vs = Ok records
        \<and> length records = card (insert proposer (fst ` set (vs_current_votes vs)))
      else \<exists>msg. block_rewards vm order vs = Panic msg"
proof -
  let ?votes = "vs_current_votes vs" and ?known = "fst ` set (vs_validators vs)"
  let ?r = "order (full_rewards (vs_fees vs) proposer ?votes)"
  note outcome = reward_record_outcome [of vm vs, OF assms(4)]
  have keys: "fst ` set ?r = insert proposer (fst ` set ?votes)"
    using any_order_set [OF assms(1)] by (simp add: keys_full_rewards)
  show ?thesis
  proof (cases "votes_ok ?votes")
    case False
    with assms(2,3) show ?thesis by (auto simp: block_rewards_def reward_map_eq votes_ok_def)
  next
    case ok: True
    then have run: "block_rewards vm order vs = try_map (reward_record vm vs) ?r"
      using assms(3) reward_map_Ok [OF ok] by (simp add: block_rewards_def)
    have count: "length ?r = card (fst ` set ?r)"
      by (rule any_order_length [OF assms(1) hm_ok_full_rewards [OF assms(2)]])
    show ?thesis
    proof (cases "fst ` set ?r \<subseteq> ?known")
      case True
      then have "\<exists>r. reward_record vm vs e = Ok r" if "e \<in> set ?r" for e
        using outcome [of e] that True by (metis (no_types, lifting) imageI subsetD)
      from try_map_total [of ?r, OF this] show ?thesis
        using run count True ok keys by auto
    next
      case False
      then obtain e where "e \<in> set ?r" and "fst e \<notin> ?known" by auto
      moreover from this have "reward_record vm vs e = Panic ''validator address not found''"
        using outcome [of e] by simp
      moreover have "\<not> (\<exists>x. reward_record vm vs d = Err x)" for d
        using outcome [of d] by (auto split: if_splits)
      ultimately show ?thesis
        using try_map_panics [of ?r "reward_record vm vs" e] run False keys by auto
    qed
  qed
qed


section \<open>Witnesses\<close>

abbreviation sample_votes :: "(address, u64) hash_map" where
  "sample_votes \<equiv> [(sample_address 1, 10), (sample_address 2, 5)]"

lemma sample_votes_ok: "votes_ok sample_votes"
  by (simp add: votes_ok_def hm_ok_def total_voting_power_def)

theorem rewards_conserve_fees_witness:
  "\<exists>rewards. reward_map 101 (sample_address 1) sample_votes = Ok rewards
    \<and> (\<Sum>e\<leftarrow>rewards. unat (snd e)) = 101 \<and> map_of rewards (sample_address 2) = Some 16"
proof -
  obtain rewards where "reward_map 101 (sample_address 1) sample_votes = Ok rewards"
    and "(\<Sum>e\<leftarrow>rewards. unat (snd e)) = unat (101 :: u64)"
    and "\<And>a p. map_of sample_votes a = Some p \<Longrightarrow> a \<noteq> sample_address 1 \<Longrightarrow>
        map_of rewards a = Some (p * total_voter_reward 101 div total_voting_power sample_votes)"
    using rewards_conserve_fees [OF sample_votes_ok, of 101 "sample_address 1"] by auto
  moreover from this(3) [of "sample_address 2" 5]
  have "map_of rewards (sample_address 2) = Some 16"
    by (simp add: total_voter_reward_def total_voting_power_def PROPOSER_REWARD_PERCENTAGE_def)
  ultimately show ?thesis by simp
qed

theorem voter_share_exact_witness:
  "\<exists>rewards w. reward_map 101 (sample_address 1) sample_votes = Ok rewards
    \<and> map_of rewards (sample_address 2) = Some w \<and> unat w = 16"
  using voter_share_exact [OF sample_votes_ok, of 101 "sample_address 2" 5 "sample_address 1"] by simp

theorem block_rewards_deterministic_witness:
  "\<exists>records records'. block_rewards sample_vm id sample_set = Ok records
    \<and> block_rewards sample_vm rev (sample_set\<lparr>vs_current_votes := rev sample_votes\<rparr>) = Ok records'
    \<and> mset records' = mset records"
proof -
  have "\<exists>records. block_rewards sample_vm id sample_set = Ok records"
    by (simp add: block_rewards_def sample_set_def reward_map_def total_voter_reward_def
        total_voting_power_def PROPOSER_REWARD_PERCENTAGE_def reward_record_def hm_insert_def
        lambda_backend_def mint_record_def sample_crate_def)
  then obtain records where r: "block_rewards sample_vm id sample_set = Ok records" by blast
  have "mset (rev sample_votes) = mset sample_votes" by simp
  with r show ?thesis
    using block_rewards_deterministic [of id rev sample_set
        "sample_set\<lparr>vs_current_votes := rev sample_votes\<rparr>" sample_vm records]
    by (auto simp: any_order_def sample_set_def hm_ok_def fun_eq_iff)
qed

theorem block_rewards_outcome_witness:
  "(\<exists>records. block_rewards sample_vm rev sample_set = Ok records \<and> length records = 2)
    \<and> (\<exists>msg. block_rewards sample_vm rev (begin_block (sample_address 9) sample_votes 8 sample_set) = Panic msg)"
proof
  have mint: "is_ok (vm_mint_record sample_vm ''credits.aleo'' ''credits'' account credits h)" for account credits h
    by (simp add: lambda_backend_def mint_record_def sample_crate_def)
  show "\<exists>records. block_rewards sample_vm rev sample_set = Ok records \<and> length records = 2"
    using block_rewards_outcome [of rev sample_set "sample_address 1" sample_vm, OF _ _ _ mint]
      sample_votes_ok by (simp add: any_order_def sample_set_def hm_ok_def numeral_2_eq_2)
  show "\<exists>msg. block_rewards sample_vm rev (begin_block (sample_address 9) sample_votes 8 sample_set) = Panic msg"
    using block_rewards_outcome [of rev "begin_block (sample_address 9) sample_votes 8 sample_set"
        "sample_address 9" sample_vm, OF _ _ _ mint]
    by (simp add: any_order_def sample_set_def hm_ok_def begin_block_def)
qed

end
