(* ===== verification/Kv_Db.thy ===== *)
theory Kv_Db
  imports Prelude
begin

text \<open>
  The key-value database of the two stores. Keys and values are byte vectors in the code; the
  stores only use the UTF-8 bytes of printed values and the bincode bytes of a program, here
  texts.
\<close>

section \<open>The operations and their documented behaviour\<close>

text \<open>
  RocksDB is a parameter: \<open>'db\<close> is the state of one database. A lookup and the items of an
  iteration may be errors, a write applies a batch of puts and returns whether it succeeded.
\<close>

record 'db kv_ops =
  kv_get :: "'db \<Rightarrow> string \<Rightarrow> string + string option"
  kv_write :: "'db \<Rightarrow> (string \<times> string) list \<Rightarrow> bool \<times> 'db"
  kv_iterator :: "'db \<Rightarrow> string option \<Rightarrow> (string + string \<times> string) list"
  kv_may_exist :: "'db \<Rightarrow> string \<Rightarrow> bool"

text \<open>
  The documented behaviour: a lookup that succeeds returns the stored value, a write batch is
  atomic, an iteration from the start visits exactly the stored entries once each, up to
  items that fail, and \<open>key_may_exist\<close> has no false negatives. \<open>contents\<close> is the map a
  database stores.
\<close>

definition kv_get_law :: "'db kv_ops \<Rightarrow> ('db \<Rightarrow> string \<Rightarrow> string option) \<Rightarrow> bool" where
  "kv_get_law ops contents \<longleftrightarrow> (\<forall>db k r. kv_get ops db k = Inr r \<longrightarrow> r = contents db k)"

definition kv_write_law :: "'db kv_ops \<Rightarrow> ('db \<Rightarrow> string \<Rightarrow> string option) \<Rightarrow> bool" where
  "kv_write_law ops contents \<longleftrightarrow>
     (\<forall>db batch. contents (snd (kv_write ops db batch)) =
        (if fst (kv_write ops db batch) then contents db ++ map_of (rev batch) else contents db))"

definition kv_iterator_law :: "'db kv_ops \<Rightarrow> ('db \<Rightarrow> string \<Rightarrow> string option) \<Rightarrow> bool" where
  "kv_iterator_law ops contents \<longleftrightarrow>
     (\<forall>db k v. Inr (k, v) \<in> set (kv_iterator ops db None) \<longrightarrow> contents db k = Some v)
     \<and> (\<forall>db k v. contents db k = Some v \<longrightarrow> list_all (\<lambda>item. \<not> isl item) (kv_iterator ops db None) \<longrightarrow>
          Inr (k, v) \<in> set (kv_iterator ops db None))"

definition kv_may_exist_law :: "'db kv_ops \<Rightarrow> ('db \<Rightarrow> string \<Rightarrow> string option) \<Rightarrow> bool" where
  "kv_may_exist_law ops contents \<longleftrightarrow> (\<forall>db k. contents db k \<noteq> None \<longrightarrow> kv_may_exist ops db k)"

definition kv_laws :: "'db kv_ops \<Rightarrow> ('db \<Rightarrow> string \<Rightarrow> string option) \<Rightarrow> bool" where
  "kv_laws ops contents \<longleftrightarrow> kv_get_law ops contents \<and> kv_write_law ops contents
     \<and> kv_iterator_law ops contents \<and> kv_may_exist_law ops contents"

lemma kv_get_sound: "kv_laws ops contents \<Longrightarrow> kv_get ops db k = Inr r \<Longrightarrow> r = contents db k"
  by (simp add: kv_laws_def kv_get_law_def)

lemma kv_write_contents:
  "kv_laws ops contents \<Longrightarrow> contents (snd (kv_write ops db batch)) =
     (if fst (kv_write ops db batch) then contents db ++ map_of (rev batch) else contents db)"
  by (simp add: kv_laws_def kv_write_law_def)

lemma kv_iterator_sound:
  "kv_laws ops contents \<Longrightarrow> Inr (k, v) \<in> set (kv_iterator ops db None) \<Longrightarrow> contents db k = Some v"
  unfolding kv_laws_def kv_iterator_law_def by metis

lemma kv_iterator_complete:
  "kv_laws ops contents \<Longrightarrow> contents db k = Some v \<Longrightarrow>
   list_all (\<lambda>item. \<not> isl item) (kv_iterator ops db None) \<Longrightarrow> Inr (k, v) \<in> set (kv_iterator ops db None)"
  unfolding kv_laws_def kv_iterator_law_def by metis

lemma kv_may_exist_complete:
  "kv_laws ops contents \<Longrightarrow> \<not> kv_may_exist ops db k \<Longrightarrow> contents db k = None"
  unfolding kv_laws_def kv_may_exist_law_def by metis

text \<open>Lookups that never fail, the part of the law on \<open>kv_get\<close> that availability adds.\<close>

definition kv_available :: "'db kv_ops \<Rightarrow> bool" where
  "kv_available ops \<longleftrightarrow> (\<forall>db k. \<not> isl (kv_get ops db k))"

text \<open>Iterations from the start that meet no item that fails.\<close>

definition kv_iterates :: "'db kv_ops \<Rightarrow> bool" where
  "kv_iterates ops \<longleftrightarrow> (\<forall>db. list_all (\<lambda>item. \<not> isl item) (kv_iterator ops db None))"

text \<open>A database on a disk that works: lookups answer and writes succeed.\<close>

definition kv_working :: "'db kv_ops \<Rightarrow> ('db \<Rightarrow> string \<Rightarrow> string option) \<Rightarrow> bool" where
  "kv_working ops contents \<longleftrightarrow> kv_laws ops contents \<and> kv_available ops
     \<and> (\<forall>db batch. fst (kv_write ops db batch))"

lemma working_laws: "kv_working ops contents \<Longrightarrow> kv_laws ops contents"
  and working_available: "kv_working ops contents \<Longrightarrow> kv_available ops"
  by (simp_all add: kv_working_def)

lemma working_get: "kv_working ops contents \<Longrightarrow> kv_get ops db k = Inr (contents db k)"
proof -
  assume works: "kv_working ops contents"
  then obtain r where "kv_get ops db k = Inr r"
    unfolding kv_working_def kv_available_def by (metis sum.collapse(2))
  with kv_get_sound [OF working_laws [OF works]] show ?thesis by metis
qed

lemma working_write:
  "kv_working ops contents \<Longrightarrow> contents (snd (kv_write ops db batch)) = contents db ++ map_of (rev batch)"
  by (simp add: kv_write_contents [OF working_laws]) (simp add: kv_working_def)

text \<open>
  In addition \<open>key_may_exist\<close> has no false positives. RocksDB does not promise this, and only
  theorems on unit tests assume it, whose assertions rely on it for new databases.
\<close>

definition kv_reliable :: "'db kv_ops \<Rightarrow> ('db \<Rightarrow> string \<Rightarrow> string option) \<Rightarrow> bool" where
  "kv_reliable ops contents \<longleftrightarrow> kv_working ops contents
     \<and> (\<forall>db k. kv_may_exist ops db k \<longleftrightarrow> contents db k \<noteq> None)"

lemma reliable_working: "kv_reliable ops contents \<Longrightarrow> kv_working ops contents"
  and reliable_may_exist: "kv_reliable ops contents \<Longrightarrow> kv_may_exist ops db k \<longleftrightarrow> contents db k \<noteq> None"
  by (simp_all add: kv_reliable_def)

lemmas reliable_laws = working_laws [OF reliable_working]
  and reliable_available = working_available [OF reliable_working]
  and reliable_get = working_get [OF reliable_working]
  and reliable_write = working_write [OF reliable_working]


section \<open>A database in memory\<close>

text \<open>
  An instance of the parameter: the entries in a list. \<open>readonly_kv\<close> refuses every write.
\<close>

definition memory_kv :: "(string \<times> string) list kv_ops" where
  "memory_kv =
     \<lparr>kv_get = (\<lambda>db k. Inr (map_of db k)),
      kv_write = (\<lambda>db batch. (True, rev batch @ db)),
      kv_iterator = (\<lambda>db from_key. map Inr (AList.clearjunk db)),
      kv_may_exist = (\<lambda>db k. map_of db k \<noteq> None)\<rparr>"

definition readonly_kv :: "(string \<times> string) list kv_ops" where
  "readonly_kv = memory_kv\<lparr>kv_write := (\<lambda>db batch. (False, db))\<rparr>"

lemma clearjunk_entry: "(k, v) \<in> set (AList.clearjunk db) \<longleftrightarrow> map_of db k = Some v"
  by (metis distinct_clearjunk map_of_clearjunk map_of_eq_Some_iff)

lemma memory_kv_laws: "kv_laws memory_kv map_of"
  by (auto simp: kv_laws_def kv_get_law_def kv_write_law_def kv_iterator_law_def kv_may_exist_law_def
      memory_kv_def clearjunk_entry image_iff)

lemma readonly_kv_laws: "kv_laws readonly_kv map_of"
  by (auto simp: kv_laws_def kv_get_law_def kv_write_law_def kv_iterator_law_def kv_may_exist_law_def
      readonly_kv_def memory_kv_def clearjunk_entry image_iff)

lemma memory_kv_simps [simp]:
  "kv_get memory_kv db k = Inr (map_of db k)"
  "kv_write memory_kv db batch = (True, rev batch @ db)"
  "kv_iterator memory_kv db from_key = map Inr (AList.clearjunk db)"
  "kv_may_exist memory_kv db k = (map_of db k \<noteq> None)"
  by (simp_all add: memory_kv_def)

lemma readonly_kv_simps [simp]:
  "kv_get readonly_kv db k = Inr (map_of db k)"
  "kv_write readonly_kv db batch = (False, db)"
  by (simp_all add: readonly_kv_def memory_kv_def)

lemma memory_kv_available: "kv_available memory_kv"
  by (simp add: kv_available_def)

lemma memory_kv_working: "kv_working memory_kv map_of"
  using memory_kv_laws by (simp add: kv_working_def memory_kv_available)

lemma memory_kv_iterates: "kv_iterates memory_kv"
  by (simp add: kv_iterates_def list_all_iff)

lemma memory_kv_reliable: "kv_reliable memory_kv map_of"
  using memory_kv_working by (simp add: kv_reliable_def)

end
