(* ===== verification/Record_Store.thy ===== *)
theory Record_Store
  imports Samples Kv_Db
begin

text \<open>
  \<open>src/blockchain/record_store.rs\<close>: the store of unspent records and spent serial numbers. A
  server thread owns two RocksDB databases and two write buffers, and handles the commands it
  receives over a channel; the methods of \<open>RecordStore\<close> send a command and wait for the
  reply. Keys and values are the UTF-8 bytes of printed fields and records, here their texts.
\<close>

section \<open>The server thread\<close>

text \<open>Anything but a successful lookup that finds nothing counts as present.\<close>

definition key_exists_or_fails :: "'db kv_ops \<Rightarrow> 'db \<Rightarrow> string \<Rightarrow> bool" where
  "key_exists_or_fails ops db key = (kv_get ops db key \<noteq> Inr None)"

lemma key_absent: "kv_laws ops contents \<Longrightarrow> \<not> key_exists_or_fails ops db k \<Longrightarrow> contents db k = None"
  unfolding key_exists_or_fails_def using kv_get_sound by force

lemma key_present: "kv_laws ops contents \<Longrightarrow> contents db k \<noteq> None \<Longrightarrow> key_exists_or_fails ops db k"
  by (metis key_absent)

datatype command =
    AddCommand string string
  | SpendCommand string
  | IsUnspentCommand string
  | CommitCommand
  | ScanSpentRecordsCommand
  | ScanRecordsCommand "string option" "nat option"

text \<open>
  What arrives on the reply channel. \<open>NoReply\<close> is for the commit, which has none; a command
  whose reply sender is dropped because the thread is gone gives \<open>Closed\<close>.
\<close>

datatype reply =
    ResultReply "unit result"
  | BoolReply bool
  | SpentReply "string list"
  | ScanReply "(string \<times> string) list" "string option"
  | NoReply
  | Closed

text \<open>\<open>rs_alive\<close> is false once the thread has panicked: its end of the channel is gone then.\<close>

record 'db record_store =
  rs_alive :: bool
  rs_db_records :: 'db
  rs_db_spent :: 'db
  rs_record_buffer :: "(string, string) hash_map"
  rs_spent_buffer :: "(string, string) hash_map"

definition new_record_store :: "'db \<Rightarrow> 'db \<Rightarrow> 'db record_store" where
  "new_record_store db_records db_spent =
     \<lparr>rs_alive = True, rs_db_records = db_records, rs_db_spent = db_spent,
      rs_record_buffer = [], rs_spent_buffer = []\<rparr>"

text \<open>\<open>RecordStore::new\<close>, with the outcome of opening a database as a parameter.\<close>

definition record_store_new :: "(string \<Rightarrow> string + 'db) \<Rightarrow> string \<Rightarrow> 'db record_store result" where
  "record_store_new open_default path =
     and_then (external (open_default (path @ ''.records.db''))) (\<lambda>db_records.
     and_then (external (open_default (path @ ''.spent.db''))) (\<lambda>db_spent.
     Ok (new_record_store db_records db_spent)))"

definition handle_add ::
  "'db kv_ops \<Rightarrow> string \<Rightarrow> string \<Rightarrow> 'db record_store \<Rightarrow> unit result \<times> 'db record_store" where
  "handle_add ops commitment ciphertext s =
     (if hm_contains (rs_record_buffer s) commitment \<or> key_exists_or_fails ops (rs_db_records s) commitment
      then (Err (RecordExists commitment), s)
      else (Ok (), s\<lparr>rs_record_buffer := hm_insert commitment ciphertext (rs_record_buffer s)\<rparr>))"

definition handle_spend ::
  "'db kv_ops \<Rightarrow> string \<Rightarrow> 'db record_store \<Rightarrow> unit result \<times> 'db record_store" where
  "handle_spend ops serial_number s =
     (if key_exists_or_fails ops (rs_db_spent s) serial_number \<or> hm_contains (rs_spent_buffer s) serial_number
      then (Err RecordAlreadySpent, s)
      else (Ok (), s\<lparr>rs_spent_buffer := hm_insert serial_number ''1'' (rs_spent_buffer s)\<rparr>))"

definition handle_is_unspent :: "'db kv_ops \<Rightarrow> string \<Rightarrow> 'db record_store \<Rightarrow> bool" where
  "handle_is_unspent ops serial_number s =
     (\<not> key_exists_or_fails ops (rs_db_spent s) serial_number
      \<and> \<not> hm_contains (rs_spent_buffer s) serial_number)"

text \<open>
  The commit writes both buffers and clears the buffer of spent records, whether or not the
  writes succeeded: a failed write is only logged. The batch of deletions that the code builds
  last is never written, so it has no effect.
\<close>

definition handle_commit :: "'db kv_ops \<Rightarrow> 'db record_store \<Rightarrow> 'db record_store" where
  "handle_commit ops s =
     s\<lparr>rs_db_records := snd (kv_write ops (rs_db_records s) (rs_record_buffer s)),
       rs_db_spent := snd (kv_write ops (rs_db_spent s) (rs_spent_buffer s)),
       rs_spent_buffer := []\<rparr>"

text \<open>The scan loop: the limit is tested before each item, items that fail are skipped.\<close>

fun scan_records ::
  "nat option \<Rightarrow> (string + string \<times> string) list \<Rightarrow> (string \<times> string) list \<Rightarrow> string option \<Rightarrow>
   (string \<times> string) list \<times> string option" where
  "scan_records limit [] records last_key = (records, last_key)"
| "scan_records limit (item # items) records last_key =
     (if (case limit of Some l \<Rightarrow> l \<le> length records | None \<Rightarrow> False) then (records, last_key)
      else (case item of
              Inr (key, record) \<Rightarrow> scan_records limit items (records @ [(key, record)]) (Some key)
            | Inl e \<Rightarrow> scan_records limit items records last_key))"

fun ok_items :: "('e + 'a) list \<Rightarrow> 'a list" where
  "ok_items [] = []"
| "ok_items (Inr a # items) = a # ok_items items"
| "ok_items (Inl e # items) = ok_items items"

text \<open>
  The scan of spent records parses every key and unwraps, so a key that is not a field kills
  the thread. \<open>field\<close> is the parser of the VM's fields.
\<close>

definition scan_spent_keys :: "'db kv_ops \<Rightarrow> (string \<Rightarrow> 'f option) \<Rightarrow> 'db record_store \<Rightarrow> string list result" where
  "scan_spent_keys ops field s =
     try_map (\<lambda>(key, _). map_ok (\<lambda>_. key) (expect_some ''parse serial number'' (field key)))
       (ok_items (kv_iterator ops (rs_db_spent s) None))"

fun handle :: "'db kv_ops \<Rightarrow> (string \<Rightarrow> 'f option) \<Rightarrow> command \<Rightarrow> 'db record_store \<Rightarrow> reply \<times> 'db record_store" where
  "handle ops field (AddCommand commitment ciphertext) s =
     map_prod ResultReply id (handle_add ops commitment ciphertext s)"
| "handle ops field (SpendCommand serial_number) s =
     map_prod ResultReply id (handle_spend ops serial_number s)"
| "handle ops field (IsUnspentCommand serial_number) s =
     (BoolReply (handle_is_unspent ops serial_number s), s)"
| "handle ops field CommitCommand s = (NoReply, handle_commit ops s)"
| "handle ops field ScanSpentRecordsCommand s =
     (case scan_spent_keys ops field s of
        Ok keys \<Rightarrow> (SpentReply keys, s)
      | _ \<Rightarrow> (Closed, s\<lparr>rs_alive := False\<rparr>))"
| "handle ops field (ScanRecordsCommand from_key limit) s =
     (case scan_records limit (kv_iterator ops (rs_db_records s) from_key) [] None of
        (records, last_key) \<Rightarrow> (ScanReply records last_key, s))"

text \<open>A command sent to a thread that is gone is dropped with its reply channel.\<close>

definition serve :: "'db kv_ops \<Rightarrow> (string \<Rightarrow> 'f option) \<Rightarrow> command \<Rightarrow> 'db record_store \<Rightarrow> reply \<times> 'db record_store" where
  "serve ops field command s = (if rs_alive s then handle ops field command s else (Closed, s))"


section \<open>The methods of the store\<close>

fun result_reply :: "reply \<Rightarrow> unit result" where
  "result_reply (ResultReply r) = r"
| "result_reply _ = Err ChannelClosed"

fun bool_reply :: "reply \<Rightarrow> bool result" where
  "bool_reply (BoolReply b) = Ok b"
| "bool_reply _ = Err ChannelClosed"

definition add ::
  "'db kv_ops \<Rightarrow> ('f, 'er, 'tr, 'out) vm_backend \<Rightarrow> 'f \<Rightarrow> 'er \<Rightarrow> ('db record_store, unit) action" where
  "add ops vm commitment record s =
     map_prod result_reply id (serve ops (vm_field_from_string vm)
       (AddCommand (vm_field_to_string vm commitment) (vm_record_to_string vm record)) s)"

definition spend ::
  "'db kv_ops \<Rightarrow> ('f, 'er, 'tr, 'out) vm_backend \<Rightarrow> 'f \<Rightarrow> ('db record_store, unit) action" where
  "spend ops vm serial_number s =
     map_prod result_reply id (serve ops (vm_field_from_string vm)
       (SpendCommand (vm_field_to_string vm serial_number)) s)"

definition commit ::
  "'db kv_ops \<Rightarrow> ('f, 'er, 'tr, 'out) vm_backend \<Rightarrow> ('db record_store, unit) action" where
  "commit ops vm s =
     (if rs_alive s then (Ok (), snd (serve ops (vm_field_from_string vm) CommitCommand s))
      else (Err ChannelClosed, s))"

definition is_unspent ::
  "'db kv_ops \<Rightarrow> ('f, 'er, 'tr, 'out) vm_backend \<Rightarrow> 'f \<Rightarrow> ('db record_store, bool) action" where
  "is_unspent ops vm serial_number s =
     map_prod bool_reply id (serve ops (vm_field_from_string vm)
       (IsUnspentCommand (vm_field_to_string vm serial_number)) s)"

definition parse_entry ::
  "('f, 'er, 'tr, 'out) vm_backend \<Rightarrow> string \<times> string \<Rightarrow> ('f \<times> 'er) result" where
  "parse_entry vm entry =
     and_then (expect_some ''parse commitment'' (vm_field_from_string vm (fst entry))) (\<lambda>commitment.
     map_ok (\<lambda>record. (commitment, record))
       (expect_some ''parse record'' (vm_record_from_string vm (snd entry))))"

definition scan ::
  "'db kv_ops \<Rightarrow> ('f, 'er, 'tr, 'out) vm_backend \<Rightarrow> 'f option \<Rightarrow> nat option \<Rightarrow>
   ('db record_store, ('f \<times> 'er) list \<times> 'f option) action" where
  "scan ops vm from_key limit s =
     (case serve ops (vm_field_from_string vm)
        (ScanRecordsCommand (map_option (vm_field_to_string vm) from_key) limit) s of
        (ScanReply results last_key, s') \<Rightarrow>
          (and_then
             (case last_key of
                Some k \<Rightarrow> map_ok Some (expect_some ''parse commitment'' (vm_field_from_string vm k))
              | None \<Rightarrow> Ok None) (\<lambda>last.
           map_ok (\<lambda>records. (records, last)) (try_map (parse_entry vm) results)), s')
      | (_, s') \<Rightarrow> (Err ChannelClosed, s'))"

definition scan_spent ::
  "'db kv_ops \<Rightarrow> ('f, 'er, 'tr, 'out) vm_backend \<Rightarrow> ('db record_store, 'f list) action" where
  "scan_spent ops vm s =
     (case serve ops (vm_field_from_string vm) ScanSpentRecordsCommand s of
        (SpentReply keys, s') \<Rightarrow> (Ok (map (the \<circ> vm_field_from_string vm) keys), s')
      | (_, s') \<Rightarrow> (Err ChannelClosed, s'))"


section \<open>The contract with the application\<close>

text \<open>
  What the application needs of the store to spend the inputs of a transaction: whether a
  serial number can be spent, spending it, and adding an output. The laws hold for every
  database, also one whose lookups fail, because the buffer alone refuses a second spend.
\<close>

locale nullifier_store =
  fixes unspent :: "'s \<Rightarrow> 'n \<Rightarrow> bool"
    and spend_one :: "'n \<Rightarrow> ('s, unit) action"
    and add_one :: "'c \<Rightarrow> 'r \<Rightarrow> ('s, unit) action"
  assumes spend_unspent: "unspent s n \<Longrightarrow> \<exists>t. spend_one n s = (Ok (), t)"
    and spend_spent: "\<not> unspent s n \<Longrightarrow> \<exists>e. spend_one n s = (Err e, s)"
    and spend_effect: "spend_one n s = (Ok (), t) \<Longrightarrow> unspent t m = (unspent s m \<and> m \<noteq> n)"
    and add_effect: "add_one c r s = (res, t) \<Longrightarrow> unspent t m = unspent s m"
begin

lemma spend_Ok_iff: "(\<exists>t. spend_one n s = (Ok (), t)) \<longleftrightarrow> unspent s n"
  using spend_unspent spend_spent by fastforce

lemma spend_twice: "spend_one n s = (Ok (), t) \<Longrightarrow> \<exists>e. spend_one n t = (Err e, t)"
  using spend_effect spend_spent by blast

text \<open>Spending a list works exactly when its elements are distinct and all unspent.\<close>

lemma spend_list:
  "distinct ns \<Longrightarrow> (\<And>n. n \<in> set ns \<Longrightarrow> unspent s n) \<Longrightarrow>
   \<exists>t. act_each spend_one ns s = (Ok (), t) \<and> (\<forall>m. unspent t m = (unspent s m \<and> m \<notin> set ns))"
proof (induction ns arbitrary: s)
  case Nil
  then show ?case by simp
next
  case (Cons n ns)
  then obtain t where t: "spend_one n s = (Ok (), t)" using spend_unspent by fastforce
  have "unspent t m" if "m \<in> set ns" for m
    using spend_effect [OF t] Cons.prems that by auto
  with Cons.IH Cons.prems(1) obtain u where "act_each spend_one ns t = (Ok (), u)"
    and "\<forall>m. unspent u m = (unspent t m \<and> m \<notin> set ns)" by fastforce
  then show ?case using t spend_effect [OF t] by (auto simp: act_then_def)
qed

lemma spend_list_Ok:
  "act_each spend_one ns s = (Ok (), t) \<Longrightarrow>
   distinct ns \<and> (\<forall>n \<in> set ns. unspent s n) \<and> (\<forall>m. unspent t m = (unspent s m \<and> m \<notin> set ns))"
proof (induction ns arbitrary: s)
  case Nil
  then show ?case by simp
next
  case (Cons n ns)
  then obtain u where u: "spend_one n s = (Ok (), u)" and rest: "act_each spend_one ns u = (Ok (), t)"
    by (auto simp: act_then_Ok_iff)
  from Cons.IH [OF rest] spend_effect [OF u] show ?case
    using spend_Ok_iff [of n s] u by auto
qed

lemma add_list:
  "act_each (\<lambda>(c, r). add_one c r) crs s = (res, t) \<Longrightarrow> unspent t m = unspent s m"
  by (rule act_each_invariant [where I = "\<lambda>t. unspent t m = unspent s m"])
    (auto dest: add_effect)

end

text \<open>
  The record store provides it at the level of its keys, the texts of the fields.
\<close>

definition unspent_key :: "'db kv_ops \<Rightarrow> 'db record_store \<Rightarrow> string \<Rightarrow> bool" where
  "unspent_key ops s k \<longleftrightarrow> rs_alive s \<and> handle_is_unspent ops k s"

definition spend_key ::
  "'db kv_ops \<Rightarrow> (string \<Rightarrow> 'f option) \<Rightarrow> string \<Rightarrow> ('db record_store, unit) action" where
  "spend_key ops field k s = map_prod result_reply id (serve ops field (SpendCommand k) s)"

definition add_text ::
  "'db kv_ops \<Rightarrow> (string \<Rightarrow> 'f option) \<Rightarrow> string \<Rightarrow> string \<Rightarrow> ('db record_store, unit) action" where
  "add_text ops field k r s = map_prod result_reply id (serve ops field (AddCommand k r) s)"

lemma spend_as_key: "spend ops vm n = spend_key ops (vm_field_from_string vm) (vm_field_to_string vm n)"
  by (simp add: spend_def spend_key_def fun_eq_iff)

lemma add_as_text:
  "add ops vm cm r = add_text ops (vm_field_from_string vm) (vm_field_to_string vm cm) (vm_record_to_string vm r)"
  by (simp add: add_def add_text_def fun_eq_iff)

lemma is_unspent_eq:
  "is_unspent ops vm n s =
     (if rs_alive s then Ok (unspent_key ops s (vm_field_to_string vm n)) else Err ChannelClosed, s)"
  by (simp add: is_unspent_def serve_def unspent_key_def)

lemma spend_key_eq:
  "spend_key ops field k s =
     (if unspent_key ops s k
      then (Ok (), s\<lparr>rs_spent_buffer := hm_insert k ''1'' (rs_spent_buffer s)\<rparr>)
      else (Err (if rs_alive s then RecordAlreadySpent else ChannelClosed), s))"
  by (auto simp: spend_key_def serve_def unspent_key_def handle_spend_def handle_is_unspent_def)

lemma add_text_eq:
  "add_text ops field k r s =
     (if \<not> rs_alive s then (Err ChannelClosed, s) else handle_add ops k r s)"
  by (auto simp: add_text_def serve_def handle_add_def)

lemma hm_contains_insert [simp]: "hm_contains (hm_insert k v m) x \<longleftrightarrow> x = k \<or> hm_contains m x"
  by (simp add: hm_contains_def)

interpretation key_store: nullifier_store "unspent_key ops" "spend_key ops field" "add_text ops field"
  for ops :: "'db kv_ops" and field :: "string \<Rightarrow> 'f option"
  by unfold_locales
    (auto simp: spend_key_eq add_text_eq handle_add_def unspent_key_def handle_is_unspent_def
      split: if_splits)


lemma working_exists: "kv_working ops contents \<Longrightarrow> key_exists_or_fails ops db k \<longleftrightarrow> contents db k \<noteq> None"
  by (auto simp: key_exists_or_fails_def working_get)

lemmas reliable_exists = working_exists [OF reliable_working]


section \<open>The store invariant and the effect of a commit\<close>

definition rs_inv :: "'db record_store \<Rightarrow> bool" where
  "rs_inv s \<longleftrightarrow> hm_ok (rs_record_buffer s) \<and> hm_ok (rs_spent_buffer s)"

lemma rs_inv_new: "rs_inv (new_record_store db_records db_spent)"
  by (simp add: rs_inv_def new_record_store_def)

lemma rs_inv_handle: "rs_inv s \<Longrightarrow> rs_inv (snd (handle ops field c s))"
  by (cases c)
    (auto simp: rs_inv_def handle_add_def handle_spend_def handle_commit_def split: result.splits prod.splits)

lemma rs_inv_serve: "rs_inv s \<Longrightarrow> rs_inv (snd (serve ops field c s))"
  by (simp add: serve_def rs_inv_handle)

text \<open>The serial numbers that are known to be spent, in the database or in the buffer.\<close>

definition spent_keys :: "('db \<Rightarrow> string \<Rightarrow> string option) \<Rightarrow> 'db record_store \<Rightarrow> string set" where
  "spent_keys contents s = dom (contents (rs_db_spent s)) \<union> fst ` set (rs_spent_buffer s)"

definition spent_write_ok :: "'db kv_ops \<Rightarrow> command \<Rightarrow> 'db record_store \<Rightarrow> bool" where
  "spent_write_ok ops c s \<longleftrightarrow>
     (c = CommitCommand \<longrightarrow> fst (kv_write ops (rs_db_spent s) (rs_spent_buffer s)))"

lemma dom_map_add_rev: "dom (m ++ map_of (rev b)) = dom m \<union> fst ` set b"
  by (simp add: dom_map_of_conv_image_fst Un_commute)

lemma spent_keys_handle:
  assumes "kv_laws ops contents" and "spent_write_ok ops c s"
  shows "spent_keys contents s \<subseteq> spent_keys contents (snd (handle ops field c s))"
proof (cases c)
  case CommitCommand
  with assms show ?thesis
    by (simp add: spent_keys_def spent_write_ok_def handle_commit_def kv_write_contents dom_map_add_rev
        del: dom_map_add)
qed (auto simp: spent_keys_def handle_add_def handle_spend_def split: result.splits prod.splits)

lemma handle_spend_known:
  assumes "kv_laws ops contents" and "k \<in> spent_keys contents s"
  shows "handle_spend ops k s = (Err RecordAlreadySpent, s)"
proof -
  have "key_exists_or_fails ops (rs_db_spent s) k \<or> hm_contains (rs_spent_buffer s) k"
    using assms(2) key_present [OF assms(1), of "rs_db_spent s" k]
    by (auto simp: spent_keys_def hm_contains_iff)
  then show ?thesis by (simp add: handle_spend_def)
qed

lemma handle_spend_Ok:
  assumes "kv_laws ops contents" and "handle_spend ops k s = (Ok (), t)"
  shows "k \<notin> spent_keys contents s \<and> spent_keys contents t = insert k (spent_keys contents s)"
proof
  show "k \<notin> spent_keys contents s"
    using handle_spend_known [OF assms(1), of k s] assms(2) by auto
  show "spent_keys contents t = insert k (spent_keys contents s)"
  proof -
    have "t = s\<lparr>rs_spent_buffer := hm_insert k ''1'' (rs_spent_buffer s)\<rparr>"
      using assms(2) by (simp add: handle_spend_def split: if_splits)
    then show ?thesis by (simp add: spent_keys_def)
  qed
qed


section \<open>Histories of commands\<close>

fun run_commands ::
  "'db kv_ops \<Rightarrow> (string \<Rightarrow> 'f option) \<Rightarrow> command list \<Rightarrow> 'db record_store \<Rightarrow> reply list \<times> 'db record_store" where
  "run_commands ops field [] s = ([], s)"
| "run_commands ops field (c # cs) s =
     (case serve ops field c s of (r, t) \<Rightarrow>
      case run_commands ops field cs t of (rs, u) \<Rightarrow> (r # rs, u))"

lemma run_commands_append:
  "run_commands ops field (cs @ ds) s =
     (case run_commands ops field cs s of (rs, t) \<Rightarrow>
      case run_commands ops field ds t of (qs, u) \<Rightarrow> (rs @ qs, u))"
  by (induction cs arbitrary: s) (auto split: prod.splits)

text \<open>How often a history spends one serial number with success.\<close>

fun successful_spends :: "string \<Rightarrow> command list \<Rightarrow> reply list \<Rightarrow> nat" where
  "successful_spends k (c # cs) (r # rs) =
     (if c = SpendCommand k \<and> r = ResultReply (Ok ()) then 1 else 0) + successful_spends k cs rs"
| "successful_spends k _ _ = 0"

text \<open>Every commit of the history managed to write the spent serial numbers.\<close>

fun commits_written ::
  "'db kv_ops \<Rightarrow> (string \<Rightarrow> 'f option) \<Rightarrow> command list \<Rightarrow> 'db record_store \<Rightarrow> bool" where
  "commits_written ops field [] s = True"
| "commits_written ops field (c # cs) s =
     (spent_write_ok ops c s \<and> commits_written ops field cs (snd (serve ops field c s)))"

lemma spent_keys_serve:
  "kv_laws ops contents \<Longrightarrow> spent_write_ok ops c s \<Longrightarrow>
   spent_keys contents s \<subseteq> spent_keys contents (snd (serve ops field c s))"
  by (simp add: serve_def spent_keys_handle)

lemma serve_spend_Ok:
  assumes "serve ops field (SpendCommand k) s = (ResultReply (Ok ()), t)"
  shows "handle_spend ops k s = (Ok (), t)"
  using assms by (cases "handle_spend ops k s") (auto simp: serve_def split: if_splits)

lemma run_commands_Cons:
  "serve ops field c s = (r, t) \<Longrightarrow> run_commands ops field (c # cs) s =
     (r # fst (run_commands ops field cs t), snd (run_commands ops field cs t))"
  by (simp add: case_prod_unfold)

declare run_commands.simps(2) [simp del]

lemma spent_once:
  assumes "kv_laws ops contents" and "commits_written ops field cs s" and "k \<in> spent_keys contents s"
  shows "successful_spends k cs (fst (run_commands ops field cs s)) = 0"
  using assms(2,3)
proof (induction cs arbitrary: s)
  case Nil
  then show ?case by simp
next
  case (Cons c cs)
  obtain r t where rt: "serve ops field c s = (r, t)" by force
  have "k \<in> spent_keys contents t"
    using spent_keys_serve [OF assms(1), of c s field] Cons.prems rt by auto
  moreover have "\<not> (c = SpendCommand k \<and> r = ResultReply (Ok ()))"
    using rt serve_spend_Ok [of ops field k s t] handle_spend_known [OF assms(1) Cons.prems(2)] by auto
  ultimately show ?case
    using Cons.IH [of t] Cons.prems(1) rt by (simp add: run_commands_Cons)
qed

lemma spends_at_most_once:
  assumes "kv_laws ops contents" and "commits_written ops field cs s"
  shows "successful_spends k cs (fst (run_commands ops field cs s)) \<le> 1"
  using assms(2)
proof (induction cs arbitrary: s)
  case Nil
  then show ?case by simp
next
  case (Cons c cs)
  obtain r t where rt: "serve ops field c s = (r, t)" by force
  show ?case
  proof (cases "c = SpendCommand k \<and> r = ResultReply (Ok ())")
    case True
    with rt serve_spend_Ok [of ops field k s t] have "k \<in> spent_keys contents t"
      using handle_spend_Ok [OF assms(1)] by auto
    with spent_once [OF assms(1), of field cs t k] Cons.prems rt show ?thesis
      by (simp add: run_commands_Cons)
  next
    case False
    with Cons.IH [of t] Cons.prems rt show ?thesis by (auto simp: run_commands_Cons)
  qed
qed


section \<open>The channel\<close>

text \<open>
  Senders append to the queue of the channel, the thread takes the head, handles it and
  replies. A commit returns before it is handled, so commands queue up behind it. The log of
  what was sent and the replies are kept to state the property.
\<close>

record 'db channel =
  ch_server :: "'db record_store"
  ch_queue :: "command list"
  ch_sent :: "command list"
  ch_replies :: "reply list"

datatype channel_event = Send command | Receive

inductive channel_step ::
  "'db kv_ops \<Rightarrow> (string \<Rightarrow> 'f option) \<Rightarrow> 'db channel \<Rightarrow> channel_event \<Rightarrow> 'db channel \<Rightarrow> bool"
  for ops :: "'db kv_ops" and field :: "string \<Rightarrow> 'f option" where
  channel_send: "rs_alive (ch_server ch) \<Longrightarrow>
     channel_step ops field ch (Send c)
       (ch\<lparr>ch_queue := ch_queue ch @ [c], ch_sent := ch_sent ch @ [c]\<rparr>)"
| channel_receive: "ch_queue ch = c # cs \<Longrightarrow> serve ops field c (ch_server ch) = (r, s) \<Longrightarrow>
     channel_step ops field ch Receive
       (ch\<lparr>ch_server := s, ch_queue := cs, ch_replies := ch_replies ch @ [r]\<rparr>)"

inductive_cases channel_stepE: "channel_step ops field ch e ch'"

definition channel_init :: "'db record_store \<Rightarrow> 'db channel \<Rightarrow> bool" where
  "channel_init s ch \<longleftrightarrow> ch = \<lparr>ch_server = s, ch_queue = [], ch_sent = [], ch_replies = []\<rparr>"

definition channel_inv ::
  "'db kv_ops \<Rightarrow> (string \<Rightarrow> 'f option) \<Rightarrow> 'db record_store \<Rightarrow> 'db channel \<Rightarrow> bool" where
  "channel_inv ops field s ch \<longleftrightarrow>
     (\<exists>served. ch_sent ch = served @ ch_queue ch
        \<and> run_commands ops field served s = (ch_replies ch, ch_server ch))"

lemma channel_inv_step:
  assumes "channel_inv ops field s ch" and "channel_step ops field ch e ch'"
  shows "channel_inv ops field s ch'"
  using assms(2)
proof (cases rule: channel_step.cases)
  case (channel_send c)
  then show ?thesis using assms(1) by (auto simp: channel_inv_def)
next
  case (channel_receive c cs r t)
  from assms(1) obtain served where "ch_sent ch = served @ ch_queue ch"
    and "run_commands ops field served s = (ch_replies ch, ch_server ch)"
    by (auto simp: channel_inv_def)
  with channel_receive show ?thesis
    by (auto simp: channel_inv_def run_commands_append run_commands_Cons intro!: exI [of _ "served @ [c]"])
qed

interpretation channel_machine: machine_invariant "channel_init s" "channel_step ops field"
  "channel_inv ops field s"
  for ops :: "'db kv_ops" and field :: "string \<Rightarrow> 'f option" and s :: "'db record_store"
  by unfold_locales
    (auto simp: channel_init_def channel_inv_def intro: channel_inv_step [unfolded channel_inv_def])


section \<open>Scans\<close>

definition at_most :: "nat option \<Rightarrow> nat \<Rightarrow> 'a list \<Rightarrow> 'a list" where
  "at_most limit n xs = (case limit of None \<Rightarrow> xs | Some l \<Rightarrow> take (l - n) xs)"

lemma at_most_Nil [simp]: "at_most limit n [] = []"
  by (simp add: at_most_def split: option.splits)

lemma at_most_None [simp]: "at_most None n xs = xs"
  by (simp add: at_most_def)

lemma at_most_Cons:
  "at_most limit n (x # xs) =
     (if (case limit of Some l \<Rightarrow> l \<le> n | None \<Rightarrow> False) then [] else x # at_most limit (Suc n) xs)"
  by (auto simp: at_most_def take_Cons' split: option.splits)

text \<open>The records are the good items up to the limit, the last key is the key of the last one.\<close>

lemma scan_records_eq:
  "scan_records limit items records last_key =
     (let new = at_most limit (length records) (ok_items items)
      in (records @ new, if new = [] then last_key else Some (fst (last new))))"
proof (induction items arbitrary: records last_key)
  case Nil
  then show ?case by simp
next
  case (Cons item items)
  show ?case
  proof (cases item)
    case (Inl e)
    with Cons.IH show ?thesis by (auto simp: at_most_def split: option.splits)
  next
    case (Inr kr)
    with Cons.IH show ?thesis by (cases kr) (auto simp: at_most_Cons Let_def)
  qed
qed

lemma set_ok_items: "set (ok_items items) = {a. Inr a \<in> set items}"
  by (induction items rule: ok_items.induct) auto

text \<open>A store whose databases hold printed values only, what its own commands write.\<close>

definition printed ::
  "('f, 'er, 'tr, 'out) vm_backend \<Rightarrow> (string \<Rightarrow> string option) \<Rightarrow> bool" where
  "printed vm m \<longleftrightarrow> (\<forall>k v. m k = Some v \<longrightarrow>
     vm_field_from_string vm k \<noteq> None \<and> vm_record_from_string vm v \<noteq> None)"

text \<open>The records a map of printed values stands for.\<close>

definition parsed ::
  "('f, 'er, 'tr, 'out) vm_backend \<Rightarrow> (string \<Rightarrow> string option) \<Rightarrow> ('f \<times> 'er) set" where
  "parsed vm m =
     {(the (vm_field_from_string vm k), the (vm_record_from_string vm v)) | k v. m k = Some v}"

lemma parsed_insert:
  assumes "m k = None"
  shows "parsed vm (m(k \<mapsto> v)) =
    insert (the (vm_field_from_string vm k), the (vm_record_from_string vm v)) (parsed vm m)"
proof -
  have entry: "(\<exists>k' v'. x = g k' v' \<and> (m(k \<mapsto> v)) k' = Some v') \<longleftrightarrow> x = g k v \<or> (\<exists>k' v'. x = g k' v' \<and> m k' = Some v')"
    for x :: "'f \<times> 'er" and g
    using assms by (metis fun_upd_apply option.distinct(1) option.inject)
  show ?thesis
    unfolding parsed_def by (rule set_eqI, unfold mem_Collect_eq insert_iff, rule entry)
qed

lemma parse_entry_printed:
  "vm_field_from_string vm k \<noteq> None \<Longrightarrow> vm_record_from_string vm v \<noteq> None \<Longrightarrow>
   parse_entry vm (k, v) = Ok (the (vm_field_from_string vm k), the (vm_record_from_string vm v))"
  by (auto simp: parse_entry_def)

lemma try_map_Ok: "(\<And>x. x \<in> set xs \<Longrightarrow> f x = Ok (g x)) \<Longrightarrow> try_map f xs = Ok (map g xs)"
  by (induction xs) auto

lemma scan_all:
  assumes "kv_laws ops contents" and "rs_alive s" and "printed vm (contents (rs_db_records s))"
    and "list_all (\<lambda>item. \<not> isl item) (kv_iterator ops (rs_db_records s) None)"
  shows "\<exists>records last. scan ops vm None None s = (Ok (records, last), s)
    \<and> set records = parsed vm (contents (rs_db_records s))"
proof -
  let ?items = "ok_items (kv_iterator ops (rs_db_records s) None)"
  let ?p = "\<lambda>(k, v). (the (vm_field_from_string vm k), the (vm_record_from_string vm v))"
  have items: "(k, v) \<in> set ?items \<longleftrightarrow> contents (rs_db_records s) k = Some v" for k v
    unfolding set_ok_items mem_Collect_eq
    by (rule iffI) (erule kv_iterator_sound [OF assms(1)], erule kv_iterator_complete [OF assms(1) _ assms(4)])
  define last where "last = (if ?items = [] then None else Some (fst (List.last ?items)))"
  have scan: "scan_records None (kv_iterator ops (rs_db_records s) None) [] None = (?items, last)"
    by (simp add: scan_records_eq last_def Let_def)
  have printed_item: "vm_field_from_string vm k \<noteq> None \<and> vm_record_from_string vm v \<noteq> None"
    if "(k, v) \<in> set ?items" for k v
    using that assms(3) unfolding items printed_def by blast
  have parse: "try_map (parse_entry vm) ?items = Ok (map ?p ?items)"
    using printed_item by (intro try_map_Ok) (auto simp: parse_entry_printed)
  have "\<exists>l. (case last of Some k \<Rightarrow> map_ok Some (expect_some ''parse commitment'' (vm_field_from_string vm k))
      | None \<Rightarrow> Ok None) = Ok l"
    using printed_item [of "fst (List.last ?items)" "snd (List.last ?items)"] by (auto simp: last_def)
  then have "\<exists>l. scan ops vm None None s = (Ok (map ?p ?items, l), s)"
    using assms(2) scan parse by (auto simp: scan_def serve_def)
  moreover have "set (map ?p ?items) = parsed vm (contents (rs_db_records s))"
    unfolding set_map parsed_def items [symmetric] by force
  ultimately show ?thesis by auto
qed

lemma commit_eq:
  "rs_alive s \<Longrightarrow> commit ops vm s = (Ok (), handle_commit ops s)"
  by (simp add: commit_def serve_def)

lemma committed_records:
  assumes "kv_laws ops contents" and "rs_inv s" and "fst (kv_write ops (rs_db_records s) (rs_record_buffer s))"
  shows "contents (rs_db_records (handle_commit ops s)) = contents (rs_db_records s) ++ map_of (rs_record_buffer s)"
  using assms by (simp add: handle_commit_def kv_write_contents rs_inv_def map_of_rev_ok)

lemma committed_spent:
  assumes "kv_laws ops contents" and "rs_inv s" and "fst (kv_write ops (rs_db_spent s) (rs_spent_buffer s))"
  shows "contents (rs_db_spent (handle_commit ops s)) = contents (rs_db_spent s) ++ map_of (rs_spent_buffer s)"
  using assms by (simp add: handle_commit_def kv_write_contents rs_inv_def map_of_rev_ok)


section \<open>The store as an abstract machine\<close>

text \<open>
  What a user of the store sees: the records that are known and those that a scan returns,
  the serial numbers that are spent and those that a scan returns. A commit makes what is
  known visible to the scans.
\<close>

record abstract_store =
  ab_known :: "string \<Rightarrow> string option"
  ab_stored :: "string \<Rightarrow> string option"
  ab_spent :: "string set"
  ab_spent_stored :: "string set"

definition abstract :: "('db \<Rightarrow> string \<Rightarrow> string option) \<Rightarrow> 'db record_store \<Rightarrow> abstract_store" where
  "abstract contents s =
     \<lparr>ab_known = contents (rs_db_records s) ++ map_of (rs_record_buffer s),
      ab_stored = contents (rs_db_records s),
      ab_spent = spent_keys contents s, ab_spent_stored = dom (contents (rs_db_spent s))\<rparr>"

fun abstract_step :: "command \<Rightarrow> abstract_store \<Rightarrow> abstract_store" where
  "abstract_step (AddCommand k r) a =
     (if ab_known a k = None then a\<lparr>ab_known := (ab_known a)(k \<mapsto> r)\<rparr> else a)"
| "abstract_step (SpendCommand k) a = a\<lparr>ab_spent := insert k (ab_spent a)\<rparr>"
| "abstract_step CommitCommand a = a\<lparr>ab_stored := ab_known a, ab_spent_stored := ab_spent a\<rparr>"
| "abstract_step _ a = a"

text \<open>
  The replies. The law of the database says nothing of an iteration that starts at a key, so of
  such a scan only the number of records is specified.
\<close>

fun abstract_reply :: "command \<Rightarrow> abstract_store \<Rightarrow> reply \<Rightarrow> bool" where
  "abstract_reply (AddCommand k r) a q \<longleftrightarrow>
     q = ResultReply (if ab_known a k = None then Ok () else Err (RecordExists k))"
| "abstract_reply (SpendCommand k) a q \<longleftrightarrow>
     q = ResultReply (if k \<in> ab_spent a then Err RecordAlreadySpent else Ok ())"
| "abstract_reply (IsUnspentCommand k) a q \<longleftrightarrow> q = BoolReply (k \<notin> ab_spent a)"
| "abstract_reply CommitCommand a q \<longleftrightarrow> q = NoReply"
| "abstract_reply ScanSpentRecordsCommand a q \<longleftrightarrow> (\<exists>keys. q = SpentReply keys \<and> set keys = ab_spent_stored a)"
| "abstract_reply (ScanRecordsCommand from_key limit) a q \<longleftrightarrow>
     (\<exists>records last_key. q = ScanReply records last_key
        \<and> (case limit of Some l \<Rightarrow> length records \<le> l | None \<Rightarrow> True)
        \<and> (from_key = None \<longrightarrow> (\<forall>(k, r) \<in> set records. ab_stored a k = Some r))
        \<and> (from_key = None \<and> limit = None \<longrightarrow> (\<forall>k r. ab_stored a k = Some r \<longrightarrow> (k, r) \<in> set records)))"

fun abstract_replies :: "command list \<Rightarrow> abstract_store \<Rightarrow> reply list \<Rightarrow> bool" where
  "abstract_replies [] a qs \<longleftrightarrow> qs = []"
| "abstract_replies (c # cs) a [] \<longleftrightarrow> False"
| "abstract_replies (c # cs) a (q # qs) \<longleftrightarrow> abstract_reply c a q \<and> abstract_replies cs (abstract_step c a) qs"

text \<open>Serial numbers are printed fields; one that does not parse would kill the thread in a scan.\<close>

fun spend_parses :: "(string \<Rightarrow> 'f option) \<Rightarrow> command \<Rightarrow> bool" where
  "spend_parses field (SpendCommand k) \<longleftrightarrow> field k \<noteq> None"
| "spend_parses field _ \<longleftrightarrow> True"

definition serving ::
  "(string \<Rightarrow> 'f option) \<Rightarrow> ('db \<Rightarrow> string \<Rightarrow> string option) \<Rightarrow> 'db record_store \<Rightarrow> bool" where
  "serving field contents s \<longleftrightarrow> rs_alive s \<and> rs_inv s \<and> (\<forall>k \<in> spent_keys contents s. field k \<noteq> None)"

lemma spent_keys_insert:
  "spent_keys contents (s\<lparr>rs_spent_buffer := hm_insert k v (rs_spent_buffer s)\<rparr>) = insert k (spent_keys contents s)"
proof -
  have "fst ` set (hm_insert k v m) = insert k (fst ` set m)" for m :: "(string, string) hash_map"
    using dom_map_of_conv_image_fst [of "hm_insert k v m"] by (simp add: dom_map_of_conv_image_fst)
  then show ?thesis by (simp add: spent_keys_def)
qed

lemma known_record:
  "kv_working ops contents \<Longrightarrow> hm_contains (rs_record_buffer s) k \<or> key_exists_or_fails ops (rs_db_records s) k
     \<longleftrightarrow> ab_known (abstract contents s) k \<noteq> None"
  by (auto simp: abstract_def working_exists hm_contains_def)

lemma spent_number:
  "kv_working ops contents \<Longrightarrow> key_exists_or_fails ops (rs_db_spent s) k \<or> hm_contains (rs_spent_buffer s) k
     \<longleftrightarrow> k \<in> spent_keys contents s"
  by (auto simp: spent_keys_def working_exists hm_contains_iff)

lemma set_iterated:
  assumes "kv_laws ops contents" and "kv_iterates ops"
  shows "(k, v) \<in> set (ok_items (kv_iterator ops db None)) \<longleftrightarrow> contents db k = Some v"
proof -
  have "list_all (\<lambda>item. \<not> isl item) (kv_iterator ops db None)" using assms(2) by (simp add: kv_iterates_def)
  then show ?thesis
    unfolding set_ok_items mem_Collect_eq
    by (intro iffI) (erule kv_iterator_sound [OF assms(1)], erule kv_iterator_complete [OF assms(1)])
qed

lemma handle_commit_abstract:
  assumes "kv_working ops contents" and "rs_inv s"
  shows "abstract contents (handle_commit ops s) = abstract_step CommitCommand (abstract contents s)"
proof -
  have "contents (rs_db_records (handle_commit ops s)) = contents (rs_db_records s) ++ map_of (rs_record_buffer s)"
    and spent: "contents (rs_db_spent (handle_commit ops s)) = contents (rs_db_spent s) ++ map_of (rs_spent_buffer s)"
    using assms committed_records [OF working_laws [OF assms(1)] assms(2)] committed_spent [OF working_laws [OF assms(1)] assms(2)]
    by (simp_all add: kv_working_def)
  moreover have "rs_record_buffer (handle_commit ops s) = rs_record_buffer s" "rs_spent_buffer (handle_commit ops s) = []"
    by (simp_all add: handle_commit_def)
  moreover have twice: "m ++ n ++ n = m ++ n" for m n :: "string \<rightharpoonup> string"
    by (simp add: fun_eq_iff map_add_def split: option.split)
  ultimately show ?thesis
    by (simp add: abstract_def spent_keys_def dom_map_of_conv_image_fst Un_commute twice)
qed

lemma scan_spent_keys_Ok:
  assumes "kv_laws ops contents" and "kv_iterates ops" and "\<forall>k \<in> dom (contents (rs_db_spent s)). field k \<noteq> None"
  shows "\<exists>keys. scan_spent_keys ops field s = Ok keys \<and> set keys = dom (contents (rs_db_spent s))"
proof -
  let ?items = "ok_items (kv_iterator ops (rs_db_spent s) None)"
  note items = set_iterated [OF assms(1,2), of _ _ "rs_db_spent s"]
  have "map_ok (\<lambda>_. k) (expect_some ''parse serial number'' (field k)) = Ok k" if "(k, v) \<in> set ?items" for k v
    using bspec [OF assms(3) domI, OF that [unfolded items]] by auto
  then have "scan_spent_keys ops field s = Ok (map fst ?items)"
    unfolding scan_spent_keys_def by (intro try_map_Ok) auto
  moreover have "set (map fst ?items) = dom (contents (rs_db_spent s))"
    using items by (force simp: dom_def)
  ultimately show ?thesis by blast
qed

text \<open>One command: its reply and its effect are those of the abstract machine.\<close>

lemma serve_refines:
  assumes works: "kv_working ops contents" "kv_iterates ops" and s: "serving field contents s"
    and c: "spend_parses field c" and run: "serve ops field c s = (q, t)"
  shows "abstract_reply c (abstract contents s) q \<and> abstract contents t = abstract_step c (abstract contents s)
    \<and> serving field contents t"
proof -
  have alive: "rs_alive s" and inv: "rs_inv s" and fields: "\<forall>k \<in> spent_keys contents s. field k \<noteq> None"
    using s by (simp_all add: serving_def)
  note known = known_record [OF works(1), of s] and spent = spent_number [OF works(1), of s]
  have inv_t: "rs_inv t" using rs_inv_serve [OF inv, of ops field c] run by simp
  have handled: "handle ops field c s = (q, t)" using run alive by (simp add: serve_def)
  show ?thesis
  proof (cases c)
    case (AddCommand k r)
    have "spent_keys contents t = spent_keys contents s" "rs_alive t"
      using handled alive AddCommand by (auto simp: handle_add_def spent_keys_def split: if_splits)
    then have "serving field contents t" using inv_t fields by (simp add: serving_def)
    moreover have "q = ResultReply (if ab_known (abstract contents s) k = None then Ok () else Err (RecordExists k))
        \<and> abstract contents t = abstract_step c (abstract contents s)"
    proof (cases "ab_known (abstract contents s) k")
      case None
      then have "q = ResultReply (Ok ())" "t = s\<lparr>rs_record_buffer := hm_insert k r (rs_record_buffer s)\<rparr>"
        using handled known [of k] AddCommand by (simp_all add: handle_add_def)
      then show ?thesis using None AddCommand by (simp add: abstract_def spent_keys_def)
    next
      case (Some v)
      then have "q = ResultReply (Err (RecordExists k))" "t = s"
        using handled known [of k] AddCommand by (simp_all add: handle_add_def)
      then show ?thesis using Some AddCommand by simp
    qed
    ultimately show ?thesis using AddCommand by simp
  next
    case (SpendCommand k)
    show ?thesis
    proof (cases "k \<in> spent_keys contents s")
      case True
      then have "q = ResultReply (Err RecordAlreadySpent)" "t = s"
        using handled spent [of k] SpendCommand by (simp_all add: handle_spend_def)
      then show ?thesis using True SpendCommand s by (simp add: abstract_def insert_absorb)
    next
      case False
      then have q: "q = ResultReply (Ok ())" and t: "t = s\<lparr>rs_spent_buffer := hm_insert k ''1'' (rs_spent_buffer s)\<rparr>"
        using handled spent [of k] SpendCommand by (simp_all add: handle_spend_def)
      have "serving field contents t"
        using inv_t alive fields c SpendCommand by (simp add: serving_def t spent_keys_insert)
      moreover have "abstract contents t = (abstract contents s)\<lparr>ab_spent := insert k (spent_keys contents s)\<rparr>"
        by (simp add: abstract_def t spent_keys_insert)
      moreover have "abstract_step c (abstract contents s) = (abstract contents s)\<lparr>ab_spent := insert k (spent_keys contents s)\<rparr>"
        using SpendCommand by (simp add: abstract_def)
      ultimately show ?thesis using False SpendCommand q by (simp add: abstract_def [of contents s])
    qed
  next
    case (IsUnspentCommand k)
    then show ?thesis using handled spent [of k] s by (auto simp: handle_is_unspent_def abstract_def)
  next
    case CommitCommand
    then have t: "t = handle_commit ops s" "q = NoReply" using handled by simp_all
    note abstract_t = handle_commit_abstract [OF works(1) inv, folded t(1)]
    then have "spent_keys contents t = spent_keys contents s" by (simp add: abstract_def)
    moreover have "rs_alive t" using alive by (simp add: t(1) handle_commit_def)
    ultimately have "serving field contents t" using inv_t fields by (simp add: serving_def)
    then show ?thesis using abstract_t t(2) CommitCommand by simp
  next
    case ScanSpentRecordsCommand
    have "\<forall>k \<in> dom (contents (rs_db_spent s)). field k \<noteq> None" using fields by (simp add: spent_keys_def)
    from scan_spent_keys_Ok [OF working_laws [OF works(1)] works(2) this] show ?thesis
      using handled s ScanSpentRecordsCommand by (auto simp: abstract_def)
  next
    case (ScanRecordsCommand from_key limit)
    let ?items = "ok_items (kv_iterator ops (rs_db_records s) from_key)"
    have items: "(k, v) \<in> set ?items \<longleftrightarrow> contents (rs_db_records s) k = Some v" if "from_key = None" for k v
      using set_iterated [OF working_laws [OF works(1)] works(2)] that by simp
    have "t = s" "\<exists>last_key. q = ScanReply (at_most limit 0 ?items) last_key"
      using handled ScanRecordsCommand by (auto simp: scan_records_eq Let_def)
    moreover have "set (at_most limit 0 ?items) \<subseteq> set ?items"
      by (auto simp: at_most_def split: option.splits dest: in_set_takeD)
    ultimately show ?thesis
      using s items ScanRecordsCommand by (fastforce simp: abstract_def at_most_def split: option.splits)
  qed
qed

lemma run_commands_refines:
  assumes "kv_working ops contents" and "kv_iterates ops"
    and "serving field contents s" and "list_all (spend_parses field) cs" and "run_commands ops field cs s = (qs, t)"
  shows "abstract_replies cs (abstract contents s) qs \<and> abstract contents t = fold abstract_step cs (abstract contents s)
    \<and> serving field contents t"
  using assms(3-5)
proof (induction cs arbitrary: s qs)
  case (Cons c cs)
  obtain q u where q: "serve ops field c s = (q, u)" by force
  with Cons.prems(3) obtain rest where qs: "qs = q # rest" and run: "run_commands ops field cs u = (rest, t)"
    by (cases "run_commands ops field cs u") (simp add: run_commands_Cons)
  have one: "abstract_reply c (abstract contents s) q" "abstract contents u = abstract_step c (abstract contents s)"
    "serving field contents u"
    using serve_refines [OF assms(1,2) Cons.prems(1) _ q] Cons.prems(2) by simp_all
  from Cons.IH [OF one(3) _ run] Cons.prems(2) one show ?case by (simp add: qs)
qed simp

text \<open>Without further sends the server empties the queue.\<close>

lemma channel_drains:
  assumes "reachable (channel_init s) (channel_step ops field) ch"
  shows "\<exists>ch'. ((\<lambda>c c'. channel_step ops field c Receive c') ^^ length (ch_queue ch)) ch ch'
    \<and> reachable (channel_init s) (channel_step ops field) ch' \<and> ch_queue ch' = [] \<and> ch_sent ch' = ch_sent ch"
  using assms
proof (induction "ch_queue ch" arbitrary: ch)
  case Nil
  then show ?case by auto
next
  case (Cons c cs)
  obtain r t where "serve ops field c (ch_server ch) = (r, t)" by force
  then have step: "channel_step ops field ch Receive
      (ch\<lparr>ch_server := t, ch_queue := cs, ch_replies := ch_replies ch @ [r]\<rparr>)" (is "channel_step _ _ _ _ ?u")
    using Cons.hyps(2) by (intro channel_receive) simp_all
  from Cons.hyps(1) [of ?u] reachable_step [OF Cons.prems step] obtain ch' where
    "((\<lambda>c c'. channel_step ops field c Receive c') ^^ length cs) ?u ch'"
    and drained: "reachable (channel_init s) (channel_step ops field) ch'" "ch_queue ch' = []" "ch_sent ch' = ch_sent ch"
    by auto
  with step have "((\<lambda>c c'. channel_step ops field c Receive c') ^^ Suc (length cs)) ch ch'"
    by (intro relpowp_Suc_I2)
  with drained show ?case unfolding Cons.hyps(2) [symmetric] by (intro exI [of _ ch']) simp
qed


section \<open>Properties\<close>

text \<open>No double spend: whatever sequence of commands the store handles, from any state, one
  serial number is spent with success at most once, as long as every commit manages to write
  the spent serial numbers (lookups may fail at any time).\<close>
theorem no_double_spend:
  assumes "kv_laws ops contents" and "commits_written ops field cs s"
  shows "successful_spends k cs (fst (run_commands ops field cs s)) \<le> 1"
  using assms by (rule spends_at_most_once)

text \<open>C30. A failed write breaks it: the commit clears the buffer of spent serial numbers also
  when the database refused the batch, so the same serial number is spent a second time.\<close>
theorem failed_commit_forgets_spends:
  assumes "kv_laws ops contents" and "rs_alive s" and "unspent_key ops s k"
    and "kv_write ops (rs_db_spent s) (hm_insert k ''1'' (rs_spent_buffer s)) = (False, rs_db_spent s)"
  shows "successful_spends k [SpendCommand k, CommitCommand, SpendCommand k]
    (fst (run_commands ops field [SpendCommand k, CommitCommand, SpendCommand k] s)) = 2"
proof -
  let ?s1 = "s\<lparr>rs_spent_buffer := hm_insert k ''1'' (rs_spent_buffer s)\<rparr>"
  let ?s2 = "handle_commit ops ?s1"
  let ?s3 = "?s2\<lparr>rs_spent_buffer := hm_insert k ''1'' []\<rparr>"
  have free: "\<not> key_exists_or_fails ops (rs_db_spent s) k" "\<not> hm_contains (rs_spent_buffer s) k"
    using assms(3) by (simp_all add: unspent_key_def handle_is_unspent_def)
  have "serve ops field (SpendCommand k) s = (ResultReply (Ok ()), ?s1)"
    using assms(2) free by (simp add: serve_def handle_spend_def)
  moreover have "serve ops field CommitCommand ?s1 = (NoReply, ?s2)"
    using assms(2) by (simp add: serve_def)
  moreover have "serve ops field (SpendCommand k) ?s2 = (ResultReply (Ok ()), ?s3)"
    using assms(2,4) free by (simp add: serve_def handle_spend_def handle_commit_def hm_contains_def)
  ultimately show ?thesis by (simp add: run_commands_Cons)
qed

text \<open>C13. A store that is asked behaves as the set of spent serial numbers. When the lookup of a serial
  number does not fail, \<open>is_unspent\<close> answers yes exactly when it is neither stored nor pending,
  and \<open>spend\<close> refuses it without any change exactly when it is, and otherwise inserts it and
  nothing else. A lookup that fails counts as spent: also then \<open>spend\<close> succeeds only for a serial
  number that is not in the set, and exactly when \<open>is_unspent\<close> answers yes.\<close>
theorem spend_refines_set:
  assumes "kv_laws ops contents" and "rs_alive s"
  shows "(\<not> isl (kv_get ops (rs_db_spent s) (vm_field_to_string vm n)) \<longrightarrow>
        is_unspent ops vm n s = (Ok (vm_field_to_string vm n \<notin> spent_keys contents s), s)
      \<and> (vm_field_to_string vm n \<in> spent_keys contents s \<longrightarrow> spend ops vm n s = (Err RecordAlreadySpent, s))
      \<and> (vm_field_to_string vm n \<notin> spent_keys contents s \<longrightarrow> (\<exists>t. spend ops vm n s = (Ok (), t))))
    \<and> (\<forall>t. spend ops vm n s = (Ok (), t) \<longrightarrow> vm_field_to_string vm n \<notin> spent_keys contents s
        \<and> is_unspent ops vm n s = (Ok True, s)
        \<and> spent_keys contents t = insert (vm_field_to_string vm n) (spent_keys contents s)
        \<and> rs_db_records t = rs_db_records s \<and> rs_record_buffer t = rs_record_buffer s)
    \<and> (is_unspent ops vm n s = (Ok False, s) \<longrightarrow> spend ops vm n s = (Err RecordAlreadySpent, s))"
proof -
  let ?k = "vm_field_to_string vm n"
  have sound: "?k \<notin> spent_keys contents s" if "unspent_key ops s ?k"
    using that handle_spend_known [OF assms(1), of ?k s]
    by (auto simp: unspent_key_def handle_is_unspent_def handle_spend_def)
  have exact: "unspent_key ops s ?k"
    if found: "\<not> isl (kv_get ops (rs_db_spent s) ?k)" and new: "?k \<notin> spent_keys contents s"
  proof -
    have "kv_get ops (rs_db_spent s) ?k = Inr (contents (rs_db_spent s) ?k)"
      using found kv_get_sound [OF assms(1)] by (metis sum.collapse(2))
    with new assms(2) show ?thesis
      by (auto simp: unspent_key_def handle_is_unspent_def key_exists_or_fails_def spent_keys_def hm_contains_iff)
  qed
  have asked: "is_unspent ops vm n s = (Ok (unspent_key ops s ?k), s)"
    using assms(2) by (simp add: is_unspent_eq)
  show ?thesis
  proof (cases "unspent_key ops s ?k")
    case True
    then have "spend ops vm n s = (Ok (), s\<lparr>rs_spent_buffer := hm_insert ?k ''1'' (rs_spent_buffer s)\<rparr>)"
      by (simp add: spend_as_key spend_key_eq)
    then show ?thesis using True sound asked by (simp add: spent_keys_insert)
  next
    case False
    then have "spend ops vm n s = (Err RecordAlreadySpent, s)"
      using assms(2) by (simp add: spend_as_key spend_key_eq)
    then show ?thesis using False exact asked by auto
  qed
qed

text \<open>C19. Add, commit, scan: a record added with success and committed is returned by a scan of
  the whole store, next to exactly the records that were stored or buffered before.\<close>
theorem add_commit_scan:
  assumes "kv_laws ops contents" and "rs_inv s"
    and "\<And>f. vm_field_from_string vm (vm_field_to_string vm f) = Some f"
    and "\<And>r. vm_record_from_string vm (vm_record_to_string vm r) = Some r"
    and "printed vm (contents (rs_db_records s))" and "printed vm (map_of (rs_record_buffer s))"
    and "add ops vm cm r s = (Ok (), s1)"
    and "kv_write ops (rs_db_records s1) (rs_record_buffer s1) = (True, db)"
    and "list_all (\<lambda>item. \<not> isl item) (kv_iterator ops db None)"
  shows "\<exists>s2 records last. commit ops vm s1 = (Ok (), s2) \<and> scan ops vm None None s2 = (Ok (records, last), s2)
    \<and> (cm, r) \<in> set records
    \<and> set records = insert (cm, r) (parsed vm (contents (rs_db_records s) ++ map_of (rs_record_buffer s)))"
proof -
  let ?k = "vm_field_to_string vm cm" and ?v = "vm_record_to_string vm r"
  let ?m = "contents (rs_db_records s) ++ map_of (rs_record_buffer s)"
  have alive: "rs_alive s" and fresh: "\<not> hm_contains (rs_record_buffer s) ?k"
      "\<not> key_exists_or_fails ops (rs_db_records s) ?k"
    and s1: "s1 = s\<lparr>rs_record_buffer := hm_insert ?k ?v (rs_record_buffer s)\<rparr>"
    using assms(7) by (auto simp: add_as_text add_text_eq handle_add_def split: if_splits)
  have inv: "rs_inv s1" using assms(2) by (simp add: s1 rs_inv_def)
  let ?s2 = "handle_commit ops s1"
  have db: "rs_db_records ?s2 = db" and alive2: "rs_alive ?s2"
    using assms(8) alive by (simp_all add: handle_commit_def s1)
  have m: "contents (rs_db_records ?s2) = ?m(?k \<mapsto> ?v)"
    using committed_records [OF assms(1) inv] assms(8) by (simp add: s1)
  have none: "?m ?k = None"
    using fresh key_absent [OF assms(1)] by (simp add: hm_contains_def map_add_None)
  have "printed vm (contents (rs_db_records ?s2))"
    unfolding m using assms(3-6) by (auto simp: printed_def map_add_Some_iff)
  moreover have "list_all (\<lambda>item. \<not> isl item) (kv_iterator ops (rs_db_records ?s2) None)"
    using assms(9) db by simp
  ultimately obtain records last where "scan ops vm None None ?s2 = (Ok (records, last), ?s2)"
    and "set records = parsed vm (contents (rs_db_records ?s2))"
    using scan_all [OF assms(1) alive2] by blast
  moreover have "parsed vm (contents (rs_db_records ?s2)) = insert (cm, r) (parsed vm ?m)"
    unfolding m parsed_insert [of ?m ?k vm ?v, OF none] assms(3,4) by simp
  ultimately show ?thesis
    using commit_eq [of s1 ops vm] alive by (simp add: s1)
qed

text \<open>The replies given so far are those of handling the commands one at a time in the order they
  were sent, and when the queue is empty all of them have been handled.\<close>
lemma channel_linearizable:
  assumes "reachable (channel_init s) (channel_step ops field) ch"
  shows "\<exists>served. ch_sent ch = served @ ch_queue ch
    \<and> run_commands ops field served s = (ch_replies ch, ch_server ch)"
  using channel_machine.reachable_inv [OF assms] by (simp add: channel_inv_def)

text \<open>C12. The store behind its channel implements the abstract store. On a disk that works, whose
  iterations meet no item that fails, and when spent serial numbers are printed fields: in every
  interleaving of sends with the steps of the server the thread lives, and its replies and its
  state are those of the abstract store on the commands in the order they were sent. An addition
  is refused exactly for a known record, a spend exactly for a spent serial number, the answers
  of \<open>is_unspent\<close> are exact, the scans from the start return exactly what was committed, or no more of it
  than their limit. As many steps as commands are queued answer all of them.\<close>
theorem channel_refines_store:
  assumes "kv_working ops contents" and "kv_iterates ops" and "serving field contents s"
    and "reachable (channel_init s) (channel_step ops field) ch" and "list_all (spend_parses field) (ch_sent ch)"
  shows "(\<exists>served. ch_sent ch = served @ ch_queue ch
      \<and> abstract_replies served (abstract contents s) (ch_replies ch)
      \<and> abstract contents (ch_server ch) = fold abstract_step served (abstract contents s) \<and> rs_alive (ch_server ch))
    \<and> (\<exists>ch'. ((\<lambda>c c'. channel_step ops field c Receive c') ^^ length (ch_queue ch)) ch ch' \<and> ch_queue ch' = []
      \<and> abstract_replies (ch_sent ch) (abstract contents s) (ch_replies ch'))"
proof -
  have answered: "\<exists>served. ch_sent c = served @ ch_queue c \<and> abstract_replies served (abstract contents s) (ch_replies c)
      \<and> abstract contents (ch_server c) = fold abstract_step served (abstract contents s) \<and> rs_alive (ch_server c)"
    if reach: "reachable (channel_init s) (channel_step ops field) c" and sent: "ch_sent c = ch_sent ch" for c
  proof -
    obtain served where served: "ch_sent c = served @ ch_queue c"
      and run: "run_commands ops field served s = (ch_replies c, ch_server c)"
      using channel_linearizable [OF reach] by blast
    have "list_all (spend_parses field) served" using assms(5) served sent by simp
    from run_commands_refines [OF assms(1-3) this run] served show ?thesis by (auto simp: serving_def)
  qed
  obtain ch' where "((\<lambda>c c'. channel_step ops field c Receive c') ^^ length (ch_queue ch)) ch ch'"
    and "reachable (channel_init s) (channel_step ops field) ch'" "ch_queue ch' = []" "ch_sent ch' = ch_sent ch"
    using channel_drains [OF assms(4)] by blast
  with answered [OF assms(4) refl] answered [of ch'] show ?thesis by auto
qed

text \<open>A scan with a limit returns the first records of the iteration, at most as many as the
  limit, with the key of the last one returned.\<close>
theorem scan_respects_limit:
  "handle ops field (ScanRecordsCommand from_key (Some l)) s =
     (let records = take l (ok_items (kv_iterator ops (rs_db_records s) from_key))
      in (ScanReply records (if records = [] then None else Some (fst (last records))), s))"
  by (simp add: scan_records_eq at_most_def Let_def)

text \<open>A commit whose writes succeed moves both buffers to the databases, but it empties only
  the buffer of spent serial numbers: the record buffer keeps every record since the start.\<close>
theorem commit_persists_buffers:
  assumes "kv_laws ops contents" and "rs_inv s" and "rs_alive s" and "commit ops vm s = (Ok (), t)"
    and "fst (kv_write ops (rs_db_records s) (rs_record_buffer s))"
    and "fst (kv_write ops (rs_db_spent s) (rs_spent_buffer s))"
  shows "contents (rs_db_records t) = contents (rs_db_records s) ++ map_of (rs_record_buffer s)
    \<and> contents (rs_db_spent t) = contents (rs_db_spent s) ++ map_of (rs_spent_buffer s)
    \<and> rs_spent_buffer t = [] \<and> rs_record_buffer t = rs_record_buffer s
    \<and> spent_keys contents t = spent_keys contents s"
proof -
  have t: "t = handle_commit ops s" using assms(3,4) by (simp add: commit_eq)
  have spent: "contents (rs_db_spent t) = contents (rs_db_spent s) ++ map_of (rs_spent_buffer s)"
    using committed_spent [OF assms(1,2,6)] t by simp
  then have "spent_keys contents t = spent_keys contents s"
    by (simp add: t spent_keys_def handle_commit_def dom_map_of_conv_image_fst Un_commute)
  then show ?thesis
    using committed_records [OF assms(1,2,5)] spent by (simp add: t) (simp add: handle_commit_def)
qed


section \<open>Witnesses\<close>

definition sample_store :: "(string \<times> string) list record_store" where
  "sample_store = new_record_store [(''c0'', ''r0'')] [(''s0'', ''1'')]"

theorem no_double_spend_witness:
  "successful_spends ''s1'' [SpendCommand ''s1'', CommitCommand, SpendCommand ''s1'']
     (fst (run_commands memory_kv Some [SpendCommand ''s1'', CommitCommand, SpendCommand ''s1''] sample_store)) \<le> 1"
  by (rule no_double_spend [OF memory_kv_laws]) (simp add: spent_write_ok_def)

theorem failed_commit_forgets_spends_witness:
  "successful_spends ''s1'' [SpendCommand ''s1'', CommitCommand, SpendCommand ''s1'']
     (fst (run_commands readonly_kv Some [SpendCommand ''s1'', CommitCommand, SpendCommand ''s1''] sample_store)) = 2"
  by (rule failed_commit_forgets_spends [OF readonly_kv_laws])
    (simp_all add: sample_store_def new_record_store_def unspent_key_def handle_is_unspent_def
      key_exists_or_fails_def hm_contains_def)

theorem spend_refines_set_witness:
  "is_unspent memory_kv sample_vm ''s1'' sample_store = (Ok True, sample_store)
     \<and> (\<exists>t. spend memory_kv sample_vm ''s1'' sample_store = (Ok (), t) \<and> spent_keys map_of t = {''s0'', ''s1''})
     \<and> spend memory_kv sample_vm ''s0'' sample_store = (Err RecordAlreadySpent, sample_store)"
proof -
  have alive: "rs_alive sample_store" by (simp add: sample_store_def new_record_store_def)
  have f: "vm_field_to_string sample_vm n = n" for n by (simp add: lambda_backend_def)
  have known: "spent_keys map_of sample_store = {''s0''}"
    by (auto simp: spent_keys_def sample_store_def new_record_store_def split: if_splits)
  note refines = spend_refines_set [OF memory_kv_laws alive, of sample_vm, unfolded f known]
  have free: "''s1'' \<notin> {''s0''}" and found: "\<not> isl (kv_get memory_kv (rs_db_spent sample_store) k)" for k by simp_all
  from refines [of "''s1''"] found free obtain t where
    t: "is_unspent memory_kv sample_vm ''s1'' sample_store = (Ok True, sample_store)"
      "spend memory_kv sample_vm ''s1'' sample_store = (Ok (), t)" by auto
  with refines [of "''s1''"] have "spent_keys map_of t = insert ''s1'' {''s0''}" by blast
  moreover from refines [of "''s0''"] found have "spend memory_kv sample_vm ''s0'' sample_store = (Err RecordAlreadySpent, sample_store)"
    by simp
  ultimately show ?thesis using t by (simp add: insert_commute)
qed

theorem add_commit_scan_witness:
  "\<exists>s1 s2 records last. add memory_kv sample_vm ''c1'' ''r1'' sample_store = (Ok (), s1)
    \<and> commit memory_kv sample_vm s1 = (Ok (), s2)
    \<and> scan memory_kv sample_vm None None s2 = (Ok (records, last), s2) \<and> (''c1'', ''r1'') \<in> set records"
proof -
  let ?s1 = "sample_store\<lparr>rs_record_buffer := [(''c1'', ''r1'')]\<rparr>"
  have fields: "vm_field_to_string sample_vm = id" "vm_field_from_string sample_vm = Some"
    "vm_record_to_string sample_vm = id" "vm_record_from_string sample_vm = Some"
    by (simp_all add: lambda_backend_def sample_crate_def)
  have printed: "printed sample_vm m" for m by (simp add: printed_def fields)
  have add: "add memory_kv sample_vm ''c1'' ''r1'' sample_store = (Ok (), ?s1)"
    by (simp add: add_as_text add_text_eq handle_add_def sample_store_def new_record_store_def
        key_exists_or_fails_def hm_contains_def hm_insert_def fields)
  show ?thesis
    using add_commit_scan [OF memory_kv_laws _ _ _ printed printed add, of "[(''c1'', ''r1''), (''c0'', ''r0'')]"] add
    by (simp add: rs_inv_new sample_store_def fields list_all_iff) (simp add: new_record_store_def, blast)
qed

text \<open>Two senders: a commit and a spend are queued, and the commit is handled.\<close>

theorem channel_refines_store_witness:
  "\<exists>ch ch'. reachable (channel_init sample_store) (channel_step memory_kv Some) ch
    \<and> ch_queue ch = [SpendCommand ''s1''] \<and> channel_step memory_kv Some ch Receive ch'
    \<and> ch_replies ch' = [NoReply, ResultReply (Ok ())]"
proof -
  let ?c0 = "\<lparr>ch_server = sample_store, ch_queue = [], ch_sent = [], ch_replies = []\<rparr>"
  let ?c1 = "?c0\<lparr>ch_queue := [CommitCommand], ch_sent := [CommitCommand]\<rparr>"
  let ?c2 = "?c1\<lparr>ch_queue := [CommitCommand, SpendCommand ''s1''],
      ch_sent := [CommitCommand, SpendCommand ''s1'']\<rparr>"
  let ?c3 = "?c2\<lparr>ch_server := handle_commit memory_kv sample_store, ch_queue := [SpendCommand ''s1''],
      ch_replies := [NoReply]\<rparr>"
  have alive: "rs_alive sample_store" by (simp add: sample_store_def new_record_store_def)
  let ?step = "channel_step memory_kv Some"
  have "reachable (channel_init sample_store) ?step ?c0"
    by (rule reachable_init) (simp add: channel_init_def)
  moreover have "?step ?c0 (Send CommitCommand) ?c1"
    using channel_send [of ?c0 memory_kv Some CommitCommand] alive by simp
  moreover have "?step ?c1 (Send (SpendCommand ''s1'')) ?c2"
    using channel_send [of ?c1 memory_kv Some "SpendCommand ''s1''"] alive by simp
  moreover have "?step ?c2 Receive ?c3"
    using channel_receive [of ?c2 CommitCommand _ memory_kv Some] alive by (simp add: serve_def)
  ultimately have reach: "reachable (channel_init sample_store) ?step ?c3"
    by (meson reachable_step)
  have "serving Some map_of sample_store"
    using alive by (simp add: serving_def sample_store_def rs_inv_new)
  from channel_refines_store [OF memory_kv_working memory_kv_iterates this reach, THEN conjunct2] obtain ch' where
    "?step ?c3 Receive ch'"
    and "abstract_replies [CommitCommand, SpendCommand ''s1''] (abstract map_of sample_store) (ch_replies ch')"
    by auto
  moreover from this have "ch_replies ch' = [NoReply, ResultReply (Ok ())]"
    by (cases "ch_replies ch'"; cases "tl (ch_replies ch')")
      (auto simp: abstract_def spent_keys_def sample_store_def new_record_store_def split: if_splits)
  ultimately show ?thesis using reach by (intro exI [of _ ?c3] exI [of _ ch']) simp
qed

theorem commit_persists_buffers_witness:
  "\<exists>t. commit memory_kv sample_vm (sample_store\<lparr>rs_spent_buffer := [(''s1'', ''1'')]\<rparr>) = (Ok (), t)
    \<and> map_of (rs_db_spent t) ''s1'' = Some ''1'' \<and> rs_spent_buffer t = []"
proof -
  let ?s = "sample_store\<lparr>rs_spent_buffer := [(''s1'', ''1'')]\<rparr>"
  have s: "rs_inv ?s" "rs_alive ?s"
    by (simp_all add: rs_inv_def sample_store_def new_record_store_def hm_ok_def)
  from commit_persists_buffers [OF memory_kv_laws s commit_eq [OF s(2)]]
  show ?thesis by (simp add: commit_eq [OF s(2)])
qed

end
