(* ===== verification/Program_Store.thy ===== *)
theory Program_Store
  imports Kv_Db Vm_Api
begin

text \<open>
  \<open>src/blockchain/program_store.rs\<close>: the deployed programs with their verifying keys. As in
  the record store a thread owns the database and handles commands; a stored value that does
  not decode kills the thread, and a thread that is gone closes the channel.
\<close>

section \<open>State and commands\<close>

type_synonym stored_program = "program \<times> vk_map"

text \<open>
  \<open>bincode\<close> is a parameter: encoding can fail, and \<open>unwrap\<close> panics then; decoding fails on
  bytes that are not an encoding.
\<close>

record bincode =
  bc_serialize :: "stored_program \<Rightarrow> string option"
  bc_deserialize :: "string \<Rightarrow> stored_program option"

record 'db program_store =
  ps_alive :: bool
  ps_db :: 'db

definition stored_bytes :: "'db kv_ops \<Rightarrow> string \<Rightarrow> 'db program_store \<Rightarrow> string option" where
  "stored_bytes ops program_id s = (case kv_get ops (ps_db s) program_id of Inr v \<Rightarrow> v | Inl e \<Rightarrow> None)"

text \<open>
  \<open>Command::Add\<close>: a failed lookup counts as absent, and a failed write is logged and reported
  as success. The result \<open>Panic\<close> is a panic of the thread.
\<close>

definition handle_add_program ::
  "'db kv_ops \<Rightarrow> bincode \<Rightarrow> string \<Rightarrow> stored_program \<Rightarrow> 'db program_store \<Rightarrow> unit result \<times> 'db program_store" where
  "handle_add_program ops bc program_id program_keys s =
     (if stored_bytes ops program_id s \<noteq> None then (Err (ProgramInStore program_id), s)
      else
        (case bc_serialize bc program_keys of
           None \<Rightarrow> (Panic ''serialize program'', s\<lparr>ps_alive := False\<rparr>)
         | Some bytes \<Rightarrow> (Ok (), s\<lparr>ps_db := snd (kv_write ops (ps_db s) [(program_id, bytes)])\<rparr>)))"

definition handle_get_program ::
  "'db kv_ops \<Rightarrow> bincode \<Rightarrow> string \<Rightarrow> 'db program_store \<Rightarrow> stored_program option result \<times> 'db program_store" where
  "handle_get_program ops bc program_id s =
     (case stored_bytes ops program_id s of
        None \<Rightarrow> (Ok None, s)
      | Some bytes \<Rightarrow>
          (case bc_deserialize bc bytes of
             Some program_keys \<Rightarrow> (Ok (Some program_keys), s)
           | None \<Rightarrow> (Panic ''deserialize program'', s\<lparr>ps_alive := False\<rparr>)))"

text \<open>
  The methods. The reply sender of a command is dropped when the thread panics on it, and the
  channel is closed afterwards; \<open>get\<close> and \<open>add\<close> turn both into an error, \<open>exists\<close> unwraps the
  send and answers no when the reply does not come.
\<close>

definition get_program ::
  "'db kv_ops \<Rightarrow> bincode \<Rightarrow> string \<Rightarrow> ('db program_store, stored_program option) action" where
  "get_program ops bc program_id s =
     (if \<not> ps_alive s then (Err ChannelClosed, s)
      else (case handle_get_program ops bc program_id s of
              (Panic p, s') \<Rightarrow> (Err ChannelClosed, s')
            | (r, s') \<Rightarrow> (r, s')))"

definition add_program ::
  "'db kv_ops \<Rightarrow> bincode \<Rightarrow> string \<Rightarrow> program \<Rightarrow> vk_map \<Rightarrow> ('db program_store, unit) action" where
  "add_program ops bc program_id program verifying_keys s =
     (if \<not> ps_alive s then (Err ChannelClosed, s)
      else (case handle_add_program ops bc program_id (program, verifying_keys) s of
              (Panic p, s') \<Rightarrow> (Err ChannelClosed, s')
            | (r, s') \<Rightarrow> (r, s')))"

definition program_exists :: "'db kv_ops \<Rightarrow> string \<Rightarrow> 'db program_store \<Rightarrow> bool result" where
  "program_exists ops program_id s =
     (if ps_alive s then Ok (kv_may_exist ops (ps_db s) program_id) else Panic ''send on a closed channel'')"

text \<open>
  \<open>load_credits\<close> and \<open>ProgramStore::new\<close>. \<open>lib::load_credits\<close> reads or builds the credits
  program; its result, a program and its proving and verifying keys, is an argument.
\<close>

definition load_credits ::
  "'db kv_ops \<Rightarrow> bincode \<Rightarrow> program \<times> (string \<times> proving_key \<times> verifying_key) list \<Rightarrow>
   ('db program_store, unit) action" where
  "load_credits ops bc credits s =
     (case credits of (credits_program, keys) \<Rightarrow>
       act_then (pure_action (program_exists ops (prog_id credits_program)))
         (\<lambda>found. if found then (\<lambda>t. (Ok (), t))
            else add_program ops bc (prog_id credits_program) credits_program
              (map (\<lambda>(i, _, verifying_key). (i, verifying_key)) keys)) s)"

definition program_store_new ::
  "'db kv_ops \<Rightarrow> bincode \<Rightarrow> program \<times> (string \<times> proving_key \<times> verifying_key) list \<Rightarrow>
   (string \<Rightarrow> string + 'db) \<Rightarrow> string \<Rightarrow> 'db program_store result" where
  "program_store_new ops bc credits open_default path =
     and_then (external (open_default (path @ ''.deployed.db''))) (\<lambda>db_programs.
       (case load_credits ops bc credits \<lparr>ps_alive = True, ps_db = db_programs\<rparr> of
          (r, s) \<Rightarrow> map_ok (\<lambda>_. s) r))"


section \<open>The store as a map\<close>

text \<open>
  The abstraction: the deployed programs. \<open>bincode_law\<close> is what the crate promises, and a
  database that only the store has written decodes.
\<close>

definition bincode_law :: "bincode \<Rightarrow> bool" where
  "bincode_law bc \<longleftrightarrow> (\<forall>p bytes. bc_serialize bc p = Some bytes \<longrightarrow> bc_deserialize bc bytes = Some p)"

definition deployed ::
  "bincode \<Rightarrow> ('db \<Rightarrow> string \<Rightarrow> string option) \<Rightarrow> 'db program_store \<Rightarrow> string \<Rightarrow> stored_program option" where
  "deployed bc contents s program_id = Option.bind (contents (ps_db s) program_id) (bc_deserialize bc)"

definition decodable :: "bincode \<Rightarrow> (string \<Rightarrow> string option) \<Rightarrow> bool" where
  "decodable bc m \<longleftrightarrow> (\<forall>k v. m k = Some v \<longrightarrow> bc_deserialize bc v \<noteq> None)"

definition ps_inv ::
  "bincode \<Rightarrow> ('db \<Rightarrow> string \<Rightarrow> string option) \<Rightarrow> 'db program_store \<Rightarrow> bool" where
  "ps_inv bc contents s \<longleftrightarrow> ps_alive s \<and> decodable bc (contents (ps_db s))"

lemma stored_bytes_sound:
  "kv_laws ops contents \<Longrightarrow> stored_bytes ops k s = Some v \<Longrightarrow> contents (ps_db s) k = Some v"
  by (auto simp: stored_bytes_def split: sum.splits dest: kv_get_sound)

lemma stored_bytes_eq:
  assumes "kv_laws ops contents" and "kv_available ops"
  shows "stored_bytes ops k s = contents (ps_db s) k"
proof -
  have "\<not> isl (kv_get ops (ps_db s) k)" using assms(2) by (simp add: kv_available_def)
  then obtain r where "kv_get ops (ps_db s) k = Inr r" by (cases "kv_get ops (ps_db s) k") auto
  with kv_get_sound [OF assms(1) this] show ?thesis by (simp add: stored_bytes_def)
qed

lemma handle_get_inv:
  assumes "kv_laws ops contents" and "ps_inv bc contents s"
  shows "\<exists>r. handle_get_program ops bc k s = (Ok r, s)"
proof (cases "stored_bytes ops k s")
  case None
  then show ?thesis by (simp add: handle_get_program_def)
next
  case (Some v)
  then have "contents (ps_db s) k = Some v" by (rule stored_bytes_sound [OF assms(1)])
  with assms(2) have "bc_deserialize bc v \<noteq> None" by (simp add: ps_inv_def decodable_def)
  with Some show ?thesis by (auto simp: handle_get_program_def)
qed

lemma get_program_inv:
  "kv_laws ops contents \<Longrightarrow> ps_inv bc contents s \<Longrightarrow> \<exists>r. get_program ops bc k s = (Ok r, s)"
  using handle_get_inv [of ops contents bc s k] by (auto simp: get_program_def ps_inv_def)

lemma get_program_eq:
  assumes "kv_laws ops contents" and "kv_available ops" and "ps_inv bc contents s"
  shows "get_program ops bc k s = (Ok (deployed bc contents s k), s)"
proof (cases "contents (ps_db s) k")
  case None
  then show ?thesis
    using assms by (simp add: get_program_def handle_get_program_def stored_bytes_eq deployed_def ps_inv_def)
next
  case (Some v)
  with assms(3) have "bc_deserialize bc v \<noteq> None" by (simp add: ps_inv_def decodable_def)
  then obtain p where "bc_deserialize bc v = Some p" by blast
  with Some show ?thesis
    using assms by (simp add: get_program_def handle_get_program_def stored_bytes_eq deployed_def ps_inv_def)
qed

lemma decodable_upd:
  "decodable bc m \<Longrightarrow> bc_deserialize bc v \<noteq> None \<Longrightarrow> decodable bc (m(k \<mapsto> v))"
  by (simp add: decodable_def)

lemma add_program_outcome:
  assumes "kv_laws ops contents" and "kv_available ops" and "ps_alive s"
    and "bc_serialize bc (p, ks) = Some bytes"
  shows "add_program ops bc k p ks s =
    (if contents (ps_db s) k \<noteq> None then (Err (ProgramInStore k), s)
     else (Ok (), s\<lparr>ps_db := snd (kv_write ops (ps_db s) [(k, bytes)])\<rparr>))"
  using assms by (simp add: add_program_def handle_add_program_def stored_bytes_eq)

lemma put_contents:
  "kv_laws ops contents \<Longrightarrow> contents (snd (kv_write ops db [(k, bytes)])) =
     (if fst (kv_write ops db [(k, bytes)]) then (contents db)(k \<mapsto> bytes) else contents db)"
  by (auto simp: kv_write_contents fun_eq_iff)

lemma add_program_inv:
  assumes "kv_laws ops contents" and "bincode_law bc" and "ps_inv bc contents s"
    and "bc_serialize bc (p, ks) \<noteq> None" and "add_program ops bc k p ks s = (r, t)"
  shows "ps_inv bc contents t \<and> (\<forall>p. r \<noteq> Panic p)"
proof -
  from assms(4) obtain bytes where bytes: "bc_serialize bc (p, ks) = Some bytes" by blast
  then have "bc_deserialize bc bytes \<noteq> None" using assms(2) by (simp add: bincode_law_def)
  then show ?thesis
    using assms(3,5) bytes put_contents [OF assms(1), of "ps_db s" k bytes]
    by (auto simp: add_program_def handle_add_program_def ps_inv_def decodable_upd split: if_splits)
qed


section \<open>Histories of the store\<close>

text \<open>The calls that can change the store, from any number of clients of the application.\<close>

datatype program_call = GetCall string | AddCall string program vk_map

fun call_store :: "'db kv_ops \<Rightarrow> bincode \<Rightarrow> program_call \<Rightarrow> 'db program_store \<Rightarrow> 'db program_store" where
  "call_store ops bc (GetCall k) s = snd (get_program ops bc k s)"
| "call_store ops bc (AddCall k p ks) s = snd (add_program ops bc k p ks s)"

fun encodable :: "bincode \<Rightarrow> program_call \<Rightarrow> bool" where
  "encodable bc (AddCall k p ks) = (bc_serialize bc (p, ks) \<noteq> None)"
| "encodable bc (GetCall k) = True"

lemma call_store_inv:
  "kv_laws ops contents \<Longrightarrow> bincode_law bc \<Longrightarrow> ps_inv bc contents s \<Longrightarrow> encodable bc c \<Longrightarrow>
   ps_inv bc contents (call_store ops bc c s)"
proof (cases c)
  case (GetCall k)
  assume "kv_laws ops contents" "ps_inv bc contents s"
  then show ?thesis using get_program_inv [of ops contents bc s k] GetCall by auto
next
  case (AddCall k p ks)
  assume "kv_laws ops contents" "bincode_law bc" "ps_inv bc contents s" "encodable bc c"
  then show ?thesis
    using add_program_inv [of ops contents bc s p ks k] AddCall by (cases "add_program ops bc k p ks s") auto
qed

lemma call_store_keeps:
  assumes "kv_laws ops contents" and "kv_available ops" and "ps_inv bc contents s"
    and "encodable bc c" and "contents (ps_db s) k = Some v"
  shows "contents (ps_db (call_store ops bc c s)) k = Some v"
proof (cases c)
  case (GetCall k')
  then show ?thesis using get_program_inv [OF assms(1,3), of k'] assms(5) by auto
next
  case (AddCall k' p ks)
  with assms(4) obtain bytes where bytes: "bc_serialize bc (p, ks) = Some bytes" by auto
  have alive: "ps_alive s" using assms(3) by (simp add: ps_inv_def)
  show ?thesis
    using add_program_outcome [OF assms(1,2) alive bytes, of k'] AddCall assms(5)
      put_contents [OF assms(1), of "ps_db s" k' bytes] by auto
qed


text \<open>
  On a database that decodes the program store starts. It has the credits program, unless the
  filter of the database answers yes for it although it is absent.
\<close>

lemma program_store_starts:
  assumes "kv_laws ops contents" and "kv_available ops" and "bincode_law bc"
    and "open_default (path @ ''.deployed.db'') = Inr db" and "decodable bc (contents db)"
    and "bc_serialize bc (prog, map (\<lambda>(i, _, vk). (i, vk)) keys) = Some bytes"
    and "fst (kv_write ops db [(prog_id prog, bytes)])"
  shows "\<exists>s. program_store_new ops bc (prog, keys) open_default path = Ok s \<and> ps_inv bc contents s
    \<and> contents db \<subseteq>\<^sub>m contents (ps_db s) \<and> (\<forall>k. k \<noteq> prog_id prog \<longrightarrow> contents (ps_db s) k = contents db k)
    \<and> (deployed bc contents s (prog_id prog) = None \<longleftrightarrow>
        contents db (prog_id prog) = None \<and> kv_may_exist ops db (prog_id prog))"
proof -
  let ?s = "\<lparr>ps_alive = True, ps_db = db\<rparr>" and ?ks = "map (\<lambda>(i, _, vk). (i, vk)) keys"
  have inv: "ps_inv bc contents ?s" using assms(5) by (simp add: ps_inv_def)
  show ?thesis
  proof (cases "kv_may_exist ops db (prog_id prog)")
    case True
    then have "program_store_new ops bc (prog, keys) open_default path = Ok ?s"
      using assms(4) by (simp add: program_store_new_def load_credits_def program_exists_def)
    moreover have "deployed bc contents ?s (prog_id prog) = None \<longleftrightarrow> contents db (prog_id prog) = None"
      using assms(5) by (cases "contents db (prog_id prog)") (auto simp: deployed_def decodable_def)
    ultimately show ?thesis using inv True by auto
  next
    case False
    then have none: "contents db (prog_id prog) = None" by (rule kv_may_exist_complete [OF assms(1)])
    let ?t = "?s\<lparr>ps_db := snd (kv_write ops db [(prog_id prog, bytes)])\<rparr>"
    have added: "add_program ops bc (prog_id prog) prog ?ks ?s = (Ok (), ?t)"
      using add_program_outcome [OF assms(1,2) _ assms(6), of ?s "prog_id prog"] none by simp
    then have "program_store_new ops bc (prog, keys) open_default path = Ok ?t"
      using assms(4) False by (simp add: program_store_new_def load_credits_def program_exists_def)
    moreover have "ps_inv bc contents ?t"
      using add_program_inv [OF assms(1,3) inv _ added] assms(6) by simp
    moreover have "contents (ps_db ?t) = (contents db)(prog_id prog \<mapsto> bytes)"
      using put_contents [OF assms(1), of db "prog_id prog" bytes] assms(7) by simp
    moreover have "bc_deserialize bc bytes \<noteq> None" using assms(3,6) by (simp add: bincode_law_def)
    ultimately show ?thesis using none False by (auto simp: deployed_def map_le_def)
  qed
qed


section \<open>Properties\<close>

text \<open>C14. While the database answers, the store is a map from program ids to programs that
  only grows: \<open>get\<close> is the lookup, \<open>add\<close> refuses an id that is present without any change
  and otherwise adds exactly this entry.\<close>
theorem program_store_refines_map:
  assumes "kv_laws ops contents" and "kv_available ops" and "bincode_law bc" and "ps_inv bc contents s"
    and "bc_serialize bc (p, ks) = Some bytes" and "fst (kv_write ops (ps_db s) [(k, bytes)])"
  shows "get_program ops bc k' s = (Ok (deployed bc contents s k'), s)
    \<and> (deployed bc contents s k \<noteq> None \<longrightarrow> add_program ops bc k p ks s = (Err (ProgramInStore k), s))
    \<and> (deployed bc contents s k = None \<longrightarrow> (\<exists>t. add_program ops bc k p ks s = (Ok (), t)
        \<and> ps_inv bc contents t \<and> deployed bc contents t = (deployed bc contents s)(k \<mapsto> (p, ks))))"
proof -
  have alive: "ps_alive s" and dec: "decodable bc (contents (ps_db s))"
    using assms(4) by (simp_all add: ps_inv_def)
  have none: "contents (ps_db s) k = None \<longleftrightarrow> deployed bc contents s k = None"
    using dec by (cases "contents (ps_db s) k") (auto simp: deployed_def decodable_def)
  let ?t = "s\<lparr>ps_db := snd (kv_write ops (ps_db s) [(k, bytes)])\<rparr>"
  have "bc_deserialize bc bytes = Some (p, ks)" using assms(3,5) by (simp add: bincode_law_def)
  moreover have c: "contents (ps_db ?t) = (contents (ps_db s))(k \<mapsto> bytes)"
    using put_contents [OF assms(1), of "ps_db s" k bytes] assms(6) by simp
  ultimately have "deployed bc contents ?t = (deployed bc contents s)(k \<mapsto> (p, ks))"
    by (simp add: deployed_def fun_eq_iff)
  moreover have "ps_inv bc contents ?t"
    unfolding ps_inv_def c using alive decodable_upd [OF dec] \<open>bc_deserialize bc bytes = _\<close> by simp
  ultimately show ?thesis
    using get_program_eq [OF assms(1,2,4)] add_program_outcome [OF assms(1,2) alive assms(5), of k] none
    by simp
qed

text \<open>A deployed program is immutable: no sequence of calls to the store replaces or removes
  it, as long as the database answers its lookups.\<close>
theorem deployed_immutable:
  assumes "kv_laws ops contents" and "kv_available ops" and "bincode_law bc" and "ps_inv bc contents s"
    and "list_all (encodable bc) calls" and "deployed bc contents s k = Some p"
  shows "deployed bc contents (fold (call_store ops bc) calls s) k = Some p"
proof -
  from assms(6) obtain v where v: "contents (ps_db s) k = Some v" and p: "bc_deserialize bc v = Some p"
    by (auto simp: deployed_def split: Option.bind_splits)
  have "contents (ps_db (fold (call_store ops bc) calls s)) k = Some v"
    using assms(4,5) v
  proof (induction calls arbitrary: s)
    case (Cons c calls)
    then show ?case
      using call_store_inv [OF assms(1,3)] call_store_keeps [OF assms(1,2)] by simp
  qed simp
  with p show ?thesis by (simp add: deployed_def)
qed

text \<open>C31. A lookup that fails counts as absent in \<open>add\<close>, unlike in the record store: adding a
  program under an id that is deployed overwrites it when the database fails to read.\<close>
theorem failed_lookup_overwrites:
  assumes "kv_laws ops contents" and "bincode_law bc" and "ps_inv bc contents s"
    and "isl (kv_get ops (ps_db s) k)" and "bc_serialize bc (p, ks) = Some bytes"
    and "fst (kv_write ops (ps_db s) [(k, bytes)])"
  shows "\<exists>t. add_program ops bc k p ks s = (Ok (), t) \<and> deployed bc contents t k = Some (p, ks)"
proof -
  have "stored_bytes ops k s = None"
    using assms(4) by (auto simp: stored_bytes_def split: sum.splits)
  then have "add_program ops bc k p ks s = (Ok (), s\<lparr>ps_db := snd (kv_write ops (ps_db s) [(k, bytes)])\<rparr>)"
    using assms(3,5) by (simp add: add_program_def handle_add_program_def ps_inv_def)
  moreover have "bc_deserialize bc bytes = Some (p, ks)" using assms(2,5) by (simp add: bincode_law_def)
  ultimately show ?thesis
    using put_contents [OF assms(1), of "ps_db s" k bytes] assms(6) by (simp add: deployed_def)
qed

text \<open>A stored value that does not decode stops the store: the lookup that meets it is
  answered with an error, every later lookup and addition fails, and \<open>exists\<close> panics.\<close>
theorem corrupt_program_stops_store:
  assumes "ps_alive s" and "kv_get ops (ps_db s) k = Inr (Some v)" and "bc_deserialize bc v = None"
  shows "\<exists>t. get_program ops bc k s = (Err ChannelClosed, t)
    \<and> (\<forall>k'. get_program ops bc k' t = (Err ChannelClosed, t))
    \<and> (\<forall>k' p ks. add_program ops bc k' p ks t = (Err ChannelClosed, t))
    \<and> (\<forall>k'. \<exists>msg. program_exists ops k' t = Panic msg)"
  using assms
  by (simp add: get_program_def handle_get_program_def stored_bytes_def add_program_def program_exists_def)

text \<open>Start-up: on a database without the credits program the store deploys it, provided
  \<open>key_may_exist\<close> answers no; when the filter answers yes for the absent key, which RocksDB
  allows, the store starts without the credits program.\<close>
theorem startup_deploys_credits:
  assumes "kv_laws ops contents" and "kv_available ops" and "bincode_law bc"
    and "open_default (path @ ''.deployed.db'') = Inr db" and "contents db (prog_id prog) = None"
    and "bc_serialize bc (prog, map (\<lambda>(i, _, vk). (i, vk)) keys) = Some bytes"
    and "fst (kv_write ops db [(prog_id prog, bytes)])"
  shows "\<exists>s. program_store_new ops bc (prog, keys) open_default path = Ok s
    \<and> deployed bc contents s (prog_id prog) =
        (if kv_may_exist ops db (prog_id prog) then None else Some (prog, map (\<lambda>(i, _, vk). (i, vk)) keys))"
proof -
  let ?s = "\<lparr>ps_alive = True, ps_db = db\<rparr>" and ?ks = "map (\<lambda>(i, _, vk). (i, vk)) keys"
  have "bc_deserialize bc bytes = Some (prog, ?ks)" using assms(3,6) by (simp add: bincode_law_def)
  moreover have "add_program ops bc (prog_id prog) prog ?ks ?s =
      (Ok (), ?s\<lparr>ps_db := snd (kv_write ops db [(prog_id prog, bytes)])\<rparr>)"
    using add_program_outcome [OF assms(1,2) _ assms(6), of ?s "prog_id prog"] assms(5) by simp
  ultimately show ?thesis
    using assms(4,5,7) put_contents [OF assms(1), of db "prog_id prog" bytes]
    by (auto simp: program_store_new_def load_credits_def program_exists_def deployed_def)
qed


section \<open>Witnesses\<close>

text \<open>Two programs and an encoding that knows only them.\<close>

definition credits_sample :: program where
  "credits_sample = \<lparr>prog_id = ''credits.aleo'', prog_functions = [(''fee'', ''fee'')], prog_source = ''credits''\<rparr>"

definition other_sample :: program where
  "other_sample = \<lparr>prog_id = ''other.aleo'', prog_functions = [(''run'', ''run'')], prog_source = ''other''\<rparr>"

definition fee_keys :: vk_map where "fee_keys = [(''fee'', VerifyingKey ''vk'')]"

definition sample_bincode :: bincode where
  "sample_bincode =
     \<lparr>bc_serialize = (\<lambda>p. if p = (credits_sample, fee_keys) then Some ''c''
        else if p = (other_sample, fee_keys) then Some ''o'' else None),
      bc_deserialize = (\<lambda>text. if text = ''c'' then Some (credits_sample, fee_keys)
        else if text = ''o'' then Some (other_sample, fee_keys) else None)\<rparr>"

definition sample_programs :: "(string \<times> string) list program_store" where
  "sample_programs = \<lparr>ps_alive = True, ps_db = [(''credits.aleo'', ''c'')]\<rparr>"

lemma sample_bincode_law: "bincode_law sample_bincode"
  by (auto simp: bincode_law_def sample_bincode_def)

lemma sample_programs_inv: "ps_inv sample_bincode map_of sample_programs"
  by (simp add: ps_inv_def sample_programs_def decodable_def sample_bincode_def)

lemma sample_serialize:
  "bc_serialize sample_bincode (credits_sample, fee_keys) = Some ''c''"
  "bc_serialize sample_bincode (other_sample, fee_keys) = Some ''o''"
  by (simp_all add: sample_bincode_def credits_sample_def other_sample_def)

lemma sample_deployed:
  "deployed sample_bincode map_of sample_programs ''credits.aleo'' = Some (credits_sample, fee_keys)"
  "deployed sample_bincode map_of sample_programs ''other.aleo'' = None"
  by (simp_all add: deployed_def sample_programs_def sample_bincode_def)

theorem program_store_refines_map_witness:
  "\<exists>t. add_program memory_kv sample_bincode ''other.aleo'' other_sample fee_keys sample_programs = (Ok (), t)
    \<and> deployed sample_bincode map_of t ''other.aleo'' = Some (other_sample, fee_keys)"
  using program_store_refines_map [OF memory_kv_laws memory_kv_available sample_bincode_law
      sample_programs_inv sample_serialize(2), of "''other.aleo''"] sample_deployed
  by (metis fst_conv fun_upd_same memory_kv_simps(2))

theorem deployed_immutable_witness:
  "deployed sample_bincode map_of (fold (call_store memory_kv sample_bincode)
      [GetCall ''credits.aleo'', AddCall ''credits.aleo'' other_sample fee_keys] sample_programs) ''credits.aleo''
    = Some (credits_sample, fee_keys)"
  by (rule deployed_immutable [OF memory_kv_laws memory_kv_available sample_bincode_law sample_programs_inv])
    (simp_all add: sample_serialize sample_deployed)

definition failing_kv :: "(string \<times> string) list kv_ops" where
  "failing_kv = memory_kv\<lparr>kv_get := (\<lambda>db k. Inl ''io error'')\<rparr>"

lemma failing_kv_laws: "kv_laws failing_kv map_of"
  by (auto simp: kv_laws_def kv_get_law_def kv_write_law_def kv_iterator_law_def kv_may_exist_law_def
      failing_kv_def memory_kv_def clearjunk_entry image_iff)

theorem failed_lookup_overwrites_witness:
  "\<exists>t. add_program failing_kv sample_bincode ''credits.aleo'' other_sample fee_keys sample_programs = (Ok (), t)
    \<and> deployed sample_bincode map_of t ''credits.aleo'' = Some (other_sample, fee_keys)"
  by (rule failed_lookup_overwrites [OF failing_kv_laws sample_bincode_law sample_programs_inv _ sample_serialize(2)])
    (simp_all add: failing_kv_def)

theorem corrupt_program_stops_store_witness:
  "\<exists>t. get_program memory_kv sample_bincode ''bad.aleo'' \<lparr>ps_alive = True, ps_db = [(''bad.aleo'', ''junk'')]\<rparr>
      = (Err ChannelClosed, t) \<and> (\<forall>k. \<exists>msg. program_exists memory_kv k t = Panic msg)"
  using corrupt_program_stops_store [of "\<lparr>ps_alive = True, ps_db = [(''bad.aleo'', ''junk'')]\<rparr>" memory_kv
      "''bad.aleo''" "''junk''" sample_bincode] by (auto simp: sample_bincode_def)

definition vague_kv :: "(string \<times> string) list kv_ops" where
  "vague_kv = memory_kv\<lparr>kv_may_exist := (\<lambda>db k. True)\<rparr>"

lemma vague_kv_laws: "kv_laws vague_kv map_of"
  by (auto simp: kv_laws_def kv_get_law_def kv_write_law_def kv_iterator_law_def kv_may_exist_law_def
      vague_kv_def memory_kv_def clearjunk_entry image_iff)

theorem startup_deploys_credits_witness:
  "(\<exists>s. program_store_new memory_kv sample_bincode (credits_sample, [(''fee'', ProvingKey ''pk'', VerifyingKey ''vk'')])
       (\<lambda>path. Inr []) ''programs'' = Ok s
     \<and> deployed sample_bincode map_of s ''credits.aleo'' = Some (credits_sample, fee_keys))
   \<and> (\<exists>s. program_store_new vague_kv sample_bincode (credits_sample, [(''fee'', ProvingKey ''pk'', VerifyingKey ''vk'')])
       (\<lambda>path. Inr []) ''programs'' = Ok s \<and> deployed sample_bincode map_of s ''credits.aleo'' = None)"
proof
  have id: "prog_id credits_sample = ''credits.aleo''" by (simp add: credits_sample_def)
  have keys: "bc_serialize sample_bincode (credits_sample,
      map (\<lambda>(i, _, vk). (i, vk)) [(''fee'', ProvingKey ''pk'', VerifyingKey ''vk'')]) = Some ''c''"
    using sample_serialize(1) by (simp add: fee_keys_def)
  show "\<exists>s. program_store_new memory_kv sample_bincode (credits_sample, [(''fee'', ProvingKey ''pk'', VerifyingKey ''vk'')])
       (\<lambda>path. Inr []) ''programs'' = Ok s
     \<and> deployed sample_bincode map_of s ''credits.aleo'' = Some (credits_sample, fee_keys)"
    using startup_deploys_credits [OF memory_kv_laws memory_kv_available sample_bincode_law _ _ keys,
        of "\<lambda>path. Inr []" "''programs''" "[]"] by (simp add: id fee_keys_def)
  have "kv_available vague_kv" by (simp add: vague_kv_def kv_available_def)
  then show "\<exists>s. program_store_new vague_kv sample_bincode (credits_sample, [(''fee'', ProvingKey ''pk'', VerifyingKey ''vk'')])
       (\<lambda>path. Inr []) ''programs'' = Ok s \<and> deployed sample_bincode map_of s ''credits.aleo'' = None"
    using startup_deploys_credits [OF vague_kv_laws _ sample_bincode_law _ _ keys,
        of "\<lambda>path. Inr []" "''programs''" "[]"] by (simp add: id vague_kv_def)
qed

end
