(* ===== verification/Application.thy ===== *)
theory Application
  imports Rewards Record_Store Program_Store Transaction
begin

text \<open>
  \<open>src/blockchain/application.rs\<close>: the ABCI application. It owns the two stores and the
  validator set, validates transactions, applies them, and assigns the rewards of a block.
\<close>

section \<open>State and environment\<close>

text \<open>
  The height file holds a \<open>bincode\<close> encoded \<open>i64\<close>: it is missing, holds a height, or holds
  bytes that do not decode.
\<close>

datatype height_file = NoHeight | Height i64 | BadHeight

text \<open>
  The validator set is behind a mutex, which a panic of its holder poisons; the handlers
  unwrap the lock.
\<close>

record 'db app =
  app_records :: "'db record_store"
  app_programs :: "'db program_store"
  app_validators :: validator_set
  app_poisoned :: bool
  app_validators_file :: "string option"
  app_height_file :: height_file

text \<open>What the application uses of the crates and of the operating system.\<close>

record ('db, 'f, 'er, 'tr, 'out) env =
  e_vm :: "('f, 'er, 'tr, 'out) vm_backend"
  e_crypto :: tendermint_crate
  e_tx :: "'tr tx_crate"
  e_kv :: "'db kv_ops"
  e_bincode :: bincode
  e_io :: validators_io
  e_order :: "(address, u64) hash_map \<Rightarrow> (address \<times> u64) list"
  e_height_writable :: bool

definition on_records :: "('db record_store, 'a) action \<Rightarrow> ('db app, 'a) action" where
  "on_records m s = (case m (app_records s) of (r, records) \<Rightarrow> (r, s\<lparr>app_records := records\<rparr>))"

definition on_programs :: "('db program_store, 'a) action \<Rightarrow> ('db app, 'a) action" where
  "on_programs m s = (case m (app_programs s) of (r, programs) \<Rightarrow> (r, s\<lparr>app_programs := programs\<rparr>))"

definition on_validators :: "(validator_set, 'a) action \<Rightarrow> ('db app, 'a) action" where
  "on_validators m s = (case m (app_validators s) of (r, vs) \<Rightarrow> (r, s\<lparr>app_validators := vs\<rparr>))"

text \<open>\<open>self.validators.lock().unwrap()\<close>, and what runs until the guard is dropped.\<close>

definition locked :: "('db app, 'a) action \<Rightarrow> ('db app, 'a) action" where
  "locked m s =
     (if app_poisoned s then (Panic ''poisoned lock'', s)
      else (case m s of
              (Panic p, t) \<Rightarrow> (Panic p, t\<lparr>app_poisoned := True\<rparr>)
            | (r, t) \<Rightarrow> (r, t)))"


section \<open>Checks on a transaction\<close>

definition check_no_duplicate_records ::
  "('f, 'er, 'tr, 'out) vm_backend \<Rightarrow> 'tr transaction \<Rightarrow> unit result" where
  "check_no_duplicate_records vm tx =
     (case first_duplicate (record_serial_numbers vm tx) of
        Some serial_number \<Rightarrow> Err (DuplicateInput (vm_field_to_string vm serial_number))
      | None \<Rightarrow> Ok ())"

text \<open>The lookup of one input: a store that does not answer counts as unspent (\<open>unwrap_or(true)\<close>).\<close>

definition check_unspent ::
  "('db, 'f, 'er, 'tr, 'out) env \<Rightarrow> 'f \<Rightarrow> ('db app, unit) action" where
  "check_unspent env serial_number s =
     (case on_records (is_unspent (e_kv env) (e_vm env) serial_number) s of
        (Ok unspent, t) \<Rightarrow> (ensure unspent (InputSpent (vm_field_to_string (e_vm env) serial_number)), t)
      | (Err e, t) \<Rightarrow> (Ok (), t)
      | (Panic p, t) \<Rightarrow> (Panic p, t))"

definition check_inputs_are_unspent ::
  "('db, 'f, 'er, 'tr, 'out) env \<Rightarrow> 'tr transaction \<Rightarrow> ('db app, unit) action" where
  "check_inputs_are_unspent env tx = act_each (check_unspent env) (record_serial_numbers (e_vm env) tx)"

definition verify_transition ::
  "('db, 'f, 'er, 'tr, 'out) env \<Rightarrow> 'tr \<Rightarrow> ('db app, unit) action" where
  "verify_transition env transition =
     act_then (on_programs (get_program (e_kv env) (e_bincode env) (vm_program_id (e_vm env) transition)))
       (\<lambda>stored_keys. pure_action (\<lambda>_.
          case stored_keys of
            Some (_, keys) \<Rightarrow> vm_verify_execution (e_vm env) transition keys
          | None \<Rightarrow> Err (ProgramMissing (vm_program_id (e_vm env) transition))))"

text \<open>
  \<open>validate_transaction\<close>. For an execution the lock is held while the updates are validated
  and the transitions verified.
\<close>

fun validate_contents ::
  "('db, 'f, 'er, 'tr, 'out) env \<Rightarrow> 'tr transaction \<Rightarrow> ('db app, unit) action" where
  "validate_contents env (Deployment i prog verifying_keys fee) =
     act_then (pure_action (\<lambda>s. program_exists (e_kv env) (prog_id prog) (app_programs s))) (\<lambda>found.
     act_then (pure_action (\<lambda>_. ensure (\<not> found) (ProgramExists (prog_id prog)))) (\<lambda>_.
     act_then (case fee of Some transition \<Rightarrow> verify_transition env transition
               | None \<Rightarrow> pure_action (\<lambda>_. Ok ())) (\<lambda>_.
     pure_action (\<lambda>_. vm_verify_deployment (e_vm env) prog verifying_keys))))"
| "validate_contents env (Execution i ts) =
     act_then (pure_action (\<lambda>_. ensure (ts \<noteq> []) NoTransitions)) (\<lambda>_.
     locked
       (act_then (pure_action (\<lambda>_. stake_updates (e_vm env) (e_crypto env) (Execution i ts))) (\<lambda>updates.
        act_then (pure_action (\<lambda>s. try_each (validate (e_crypto env) (app_validators s)) updates)) (\<lambda>_.
        act_each (verify_transition env) ts))))"

definition validate_transaction ::
  "('db, 'f, 'er, 'tr, 'out) env \<Rightarrow> 'tr transaction \<Rightarrow> ('db app, unit) action" where
  "validate_transaction env tx =
     act_then (pure_action (\<lambda>_. verify (e_tx env) tx)) (\<lambda>_. validate_contents env tx)"

text \<open>The three checks \<open>check_tx\<close> and \<open>deliver_tx\<close> share.\<close>

definition run_checks ::
  "('db, 'f, 'er, 'tr, 'out) env \<Rightarrow> 'tr transaction \<Rightarrow> ('db app, unit) action" where
  "run_checks env tx =
     act_then (pure_action (\<lambda>_. check_no_duplicate_records (e_vm env) tx)) (\<lambda>_.
     act_then (check_inputs_are_unspent env tx) (\<lambda>_.
     validate_transaction env tx))"


section \<open>Applying a transaction\<close>

definition spend_input_records ::
  "('db, 'f, 'er, 'tr, 'out) env \<Rightarrow> 'tr transaction \<Rightarrow> ('db app, unit) action" where
  "spend_input_records env tx =
     act_each (\<lambda>n. on_records (spend (e_kv env) (e_vm env) n)) (record_serial_numbers (e_vm env) tx)"

definition add_output_records ::
  "('db, 'f, 'er, 'tr, 'out) env \<Rightarrow> 'tr transaction \<Rightarrow> ('db app, unit) action" where
  "add_output_records env tx =
     act_each (\<lambda>(commitment, record). on_records (add (e_kv env) (e_vm env) commitment record))
       (output_records (e_vm env) tx)"

text \<open>The fees are collected before the updates are extracted, \<open>as u64\<close> keeps their bits.\<close>

definition update_validators ::
  "('db, 'f, 'er, 'tr, 'out) env \<Rightarrow> 'tr transaction \<Rightarrow> ('db app, unit) action" where
  "update_validators env tx =
     locked (on_validators
       (act_then (\<lambda>vs. (Ok (), collect (fees (e_vm env) tx) vs)) (\<lambda>_.
        act_then (pure_action (\<lambda>_. stake_updates (e_vm env) (e_crypto env) tx)) (\<lambda>updates.
        act_each (apply_update (e_crypto env)) updates))))"

fun store_program ::
  "('db, 'f, 'er, 'tr, 'out) env \<Rightarrow> 'tr transaction \<Rightarrow> ('db app, unit) action" where
  "store_program env (Deployment i prog verifying_keys fee) =
     on_programs (add_program (e_kv env) (e_bincode env) (prog_id prog) prog verifying_keys)"
| "store_program env (Execution i ts) = pure_action (\<lambda>_. Ok ())"

text \<open>\<open>.map(|_| self.update_validators(&tx))\<close> wraps the result, so only its panic is seen.\<close>

definition ignore_error :: "('s, unit) action \<Rightarrow> ('s, unit) action" where
  "ignore_error m s = (case m s of (Err e, t) \<Rightarrow> (Ok (), t) | (r, t) \<Rightarrow> (r, t))"

definition apply_transaction ::
  "('db, 'f, 'er, 'tr, 'out) env \<Rightarrow> 'tr transaction \<Rightarrow> ('db app, unit) action" where
  "apply_transaction env tx =
     act_then (ignore_error (update_validators env tx)) (\<lambda>_.
     act_then (spend_input_records env tx) (\<lambda>_.
     act_then (add_output_records env tx) (\<lambda>_.
     store_program env tx)))"


section \<open>The ABCI handlers\<close>

text \<open>
  A request carries bytes; a transaction is the outcome of \<open>bincode::deserialize\<close> on them, and
  \<open>unwrap\<close> panics when they do not decode.
\<close>

datatype check_response = CheckOk i64 | CheckFailed error
datatype deliver_response = Delivered string | DeliverFailed error

definition check_tx ::
  "('db, 'f, 'er, 'tr, 'out) env \<Rightarrow> 'tr transaction option \<Rightarrow> ('db app, check_response) action" where
  "check_tx env request s =
     (case request of
        None \<Rightarrow> (Panic ''decode transaction'', s)
      | Some tx \<Rightarrow>
          (case run_checks env tx s of
             (Ok _, t) \<Rightarrow> (Ok (CheckOk (fees (e_vm env) tx)), t)
           | (Err e, t) \<Rightarrow> (Ok (CheckFailed e), t)
           | (Panic p, t) \<Rightarrow> (Panic p, t)))"

definition deliver_tx ::
  "('db, 'f, 'er, 'tr, 'out) env \<Rightarrow> 'tr transaction option \<Rightarrow> ('db app, deliver_response) action" where
  "deliver_tx env request s =
     (case request of
        None \<Rightarrow> (Panic ''decode transaction'', s)
      | Some tx \<Rightarrow>
          (case act_then (run_checks env tx) (\<lambda>_. apply_transaction env tx) s of
             (Ok _, t) \<Rightarrow> (Ok (Delivered (tx_id tx)), t)
           | (Err e, t) \<Rightarrow> (Ok (DeliverFailed e), t)
           | (Panic p, t) \<Rightarrow> (Panic p, t)))"

text \<open>A vote of the last commit, with the validator and its power when it is known.\<close>

record vote_info =
  signed_last_block :: bool
  vote_validator :: "(address \<times> i64) option"

fun counted_vote :: "vote_info \<Rightarrow> (address \<times> u64) option" where
  "counted_vote vote_info =
     (if \<not> signed_last_block vote_info then None
      else (case vote_validator vote_info of
              Some (address, voting_power) \<Rightarrow> if sint voting_power < 0 then None else Some (address, voting_power)
            | None \<Rightarrow> None))"

text \<open>The header of a block with the proposer and the height, and the votes when there are any.\<close>

definition app_begin_block ::
  "(address \<times> i64) option \<Rightarrow> vote_info list option \<Rightarrow> ('db app, unit) action" where
  "app_begin_block header last_commit =
     act_then (pure_action (\<lambda>_. expect_some ''received block without header'' header)) (\<lambda>(proposer, height).
     locked (on_validators (\<lambda>vs. (Ok (), begin_block proposer
       (hm_collect (somes (map counted_vote (case last_commit of Some votes \<Rightarrow> votes | None \<Rightarrow> []))))
       height vs))))"

definition end_block :: "('db app, (pub_key \<times> i64) list) action" where
  "end_block = locked (pure_action (\<lambda>s.
     map_ok (map (\<lambda>v. (v_pub_key v, v_voting_power v))) (pending_updates (app_validators s))))"

text \<open>The height file; the panics are intended by the code.\<close>

definition height_read_or_create ::
  "('db, 'f, 'er, 'tr, 'out) env \<Rightarrow> ('db app, i64) action" where
  "height_read_or_create env s =
     (case app_height_file s of
        Height h \<Rightarrow> (Ok h, s)
      | BadHeight \<Rightarrow> (Panic ''contents of height file are not readable'', s)
      | NoHeight \<Rightarrow> if e_height_writable env then (Ok 0, s\<lparr>app_height_file := Height 0\<rparr>)
          else (Panic ''write height file'', s))"

definition height_increment ::
  "('db, 'f, 'er, 'tr, 'out) env \<Rightarrow> ('db app, i64) action" where
  "height_increment env s =
     (case app_height_file s of
        Height h \<Rightarrow> if e_height_writable env then (Ok (h + 1), s\<lparr>app_height_file := Height (h + 1)\<rparr>)
          else (Panic ''write height file'', s)
      | _ \<Rightarrow> (Panic ''read height file'', s))"

definition save_validators ::
  "('db, 'f, 'er, 'tr, 'out) env \<Rightarrow> ('db app, unit) action" where
  "save_validators env s =
     (case commit_validators (e_io env) (app_validators s) (app_validators_file s) of
        (r, content) \<Rightarrow> (r, s\<lparr>app_validators_file := content\<rparr>))"

definition app_commit :: "('db, 'f, 'er, 'tr, 'out) env \<Rightarrow> ('db app, i64) action" where
  "app_commit env =
     act_then (ignore_error (on_records (commit (e_kv env) (e_vm env)))) (\<lambda>_.
     act_then (height_increment env) (\<lambda>height.
     locked
       (act_then (pure_action (\<lambda>s. block_rewards (e_vm env) (e_order env) (app_validators s))) (\<lambda>rewards.
        act_then (act_each (\<lambda>(commitment, record).
          ignore_error (on_records (add (e_kv env) (e_vm env) commitment record))) rewards) (\<lambda>_.
        act_then (ignore_error (save_validators env)) (\<lambda>_. pure_action (\<lambda>_. Ok height)))))))"

text \<open>\<open>GenesisState\<close>, decoded from the JSON of the genesis file.\<close>

record ('f, 'er) genesis_state =
  gs_records :: "('f \<times> 'er) list"
  gs_validators :: "validator list"

definition init_chain ::
  "('db, 'f, 'er, 'tr, 'out) env \<Rightarrow> ('f, 'er) genesis_state option \<Rightarrow> ('db app, unit) action" where
  "init_chain env request =
     act_then (pure_action (\<lambda>_. expect_some ''invalid genesis state'' request)) (\<lambda>state.
     act_then (act_each (\<lambda>(commitment, record). \<lambda>s.
         case on_records (add (e_kv env) (e_vm env) commitment record) s of
           (r, t) \<Rightarrow> (expect_ok ''failure adding genesis records'' r, t)) (gs_records state)) (\<lambda>_.
     locked (on_validators (\<lambda>vs. (Ok (), replace (e_crypto env) (gs_validators state) vs)))))"

definition info :: "('db, 'f, 'er, 'tr, 'out) env \<Rightarrow> ('db app, i64) action" where
  "info env = height_read_or_create env"

text \<open>
  Queries. The answer is the value the code serializes into the response; a query whose bytes
  do not decode is \<open>None\<close>.
\<close>

datatype abci_query = GetRecords | GetSpentSerialNumbers | GetProgram string

datatype ('f, 'er) query_response =
    RecordsResponse "('f \<times> 'er) list" "'f option"
  | SpentResponse "'f list"
  | ProgramResponse "program option"
  | QueryFailed error

definition answer :: "('a \<Rightarrow> 'b) \<Rightarrow> (error \<Rightarrow> 'b) \<Rightarrow> ('s, 'a) action \<Rightarrow> ('s, 'b) action" where
  "answer good bad m s =
     (case m s of
        (Ok a, t) \<Rightarrow> (Ok (good a), t)
      | (Err e, t) \<Rightarrow> (Ok (bad e), t)
      | (Panic p, t) \<Rightarrow> (Panic p, t))"

fun query ::
  "('db, 'f, 'er, 'tr, 'out) env \<Rightarrow> abci_query option \<Rightarrow> ('db app, ('f, 'er) query_response) action" where
  "query env (Some GetRecords) =
     answer (\<lambda>(records, last_key). RecordsResponse records last_key) QueryFailed
       (on_records (scan (e_kv env) (e_vm env) None None))"
| "query env (Some GetSpentSerialNumbers) =
     answer SpentResponse QueryFailed (on_records (scan_spent (e_kv env) (e_vm env)))"
| "query env (Some (GetProgram program_id)) =
     answer (\<lambda>result. ProgramResponse (map_option fst result)) QueryFailed
       (on_programs (get_program (e_kv env) (e_bincode env) program_id))"
| "query env None = pure_action (\<lambda>_. Ok (QueryFailed (External ''decode query'')))"

text \<open>\<open>SnarkVMApp::new\<close> on the databases and files that are found at start-up.\<close>

definition app_new ::
  "('db, 'f, 'er, 'tr, 'out) env \<Rightarrow> program \<times> (string \<times> proving_key \<times> verifying_key) list \<Rightarrow>
   (string \<Rightarrow> string + 'db) \<Rightarrow> string option \<Rightarrow> height_file \<Rightarrow> 'db app result" where
  "app_new env credits open_default validators_file height =
     and_then (expect_ok ''could not create a program store''
       (program_store_new (e_kv env) (e_bincode env) credits open_default ''programs'')) (\<lambda>programs.
     and_then (expect_ok ''could not create a record store'' (record_store_new open_default ''records'')) (\<lambda>records.
     and_then (load_or_create (e_crypto env) (e_io env) validators_file) (\<lambda>validators.
     Ok \<lparr>app_records = records, app_programs = programs, app_validators = validators,
         app_poisoned = False, app_validators_file = validators_file, app_height_file = height\<rparr>)))"

end
