(* ===== verification/Delivery.thy ===== *)
theory Delivery
  imports Application
begin

text \<open>
  The delivery of transactions by the application: what the checks read and leave unchanged,
  what a delivered transaction changes, and the cases in which a transaction is applied in part
  or stops the node.
\<close>

section \<open>Lifted calls\<close>

lemma on_records_eq:
  "m (app_records s) = (r, rs) \<Longrightarrow> on_records m s = (r, s\<lparr>app_records := rs\<rparr>)"
  by (simp add: on_records_def)

lemma on_programs_eq:
  "m (app_programs s) = (r, ps) \<Longrightarrow> on_programs m s = (r, s\<lparr>app_programs := ps\<rparr>)"
  by (simp add: on_programs_def)

lemma on_validators_eq:
  "m (app_validators s) = (r, vs) \<Longrightarrow> on_validators m s = (r, s\<lparr>app_validators := vs\<rparr>)"
  by (simp add: on_validators_def)

lemma locked_Ok_iff: "locked m s = (Ok a, t) \<longleftrightarrow> \<not> app_poisoned s \<and> m s = (Ok a, t)"
  by (auto simp: locked_def split: prod.splits result.splits)

lemma locked_Err_iff: "locked m s = (Err e, t) \<longleftrightarrow> \<not> app_poisoned s \<and> m s = (Err e, t)"
  by (auto simp: locked_def split: prod.splits result.splits)

lemma locked_Panic:
  "\<not> app_poisoned s \<Longrightarrow> m s = (Panic p, t) \<Longrightarrow> locked m s = (Panic p, t\<lparr>app_poisoned := True\<rparr>)"
  by (simp add: locked_def)

lemma locked_poisoned: "app_poisoned s \<Longrightarrow> locked m s = (Panic ''poisoned lock'', s)"
  by (simp add: locked_def)

lemma act_each_append:
  "act_each f (xs @ ys) s = act_then (act_each f xs) (\<lambda>_. act_each f ys) s"
  by (induction xs arbitrary: s) (auto simp: act_then_def split: prod.splits result.splits)

text \<open>A loop over calls on one component is the lifted loop over that component.\<close>

lemma act_each_on_records:
  "act_each (\<lambda>x. on_records (f x)) xs s = on_records (act_each f xs) s"
proof (induction xs arbitrary: s)
  case Nil
  then show ?case by (simp add: on_records_def)
next
  case (Cons x xs)
  obtain r rs where m: "f x (app_records s) = (r, rs)" by force
  with Cons show ?case
    by (cases r) (auto simp: act_then_def on_records_def split: prod.splits)
qed


section \<open>The checks do not change the state\<close>

lemma act_each_unchanged:
  "(\<And>x. x \<in> set xs \<Longrightarrow> snd (f x s) = s) \<Longrightarrow> snd (act_each f xs s) = s"
proof (induction xs)
  case (Cons x xs)
  obtain r t where m: "f x s = (r, t)" by force
  with Cons.prems [of x] have "t = s" by simp
  with Cons m show ?case by (cases r) (auto simp: act_then_def)
qed simp

lemma check_unspent_eq:
  "check_unspent env n s =
     (if rs_alive (app_records s) \<and> \<not> unspent_key (e_kv env) (app_records s) (vm_field_to_string (e_vm env) n)
      then Err (InputSpent (vm_field_to_string (e_vm env) n)) else Ok (), s)"
  by (simp add: check_unspent_def on_records_def is_unspent_eq)

lemma check_inputs_unchanged: "snd (check_inputs_are_unspent env tx s) = s"
  unfolding check_inputs_are_unspent_def by (rule act_each_unchanged) (simp add: check_unspent_eq)

lemma act_each_Ok_unchanged:
  "(\<And>x. x \<in> set xs \<Longrightarrow> snd (f x s) = s) \<Longrightarrow>
   act_each f xs s = (Ok (), t) \<longleftrightarrow> t = s \<and> (\<forall>x \<in> set xs. fst (f x s) = Ok ())"
proof (induction xs)
  case (Cons x xs)
  obtain r u where m: "f x s = (r, u)" by force
  with Cons.prems [of x] have "u = s" by simp
  with Cons m show ?case by (cases r) (auto simp: act_then_def)
qed auto

lemma check_inputs_Ok_iff:
  "check_inputs_are_unspent env tx s = (Ok (), t) \<longleftrightarrow> t = s \<and>
     (rs_alive (app_records s) \<longrightarrow> (\<forall>n \<in> set (record_serial_numbers (e_vm env) tx).
        unspent_key (e_kv env) (app_records s) (vm_field_to_string (e_vm env) n)))"
  unfolding check_inputs_are_unspent_def
  by (subst act_each_Ok_unchanged) (auto simp: check_unspent_eq split: if_splits)

lemma verify_transition_unchanged:
  assumes "kv_laws (e_kv env) contents" and "ps_inv (e_bincode env) contents (app_programs s)"
  shows "snd (verify_transition env tr s) = s"
  using get_program_inv [OF assms, of "vm_program_id (e_vm env) tr"]
  by (auto simp: verify_transition_def on_programs_def act_then_def split: option.splits)

lemma verify_transition_Ok:
  assumes "verify_transition env tr s = (Ok (), t)"
  shows "\<exists>prog keys u. get_program (e_kv env) (e_bincode env) (vm_program_id (e_vm env) tr) (app_programs s)
      = (Ok (Some (prog, keys)), u) \<and> vm_verify_execution (e_vm env) tr keys = Ok ()"
  using assms
  by (auto simp: verify_transition_def on_programs_def act_then_Ok_iff split: option.splits prod.splits)

definition poison_if_panic :: "'a result \<Rightarrow> 'db app \<Rightarrow> 'db app \<Rightarrow> bool" where
  "poison_if_panic r s t \<longleftrightarrow> t = s \<or> (\<exists>p. r = Panic p) \<and> t = s\<lparr>app_poisoned := True\<rparr>"

lemma act_then_unchanged:
  assumes "act_then m f s = (r, t)" and "snd (m s) = s"
  shows "(\<exists>a. m s = (Ok a, s) \<and> f a s = (r, t)) \<or> t = s \<and> \<not> is_ok r"
  using assms by (cases "m s"; cases "fst (m s)") (auto simp: act_then_def)

lemma validate_each_no_panic [simp]:
  "try_each (validate c vs) us \<noteq> Panic p" "Panic p \<noteq> try_each (validate c vs) us"
  by (auto dest!: try_each_Panic) (metis try_each_Panic validate_no_panic)

lemma validate_contents_state:
  assumes laws: "kv_laws (e_kv env) contents" "ps_inv (e_bincode env) contents (app_programs s)"
    and run: "validate_contents env tx s = (r, t)"
  shows "poison_if_panic r s t"
proof (cases tx)
  case (Deployment i prog ks fee)
  have fee: "snd ((case fee of Some tr \<Rightarrow> verify_transition env tr | None \<Rightarrow> pure_action (\<lambda>_. Ok ())) s) = s"
    using verify_transition_unchanged [OF laws] by (simp split: option.splits)
  show ?thesis
    using run fee unfolding Deployment poison_if_panic_def
    by (auto simp: act_then_def split: prod.splits result.splits)
next
  case (Execution i ts)
  have each: "snd (act_each (verify_transition env) ts s) = s"
    by (rule act_each_unchanged) (rule verify_transition_unchanged [OF laws])
  show ?thesis
    using run each unfolding Execution poison_if_panic_def
    by (auto simp: act_then_def locked_def split: prod.splits result.splits if_splits)
qed

lemma run_checks_state:
  assumes laws: "kv_laws (e_kv env) contents" "ps_inv (e_bincode env) contents (app_programs s)"
    and run: "run_checks env tx s = (r, t)"
  shows "poison_if_panic r s t"
  using run check_inputs_unchanged [of env tx s] validate_contents_state [OF laws]
  unfolding run_checks_def validate_transaction_def
  by (auto simp: act_then_def poison_if_panic_def split: prod.splits result.splits)

lemma run_checks_Ok_state:
  assumes "kv_laws (e_kv env) contents" "ps_inv (e_bincode env) contents (app_programs s)"
    and "run_checks env tx s = (Ok (), t)"
  shows "t = s"
  using run_checks_state [OF assms] by (simp add: poison_if_panic_def)



section \<open>What a passed check and a delivery establish\<close>

lemma check_no_duplicates_Ok_iff:
  "check_no_duplicate_records vm tx = Ok () \<longleftrightarrow> distinct (record_serial_numbers vm tx)"
  by (auto simp: check_no_duplicate_records_def split: option.splits)
    (metis first_duplicate_None option.distinct(1))

lemma run_checks_Ok:
  assumes laws: "kv_laws (e_kv env) contents" "ps_inv (e_bincode env) contents (app_programs s)"
    and run: "run_checks env tx s = (Ok (), t)"
  shows "t = s \<and> distinct (record_serial_numbers (e_vm env) tx) \<and> verify (e_tx env) tx = Ok ()
    \<and> (rs_alive (app_records s) \<longrightarrow> (\<forall>n \<in> set (record_serial_numbers (e_vm env) tx).
        unspent_key (e_kv env) (app_records s) (vm_field_to_string (e_vm env) n)))
    \<and> validate_contents env tx s = (Ok (), s)"
proof -
  from run obtain u v where dup: "check_no_duplicate_records (e_vm env) tx = Ok ()"
    and inputs: "check_inputs_are_unspent env tx s = (Ok (), u)"
    and ver: "verify (e_tx env) tx = Ok ()" and val: "validate_contents env tx u = (Ok (), t)"
    by (auto simp: run_checks_def validate_transaction_def act_then_Ok_iff simp del: act_then_pure)
  have u: "u = s" using inputs by (simp add: check_inputs_Ok_iff)
  moreover have "t = s"
    using validate_contents_state [OF laws] val u by (auto simp: poison_if_panic_def)
  ultimately show ?thesis
    using dup inputs ver val by (simp add: check_no_duplicates_Ok_iff check_inputs_Ok_iff)
qed

lemma validate_execution_Ok:
  assumes laws: "kv_laws (e_kv env) contents" "ps_inv (e_bincode env) contents (app_programs s)"
    and run: "validate_contents env (Execution i ts) s = (Ok (), t)"
  shows "ts \<noteq> [] \<and> \<not> app_poisoned s
    \<and> (\<exists>us. stake_updates (e_vm env) (e_crypto env) (Execution i ts) = Ok us
        \<and> (\<forall>u \<in> set us. validate (e_crypto env) (app_validators s) u = Ok ()))
    \<and> (\<forall>tr \<in> set ts. \<exists>prog keys.
        get_program (e_kv env) (e_bincode env) (vm_program_id (e_vm env) tr) (app_programs s)
          = (Ok (Some (prog, keys)), app_programs s)
        \<and> vm_verify_execution (e_vm env) tr keys = Ok ())"
proof -
  from run obtain us where np: "\<not> app_poisoned s" and ne: "ts \<noteq> []"
    and us: "stake_updates (e_vm env) (e_crypto env) (Execution i ts) = Ok us"
    and valid: "try_each (validate (e_crypto env) (app_validators s)) us = Ok ()"
    and each: "act_each (verify_transition env) ts s = (Ok (), t)"
    by (auto simp: act_then_Ok_iff locked_Ok_iff ensure_Ok_iff simp del: act_then_pure)
  have "fst (verify_transition env tr s) = Ok ()" if "tr \<in> set ts" for tr
    using each that act_each_Ok_unchanged [of ts "verify_transition env" s t]
      verify_transition_unchanged [OF laws] by blast
  then have "\<exists>prog keys. get_program (e_kv env) (e_bincode env) (vm_program_id (e_vm env) tr) (app_programs s)
          = (Ok (Some (prog, keys)), app_programs s) \<and> vm_verify_execution (e_vm env) tr keys = Ok ()"
    if "tr \<in> set ts" for tr
    using verify_transition_Ok [of env tr s "snd (verify_transition env tr s)"] that
      get_program_inv [OF laws, of "vm_program_id (e_vm env) tr"]
    by (metis Pair_inject prod.collapse)
  then show ?thesis using np ne us valid by (auto simp: try_each_Ok_iff)
qed

lemma validate_deployment_Ok:
  assumes laws: "kv_laws (e_kv env) contents" "ps_inv (e_bincode env) contents (app_programs s)"
    and run: "validate_contents env (Deployment i prog ks fee) s = (Ok (), t)"
  shows "\<not> kv_may_exist (e_kv env) (ps_db (app_programs s)) (prog_id prog)
    \<and> vm_verify_deployment (e_vm env) prog ks = Ok ()"
  using run assms(2)
  by (auto simp: act_then_Ok_iff ensure_Ok_iff program_exists_def ps_inv_def simp del: act_then_pure split: if_splits)

lemma validated_updates:
  assumes laws: "kv_laws (e_kv env) contents" "ps_inv (e_bincode env) contents (app_programs s)"
    and run: "validate_contents env tx s = (Ok (), t)"
  shows "\<exists>us. stake_updates (e_vm env) (e_crypto env) tx = Ok us
    \<and> (\<forall>u \<in> set us. validate (e_crypto env) (app_validators s) u = Ok ())"
proof (cases tx)
  case (Execution i ts)
  from run validate_execution_Ok [OF laws] show ?thesis unfolding Execution by blast
qed simp

lemma apply_update_not_Err: "apply_update c u vs \<noteq> (Err e, vs')"
  by (simp add: apply_update_eq split: result.splits)

lemma apply_updates_not_Err: "act_each (apply_update c) us vs \<noteq> (Err e, vs')"
proof (induction us arbitrary: vs)
  case (Cons u us)
  obtain r vs1 where m: "apply_update c u vs = (r, vs1)" by force
  with Cons apply_update_not_Err [of c u vs] show ?case by (cases r) (auto simp: act_then_def)
qed simp

lemma update_validators_eq:
  assumes "stake_updates (e_vm env) (e_crypto env) tx = Ok us" and "\<not> app_poisoned s"
  shows "update_validators env tx s =
    (case act_each (apply_update (e_crypto env)) us (collect (fees (e_vm env) tx) (app_validators s)) of
       (Panic p, vs) \<Rightarrow> (Panic p, s\<lparr>app_validators := vs, app_poisoned := True\<rparr>)
     | (r, vs) \<Rightarrow> (r, s\<lparr>app_validators := vs\<rparr>))"
  using assms
  by (simp add: update_validators_def locked_def on_validators_def act_then_def split: prod.splits result.splits)

text \<open>The error that \<open>deliver_tx\<close> ignores cannot occur after a passed validation.\<close>

lemma update_validators_Ok:
  assumes "ignore_error (update_validators env tx) s = (Ok (), t)"
    and "stake_updates (e_vm env) (e_crypto env) tx = Ok us"
  shows "\<not> app_poisoned s \<and> (\<exists>vs. t = s\<lparr>app_validators := vs\<rparr> \<and>
    act_each (apply_update (e_crypto env)) us (collect (fees (e_vm env) tx) (app_validators s)) = (Ok (), vs))"
proof -
  have np: "\<not> app_poisoned s"
    using assms(1) by (auto simp: ignore_error_def update_validators_def locked_def split: if_splits)
  show ?thesis
    using assms(1) np update_validators_eq [OF assms(2) np] apply_updates_not_Err
    by (auto simp: ignore_error_def split: prod.splits result.splits)
qed

lemma add_text_buffer:
  assumes "add_text ops field k r s = (Ok (), t)"
  shows "map_of (rs_record_buffer t) = (map_of (rs_record_buffer s))(k \<mapsto> r)
    \<and> map_of (rs_record_buffer s) k = None \<and> rs_alive s"
  using assms by (auto simp: add_text_eq handle_add_def hm_contains_def split: if_splits)

lemma add_texts_buffer:
  assumes "act_each (\<lambda>(k, r). add_text ops field k r) krs s = (Ok (), t)"
  shows "map_of (rs_record_buffer s) \<subseteq>\<^sub>m map_of (rs_record_buffer t)
    \<and> (\<forall>(k, r) \<in> set krs. map_of (rs_record_buffer t) k = Some r)"
  using assms
proof (induction krs arbitrary: s)
  case Nil
  then show ?case by simp
next
  case (Cons kr krs)
  obtain k r where kr: "kr = (k, r)" by force
  with Cons.prems obtain u where u: "add_text ops field k r s = (Ok (), u)"
    and rest: "act_each (\<lambda>(k, r). add_text ops field k r) krs u = (Ok (), t)"
    by (auto simp: act_then_Ok_iff)
  note one = add_text_buffer [OF u] and ih = Cons.IH [OF rest]
  have "map_of (rs_record_buffer s) \<subseteq>\<^sub>m map_of (rs_record_buffer u)"
    using one by (auto simp: map_le_def)
  moreover have "map_of (rs_record_buffer t) k = Some r"
    using one ih by (auto simp: map_le_def dom_def) 
  ultimately show ?case using ih kr by (auto intro: map_le_trans)
qed


section \<open>Delivery at the level of the stores\<close>

definition input_keys :: "('f, 'er, 'tr, 'out) vm_backend \<Rightarrow> 'tr transaction \<Rightarrow> string list" where
  "input_keys vm tx = map (vm_field_to_string vm) (record_serial_numbers vm tx)"

definition output_texts :: "('f, 'er, 'tr, 'out) vm_backend \<Rightarrow> 'tr transaction \<Rightarrow> (string \<times> string) list" where
  "output_texts vm tx =
     map (\<lambda>(cm, r). (vm_field_to_string vm cm, vm_record_to_string vm r)) (output_records vm tx)"

lemma act_each_map: "act_each f (map g xs) s = act_each (\<lambda>x. f (g x)) xs s"
  by (induction xs arbitrary: s) (auto simp: act_then_def split: prod.splits result.splits)

lemma spend_inputs_eq:
  "spend_input_records env tx s = on_records
     (act_each (spend_key (e_kv env) (vm_field_from_string (e_vm env))) (input_keys (e_vm env) tx)) s"
proof -
  let ?f = "spend_key (e_kv env) (vm_field_from_string (e_vm env))"
  have "act_each (\<lambda>n. spend (e_kv env) (e_vm env) n) ns rs
      = act_each ?f (map (vm_field_to_string (e_vm env)) ns) rs" for ns rs
    by (simp add: act_each_map spend_as_key)
  then show ?thesis
    by (simp add: spend_input_records_def act_each_on_records input_keys_def on_records_def)
qed

lemma add_outputs_eq:
  "add_output_records env tx s = on_records
     (act_each (\<lambda>(k, r). add_text (e_kv env) (vm_field_from_string (e_vm env)) k r) (output_texts (e_vm env) tx)) s"
proof -
  let ?f = "\<lambda>(k, r). add_text (e_kv env) (vm_field_from_string (e_vm env)) k r"
  have "act_each (\<lambda>(cm, r). add (e_kv env) (e_vm env) cm r) os rs = act_each ?f
      (map (\<lambda>(cm, r). (vm_field_to_string (e_vm env) cm, vm_record_to_string (e_vm env) r)) os) rs" for os rs
    by (simp add: act_each_map add_as_text case_prod_unfold)
  moreover have "(\<lambda>(cm, r). on_records (add (e_kv env) (e_vm env) cm r))
      = (\<lambda>x. on_records ((\<lambda>(cm, r). add (e_kv env) (e_vm env) cm r) x))"
    by (simp add: fun_eq_iff case_prod_unfold)
  ultimately show ?thesis
    by (simp add: add_output_records_def act_each_on_records output_texts_def on_records_def)
qed

lemma on_records_Ok_iff:
  "on_records m s = (Ok a, t) \<longleftrightarrow> (\<exists>rs. m (app_records s) = (Ok a, rs) \<and> t = s\<lparr>app_records := rs\<rparr>)"
  by (auto simp: on_records_def split: prod.splits)

lemma on_programs_Ok_iff:
  "on_programs m s = (Ok a, t) \<longleftrightarrow> (\<exists>ps. m (app_programs s) = (Ok a, ps) \<and> t = s\<lparr>app_programs := ps\<rparr>)"
  by (auto simp: on_programs_def split: prod.splits)

lemma deliver_Delivered_iff:
  "deliver_tx env request s = (Ok (Delivered i), t) \<longleftrightarrow>
     (\<exists>tx u. request = Some tx \<and> i = tx_id tx \<and> run_checks env tx s = (Ok (), u)
       \<and> apply_transaction env tx u = (Ok (), t))"
  by (auto simp: deliver_tx_def act_then_Ok_iff split: option.splits prod.splits result.splits)
    (auto simp: act_then_def)

lemma apply_transaction_Ok:
  assumes "apply_transaction env tx s = (Ok (), t)"
    and "stake_updates (e_vm env) (e_crypto env) tx = Ok us"
  shows "\<exists>vs rs1 rs2 u. \<not> app_poisoned s
    \<and> act_each (apply_update (e_crypto env)) us (collect (fees (e_vm env) tx) (app_validators s)) = (Ok (), vs)
    \<and> act_each (spend_key (e_kv env) (vm_field_from_string (e_vm env))) (input_keys (e_vm env) tx) (app_records s)
        = (Ok (), rs1)
    \<and> act_each (\<lambda>(k, r). add_text (e_kv env) (vm_field_from_string (e_vm env)) k r) (output_texts (e_vm env) tx) rs1
        = (Ok (), rs2)
    \<and> u = s\<lparr>app_validators := vs, app_records := rs2\<rparr> \<and> store_program env tx u = (Ok (), t)"
proof -
  from assms(1) obtain s1 s2 s3 where s1: "ignore_error (update_validators env tx) s = (Ok (), s1)"
    and s2: "spend_input_records env tx s1 = (Ok (), s2)"
    and s3: "add_output_records env tx s2 = (Ok (), s3)" and t: "store_program env tx s3 = (Ok (), t)"
    by (auto simp: apply_transaction_def act_then_Ok_iff)
  from update_validators_Ok [OF s1 assms(2)] s2 s3 t show ?thesis
    by (auto simp: spend_inputs_eq add_outputs_eq on_records_Ok_iff)
qed

lemma store_program_frame:
  assumes "store_program env tx s = (r, t)"
  shows "app_records t = app_records s \<and> app_validators t = app_validators s \<and> app_poisoned t = app_poisoned s"
  using assms by (cases tx) (auto simp: on_programs_def split: prod.splits)

lemma add_texts_unspent:
  "act_each (\<lambda>(k, r). add_text ops field k r) krs s = (res, t) \<Longrightarrow> unspent_key ops t m = unspent_key ops s m"
  by (rule key_store.add_list)


section \<open>Properties\<close>

text \<open>C3. What a delivered transaction establishes. Its id is its hash; its serial numbers are
  distinct, were unspent and are now spent, and no other serial number changes; its outputs
  are in the record buffer; the validator set is the old one with the fees collected and the
  staking updates applied; every transition of an execution was verified with the keys of a
  deployed program.\<close>
theorem delivered_transaction_effect:
  assumes "kv_laws (e_kv env) contents" and "ps_inv (e_bincode env) contents (app_programs s)"
    and "deliver_tx env (Some tx) s = (Ok (Delivered i), t)"
  shows "i = tx_id tx \<and> tx_hash (e_tx env) tx = Ok i
    \<and> distinct (record_serial_numbers (e_vm env) tx)
    \<and> (\<forall>k \<in> set (input_keys (e_vm env) tx). unspent_key (e_kv env) (app_records s) k)
    \<and> (\<forall>k. unspent_key (e_kv env) (app_records t) k =
        (unspent_key (e_kv env) (app_records s) k \<and> k \<notin> set (input_keys (e_vm env) tx)))
    \<and> (\<forall>(k, r) \<in> set (output_texts (e_vm env) tx). map_of (rs_record_buffer (app_records t)) k = Some r)
    \<and> (\<exists>us. stake_updates (e_vm env) (e_crypto env) tx = Ok us
        \<and> act_each (apply_update (e_crypto env)) us (collect (fees (e_vm env) tx) (app_validators s))
          = (Ok (), app_validators t))
    \<and> (\<forall>j ts. tx = Execution j ts \<longrightarrow> ts \<noteq> [] \<and> (\<forall>tr \<in> set ts. \<exists>prog keys.
        get_program (e_kv env) (e_bincode env) (vm_program_id (e_vm env) tr) (app_programs s)
          = (Ok (Some (prog, keys)), app_programs s) \<and> vm_verify_execution (e_vm env) tr keys = Ok ()))"
proof -
  from assms(3) obtain u where i: "i = tx_id tx" and checks: "run_checks env tx s = (Ok (), u)"
    and app: "apply_transaction env tx u = (Ok (), t)"
    by (auto simp: deliver_Delivered_iff)
  note ok = run_checks_Ok [OF assms(1,2) checks]
  then have u: "u = s" and val: "validate_contents env tx s = (Ok (), s)" by blast+
  from validated_updates [OF assms(1,2) val] obtain us where
    us: "stake_updates (e_vm env) (e_crypto env) tx = Ok us" by blast
  from apply_transaction_Ok [OF app us] obtain vs rs1 rs2 w where
    vs: "act_each (apply_update (e_crypto env)) us (collect (fees (e_vm env) tx) (app_validators s)) = (Ok (), vs)"
    and rs1: "act_each (spend_key (e_kv env) (vm_field_from_string (e_vm env))) (input_keys (e_vm env) tx)
      (app_records s) = (Ok (), rs1)"
    and rs2: "act_each (\<lambda>(k, r). add_text (e_kv env) (vm_field_from_string (e_vm env)) k r)
      (output_texts (e_vm env) tx) rs1 = (Ok (), rs2)"
    and w: "w = s\<lparr>app_validators := vs, app_records := rs2\<rparr>" and t: "store_program env tx w = (Ok (), t)"
    unfolding u by blast
  have frame: "app_records t = rs2" "app_validators t = vs"
    using store_program_frame [OF t] w by simp_all
  have spent: "\<forall>k \<in> set (input_keys (e_vm env) tx). unspent_key (e_kv env) (app_records s) k"
    "\<forall>k. unspent_key (e_kv env) rs2 k =
       (unspent_key (e_kv env) (app_records s) k \<and> k \<notin> set (input_keys (e_vm env) tx))"
    using key_store.spend_list_Ok [OF rs1] add_texts_unspent [OF rs2] by simp_all
  have buffer: "\<forall>(k, r) \<in> set (output_texts (e_vm env) tx). map_of (rs_record_buffer rs2) k = Some r"
    using add_texts_buffer [OF rs2] by blast
  have exec: "ts \<noteq> [] \<and> (\<forall>tr \<in> set ts. \<exists>prog keys.
        get_program (e_kv env) (e_bincode env) (vm_program_id (e_vm env) tr) (app_programs s)
          = (Ok (Some (prog, keys)), app_programs s) \<and> vm_verify_execution (e_vm env) tr keys = Ok ())"
    if "tx = Execution j ts" for j ts
    using validate_execution_Ok [OF assms(1,2), of j ts s] val that by blast
  have "tx_hash (e_tx env) tx = Ok i" "distinct (record_serial_numbers (e_vm env) tx)"
    using ok i by (simp_all add: verify_Ok_iff)
  then show ?thesis unfolding frame using i us vs spent buffer exec by blast
qed

text \<open>C11. A transaction that fails the checks leaves no trace: \<open>deliver_tx\<close> and \<open>check_tx\<close> both
  report the error and the state is the one before. A transaction that is delivered passes
  \<open>check_tx\<close> on the same state, which answers with its fees as priority and changes nothing.\<close>
theorem checks_are_atomic:
  assumes "kv_laws (e_kv env) contents" and "ps_inv (e_bincode env) contents (app_programs s)"
  shows "(fst (run_checks env tx s) = Err e \<longrightarrow>
      deliver_tx env (Some tx) s = (Ok (DeliverFailed e), s) \<and> check_tx env (Some tx) s = (Ok (CheckFailed e), s))
    \<and> (fst (deliver_tx env (Some tx) s) = Ok (Delivered i) \<longrightarrow>
      check_tx env (Some tx) s = (Ok (CheckOk (fees (e_vm env) tx)), s))"
proof (intro conjI impI)
  obtain r t where run: "run_checks env tx s = (r, t)" by force
  note state = run_checks_state [OF assms run, unfolded poison_if_panic_def]
  assume "fst (run_checks env tx s) = Err e"
  with run state have "run_checks env tx s = (Err e, s)" by auto
  then show "deliver_tx env (Some tx) s = (Ok (DeliverFailed e), s)" "check_tx env (Some tx) s = (Ok (CheckFailed e), s)"
    by (simp_all add: deliver_tx_def check_tx_def act_then_def)
next
  assume "fst (deliver_tx env (Some tx) s) = Ok (Delivered i)"
  then have "deliver_tx env (Some tx) s = (Ok (Delivered i), snd (deliver_tx env (Some tx) s))"
    by (metis prod.collapse)
  then obtain u where "run_checks env tx s = (Ok (), u)" by (auto simp: deliver_Delivered_iff)
  with run_checks_Ok_state [OF assms this] show "check_tx env (Some tx) s = (Ok (CheckOk (fees (e_vm env) tx)), s)"
    by (simp add: check_tx_def)
qed

text \<open>C25. A transaction can be applied in part: the commitments of its outputs are not checked
  before its inputs are spent. When one of them is known already the delivery fails, but the
  fees are collected, the staking updates applied and the inputs spent.\<close>
theorem output_clash_half_applies:
  assumes "kv_laws (e_kv env) contents" and "ps_inv (e_bincode env) contents (app_programs s)"
    and "run_checks env tx s = (Ok (), u)"
    and "stake_updates (e_vm env) (e_crypto env) tx = Ok us"
    and "act_each (apply_update (e_crypto env)) us (collect (fees (e_vm env) tx) (app_validators s)) = (Ok (), vs)"
    and "\<not> app_poisoned s" and "rs_alive (app_records s)" and "distinct (input_keys (e_vm env) tx)"
    and "output_texts (e_vm env) tx = (k, r) # rest"
    and "hm_contains (rs_record_buffer (app_records s)) k"
  shows "\<exists>t. deliver_tx env (Some tx) s = (Ok (DeliverFailed (RecordExists k)), t)
    \<and> app_validators t = vs
    \<and> (\<forall>n \<in> set (input_keys (e_vm env) tx). \<not> unspent_key (e_kv env) (app_records t) n)"
proof -
  note ok = run_checks_Ok [OF assms(1,2,3)]
  then have u: "u = s" and unspent: "\<forall>n \<in> set (input_keys (e_vm env) tx). unspent_key (e_kv env) (app_records s) n"
    using assms(7) by (auto simp: input_keys_def)
  let ?spend = "spend_key (e_kv env) (vm_field_from_string (e_vm env))"
  from key_store.spend_list [OF assms(8)] unspent obtain rs where
    rs: "act_each ?spend (input_keys (e_vm env) tx) (app_records s) = (Ok (), rs)"
    and spent: "\<forall>m. unspent_key (e_kv env) rs m =
      (unspent_key (e_kv env) (app_records s) m \<and> m \<notin> set (input_keys (e_vm env) tx))" by blast
  have keep: "rs_alive rs \<and> rs_record_buffer rs = rs_record_buffer (app_records s)"
    using rs
    by (rule act_each_invariant [where I = "\<lambda>q. rs_alive q \<and> rs_record_buffer q = rs_record_buffer (app_records s)"])
      (use assms(7) in \<open>auto simp: spend_key_eq split: if_splits\<close>)
  then have clash: "add_text (e_kv env) (vm_field_from_string (e_vm env)) k r rs = (Err (RecordExists k), rs)"
    using assms(10) by (simp add: add_text_eq handle_add_def)
  have upd: "ignore_error (update_validators env tx) s = (Ok (), s\<lparr>app_validators := vs\<rparr>)"
    using update_validators_eq [OF assms(4,6)] assms(5) by (simp add: ignore_error_def)
  let ?t = "s\<lparr>app_validators := vs, app_records := rs\<rparr>"
  have "apply_transaction env tx s = (Err (RecordExists k), ?t)"
    using upd rs clash assms(9)
    by (simp add: apply_transaction_def act_then_def spend_inputs_eq add_outputs_eq on_records_def)
  then have "deliver_tx env (Some tx) s = (Ok (DeliverFailed (RecordExists k)), ?t)"
    using assms(3) u by (simp add: deliver_tx_def act_then_def)
  then show ?thesis using spent by auto
qed

text \<open>C22. A node can be stopped by one transaction: when its staking updates are valid one by one
  but not in sequence, \<open>check_tx\<close> accepts it and \<open>deliver_tx\<close> panics with the lock held, and
  then every later block begin, block end and delivery panics on the poisoned lock.\<close>
theorem invalid_sequence_stops_node:
  assumes "kv_laws (e_kv env) contents" and "ps_inv (e_bincode env) contents (app_programs s)"
    and "run_checks env tx s = (Ok (), u)"
    and "stake_updates (e_vm env) (e_crypto env) tx = Ok us"
    and "fst (act_each (apply_update (e_crypto env)) us (collect (fees (e_vm env) tx) (app_validators s))) = Panic msg"
    and "\<not> app_poisoned s"
  shows "check_tx env (Some tx) s = (Ok (CheckOk (fees (e_vm env) tx)), s)
    \<and> (\<exists>t. deliver_tx env (Some tx) s = (Panic msg, t)
        \<and> (\<forall>header votes. fst (app_begin_block (Some header) votes t) = Panic ''poisoned lock'')
        \<and> fst (end_block t) = Panic ''poisoned lock''
        \<and> (\<forall>request i. fst (deliver_tx env request t) \<noteq> Ok (Delivered i)))"
proof -
  note ok = run_checks_Ok_state [OF assms(1-3)]
  obtain vs where vs: "act_each (apply_update (e_crypto env)) us (collect (fees (e_vm env) tx) (app_validators s))
      = (Panic msg, vs)" using assms(5) by (metis prod.collapse)
  let ?t = "s\<lparr>app_validators := vs, app_poisoned := True\<rparr>"
  have "deliver_tx env (Some tx) s = (Panic msg, ?t)"
    using assms(3) ok update_validators_eq [OF assms(4,6)] vs
    by (simp add: deliver_tx_def act_then_def apply_transaction_def ignore_error_def)
  moreover have "fst (app_begin_block (Some header) votes ?t) = Panic ''poisoned lock''" for header votes
    by (cases header) (simp add: app_begin_block_def locked_def)
  moreover have "fst (end_block ?t) = Panic ''poisoned lock''"
    by (simp add: end_block_def locked_def)
  moreover have "fst (deliver_tx env request ?t) \<noteq> Ok (Delivered i)" for request i
  proof
    assume "fst (deliver_tx env request ?t) = Ok (Delivered i)"
    then have "deliver_tx env request ?t = (Ok (Delivered i), snd (deliver_tx env request ?t))"
      by (metis prod.collapse)
    then obtain tx' w where "run_checks env tx' ?t = (Ok (), w)" "apply_transaction env tx' w = (Ok (), snd (deliver_tx env request ?t))"
      by (auto simp: deliver_Delivered_iff)
    moreover from this(1) have "w = ?t"
      by (rule run_checks_Ok_state [OF assms(1), rotated]) (use assms(2) in simp)
    ultimately show False
      by (auto simp: apply_transaction_def act_then_Ok_iff ignore_error_def update_validators_def locked_def)
  qed
  ultimately show ?thesis using assms(3) ok by (auto simp: check_tx_def)
qed


section \<open>Witnesses\<close>

text \<open>A node with the credits program, two validators and one buffered record.\<close>

definition staking_keys :: vk_map where
  "staking_keys = map (\<lambda>f. (f, VerifyingKey ''vk'')) [''fee'', ''stake'', ''unstake'']"

definition staking_program :: program where
  "staking_program =
     \<lparr>prog_id = ''credits.aleo'', prog_functions = map (\<lambda>f. (f, f)) [''fee'', ''stake'', ''unstake''],
      prog_source = ''credits''\<rparr>"

definition staking_bincode :: bincode where
  "staking_bincode =
     \<lparr>bc_serialize = (\<lambda>p. if p = (staking_program, staking_keys) then Some ''k'' else None),
      bc_deserialize = (\<lambda>text. if text = ''k'' then Some (staking_program, staking_keys) else None)\<rparr>"

definition sample_env ::
  "((string \<times> string) list, string, string, lambda_transition, variable_type) env" where
  "sample_env =
     \<lparr>e_vm = sample_vm, e_crypto = sample_crypto, e_tx = sample_tx_crate, e_kv = memory_kv,
      e_bincode = staking_bincode, e_io = sample_io, e_order = id, e_height_writable = True\<rparr>"

definition sample_app :: "(string \<times> string) list app" where
  "sample_app =
     \<lparr>app_records = sample_store\<lparr>rs_record_buffer := [(''record'', ''r'')]\<rparr>,
      app_programs = \<lparr>ps_alive = True, ps_db = [(''credits.aleo'', ''k'')]\<rparr>,
      app_validators = sample_set, app_poisoned = False, app_validators_file = None,
      app_height_file = Height 6\<rparr>"

lemma sample_env_simps [simp]:
  "e_vm sample_env = sample_vm" "e_crypto sample_env = sample_crypto" "e_tx sample_env = sample_tx_crate"
  "e_kv sample_env = memory_kv" "e_bincode sample_env = staking_bincode" "e_io sample_env = sample_io"
  "e_order sample_env = id" "e_height_writable sample_env"
  by (simp_all add: sample_env_def)

lemma sample_app_simps [simp]:
  "app_programs sample_app = \<lparr>ps_alive = True, ps_db = [(''credits.aleo'', ''k'')]\<rparr>"
  "app_validators sample_app = sample_set" "app_poisoned sample_app = False"
  "rs_alive (app_records sample_app)" "rs_record_buffer (app_records sample_app) = [(''record'', ''r'')]"
  "rs_spent_buffer (app_records sample_app) = []" "rs_db_spent (app_records sample_app) = [(''s0'', ''1'')]"
  by (simp_all add: sample_app_def sample_store_def new_record_store_def)

lemma sample_app_laws:
  "kv_laws (e_kv sample_env) map_of" "ps_inv (e_bincode sample_env) map_of (app_programs sample_app)"
  using memory_kv_laws by (simp_all add: ps_inv_def decodable_def staking_bincode_def)

text \<open>Transactions of one or two calls of the credits program, under their own hash.\<close>

definition spending :: "string \<Rightarrow> lambda_transition \<Rightarrow> lambda_transition" where
  "spending sn t = t\<lparr>lt_inputs := [OtherVariable sn]\<rparr>"

definition sample_tx :: "lambda_transition list \<Rightarrow> lambda_transition transaction" where
  "sample_tx ts = Execution (case tx_hash sample_tx_crate (Execution ''x'' ts) of Ok h \<Rightarrow> h | _ \<Rightarrow> ''x'') ts"

lemma sample_tx_hash: "tx_hash sample_tx_crate (sample_tx ts) = Ok (tx_id (sample_tx ts))"
proof -
  have "try_map (json_bytes sample_tx_crate) ts = Ok (map (\<lambda>t. bytes_of (lt_program_id t @ ''/'' @ lt_function_name t
      @ ''/'' @ lt_proof t)) ts)"
    by (rule try_map_Ok) (simp add: json_bytes_def sample_tx_crate_def)
  then show ?thesis by (simp add: sample_tx_def tx_hash_def)
qed

lemma sample_verify: "verify sample_tx_crate (sample_tx ts) = Ok ()"
  by (simp add: verify_Ok_iff sample_tx_hash)

lemma sample_get_program:
  "get_program memory_kv staking_bincode ''credits.aleo'' \<lparr>ps_alive = True, ps_db = [(''credits.aleo'', ''k'')]\<rparr>
     = (Ok (Some (staking_program, staking_keys)), \<lparr>ps_alive = True, ps_db = [(''credits.aleo'', ''k'')]\<rparr>)"
  by (simp add: get_program_def handle_get_program_def stored_bytes_def staking_bincode_def)

lemma sample_verify_transition:
  assumes "f \<in> {''fee'', ''stake'', ''unstake''}" and "length outs \<le> 8"
  shows "verify_transition sample_env (spending sn (sample_transition ''credits.aleo'' f outs 0)) sample_app
    = (Ok (), sample_app)"
proof -
  let ?t = "spending sn (sample_transition ''credits.aleo'' f outs 0)"
  have "vm_verify_execution sample_vm ?t staking_keys = Ok ()"
    using assms by (auto simp: lambda_backend_def verify_execution_Ok_iff spending_def sample_transition_def
        program_is_coinbase_def MAX_INPUTS_def MAX_OUTPUTS_def staking_keys_def sample_crate_def)
  moreover have "vm_program_id sample_vm ?t = ''credits.aleo''"
    by (simp add: lambda_backend_def spending_def sample_transition_def)
  moreover have "sample_app\<lparr>app_programs := \<lparr>ps_alive = True, ps_db = [(''credits.aleo'', ''k'')]\<rparr>\<rparr> = sample_app"
    by (simp add: sample_app_def)
  ultimately show ?thesis
    by (simp add: verify_transition_def on_programs_def act_then_def sample_get_program)
qed

lemma sample_serial_numbers:
  "record_serial_numbers sample_vm (sample_tx (map (\<lambda>(sn, f, outs). spending sn (sample_transition ''credits.aleo'' f outs 0)) calls))
     = map fst calls"
  by (induction calls)
    (auto simp: record_serial_numbers_def sample_tx_def lambda_backend_def sample_crate_def spending_def)

lemma sample_stake_update_spending:
  "stake_update sample_vm sample_crypto (spending sn t) = stake_update sample_vm sample_crypto t"
proof -
  have out: "extract_output sample_vm (spending sn t) = extract_output sample_vm t"
    by (simp add: fun_eq_iff extract_output_def lambda_backend_def spending_def)
  have int: "int_output sample_vm (spending sn t) = int_output sample_vm t"
    by (simp add: fun_eq_iff int_output_def out)
  have "vm_program_id sample_vm (spending sn t) = vm_program_id sample_vm t"
    "vm_function_name sample_vm (spending sn t) = vm_function_name sample_vm t"
    by (simp_all add: lambda_backend_def spending_def)
  then show ?thesis by (simp add: stake_update_def stake_of_def out int)
qed

abbreviation call :: "string \<Rightarrow> string \<Rightarrow> variable_type list \<Rightarrow> lambda_transition" where
  "call sn f outs \<equiv> spending sn (sample_transition ''credits.aleo'' f outs 0)"

lemma sample_checks:
  assumes "distinct (map fst calls)" and "''s0'' \<notin> fst ` set calls" and "calls \<noteq> []"
    and "\<forall>(sn, f, outs) \<in> set calls. f \<in> {''fee'', ''stake'', ''unstake''} \<and> length outs \<le> 8"
    and "stake_updates sample_vm sample_crypto (sample_tx (map (\<lambda>(sn, f, outs). call sn f outs) calls)) = Ok us"
    and "\<forall>u \<in> set us. validate sample_crypto sample_set u = Ok ()"
  shows "run_checks sample_env (sample_tx (map (\<lambda>(sn, f, outs). call sn f outs) calls)) sample_app = (Ok (), sample_app)"
proof -
  let ?ts = "map (\<lambda>(sn, f, outs). call sn f outs) calls"
  have sns: "record_serial_numbers sample_vm (sample_tx ?ts) = map fst calls"
    by (rule sample_serial_numbers)
  have inputs: "check_inputs_are_unspent sample_env (sample_tx ?ts) sample_app = (Ok (), sample_app)"
    unfolding check_inputs_Ok_iff using assms(2) sns
    by (auto simp: unspent_key_def handle_is_unspent_def key_exists_or_fails_def hm_contains_def
        lambda_backend_def image_iff)
  have "fst (verify_transition sample_env t sample_app) = Ok () \<and> snd (verify_transition sample_env t sample_app) = sample_app"
    if "t \<in> set ?ts" for t
    using that assms(4) sample_verify_transition by (force simp: sample_verify_transition)
  then have each: "act_each (verify_transition sample_env) ?ts sample_app = (Ok (), sample_app)"
    by (subst act_each_Ok_unchanged) auto
  have valid: "try_each (validate sample_crypto sample_set) us = Ok ()"
    using assms(6) by (simp add: try_each_Ok_iff)
  have "validate_contents sample_env (sample_tx ?ts) sample_app = (Ok (), sample_app)"
    using assms(3,5) each valid
    by (simp add: sample_tx_def act_then_def locked_def del: stake_updates.simps)
  moreover have "check_no_duplicate_records sample_vm (sample_tx ?ts) = Ok ()"
    using assms(1) sns by (simp add: check_no_duplicates_Ok_iff)
  ultimately show ?thesis
    using inputs by (simp add: run_checks_def validate_transaction_def act_then_def sample_verify)
qed

text \<open>The calls of the witnesses.\<close>

abbreviation fee_call :: "string \<times> string \<times> variable_type list" where
  "fee_call \<equiv> (''s1'', ''fee'', [OtherVariable ''c1''])"

abbreviation unstake_call :: "string \<Rightarrow> string \<times> string \<times> variable_type list" where
  "unstake_call sn \<equiv> (sn, ''unstake'', staking_outputs 1 6)"

definition sample_calls :: "(string \<times> string \<times> variable_type list) list \<Rightarrow> lambda_transition transaction" where
  "sample_calls calls = sample_tx (map (\<lambda>(sn, f, outs). call sn f outs) calls)"

lemma sample_updates:
  "stake_updates sample_vm sample_crypto (sample_calls [fee_call]) = Ok []"
  "stake_updates sample_vm sample_crypto (sample_calls [unstake_call a]) = Ok [sample_stake 1 (- 6)]"
  "stake_updates sample_vm sample_crypto (sample_calls [unstake_call a, unstake_call b])
     = Ok [sample_stake 1 (- 6), sample_stake 1 (- 6)]"
proof -
  have fee: "stake_update sample_vm sample_crypto (sample_transition ''credits.aleo'' ''fee'' outs 0) = Ok None" for outs
    by (simp add: stake_update_def lambda_backend_def sample_transition_def)
  show "stake_updates sample_vm sample_crypto (sample_calls [fee_call]) = Ok []"
    by (simp add: sample_calls_def sample_tx_def sample_stake_update_spending fee)
  show "stake_updates sample_vm sample_crypto (sample_calls [unstake_call a]) = Ok [sample_stake 1 (- 6)]"
    "stake_updates sample_vm sample_crypto (sample_calls [unstake_call a, unstake_call b])
     = Ok [sample_stake 1 (- 6), sample_stake 1 (- 6)]"
    by (simp_all add: sample_calls_def sample_tx_def sample_stake_update_spending sample_stake_update)
qed

lemma sample_validate: "validate sample_crypto sample_set (sample_stake 1 (- 6)) = Ok ()"
  by (simp add: validate_def sample_set_def validator_apply_def)

lemma length_staking_outputs [simp]: "length (staking_outputs n a) = 8"
  by (simp add: staking_outputs_def)

lemma sample_run_checks:
  "run_checks sample_env (sample_calls [fee_call]) sample_app = (Ok (), sample_app)"
  "run_checks sample_env (sample_calls [unstake_call ''s1'']) sample_app = (Ok (), sample_app)"
  "run_checks sample_env (sample_calls [unstake_call ''s1'', unstake_call ''s2'']) sample_app = (Ok (), sample_app)"
  subgoal
    unfolding sample_calls_def
    by (rule sample_checks [OF _ _ _ _ sample_updates(1) [unfolded sample_calls_def]]) simp_all
  subgoal
    unfolding sample_calls_def
    by (rule sample_checks [OF _ _ _ _ sample_updates(2) [unfolded sample_calls_def]])
      (simp_all add: sample_validate)
  subgoal
    unfolding sample_calls_def
    by (rule sample_checks [OF _ _ _ _ sample_updates(3) [unfolded sample_calls_def]])
      (simp_all add: sample_validate)
  done

lemma sample_keys:
  "input_keys sample_vm (sample_calls calls) = map fst calls"
proof -
  have "vm_field_to_string sample_vm = id" by (simp add: lambda_backend_def)
  then show ?thesis by (simp add: input_keys_def sample_calls_def sample_serial_numbers)
qed

lemma sample_outputs:
  "output_texts sample_vm (sample_calls [fee_call]) = [(''c1'', ''record'')]"
  "output_texts sample_vm (sample_calls [unstake_call sn]) = [(''record'', ''record''), (''record'', ''record'')]"
  by (simp_all add: output_texts_def sample_calls_def output_records_def sample_tx_def lambda_backend_def
      sample_crate_def spending_def sample_transition_def staking_outputs_def)

lemma sample_unspent: "unspent_key memory_kv (app_records sample_app) ''s1''"
  by (simp add: unspent_key_def handle_is_unspent_def key_exists_or_fails_def hm_contains_def)

lemma sample_delivery:
  "\<exists>t. deliver_tx sample_env (Some (sample_calls [fee_call])) sample_app
     = (Ok (Delivered (tx_id (sample_calls [fee_call]))), t)"
proof -
  let ?tx = "sample_calls [fee_call]"
  let ?vs = "collect (fees sample_vm ?tx) sample_set"
  have upd: "ignore_error (update_validators sample_env ?tx) sample_app = (Ok (), sample_app\<lparr>app_validators := ?vs\<rparr>)"
    using update_validators_eq [of sample_env ?tx "[]" sample_app] sample_updates(1)
    by (simp add: ignore_error_def)
  obtain rs where rs: "spend_key memory_kv (vm_field_from_string sample_vm) ''s1'' (app_records sample_app) = (Ok (), rs)"
    and keep: "rs_alive rs" "rs_record_buffer rs = [(''record'', ''r'')]" "rs_db_records rs = [(''c0'', ''r0'')]"
    using sample_unspent by (auto simp: spend_key_eq sample_app_def sample_store_def new_record_store_def)
  obtain rs2 where "add_text memory_kv (vm_field_from_string sample_vm) ''c1'' ''record'' rs = (Ok (), rs2)"
    using keep by (auto simp: add_text_eq handle_add_def hm_contains_def key_exists_or_fails_def)
  with upd rs have "\<exists>t. apply_transaction sample_env ?tx sample_app = (Ok (), t)"
    by (simp add: apply_transaction_def act_then_def spend_inputs_eq add_outputs_eq on_records_def sample_keys
        sample_outputs) (simp add: sample_calls_def sample_tx_def)
  then show ?thesis using sample_run_checks(1) by (auto simp: deliver_Delivered_iff)
qed

lemma validator_address_power: "validator_address c (v\<lparr>v_voting_power := p\<rparr>) = validator_address c v"
  by (simp add: validator_address_def)

theorem delivered_transaction_effect_witness:
  "\<exists>t. deliver_tx sample_env (Some (sample_calls [fee_call])) sample_app
      = (Ok (Delivered (tx_id (sample_calls [fee_call]))), t)
    \<and> \<not> unspent_key memory_kv (app_records t) ''s1''
    \<and> map_of (rs_record_buffer (app_records t)) ''c1'' = Some ''record''"
proof -
  from sample_delivery obtain t where t: "deliver_tx sample_env (Some (sample_calls [fee_call])) sample_app
      = (Ok (Delivered (tx_id (sample_calls [fee_call]))), t)" by blast
  from delivered_transaction_effect [OF sample_app_laws t] t show ?thesis
    by (simp add: sample_keys sample_outputs)
qed

theorem checks_are_atomic_witness:
  "check_tx sample_env (Some (sample_calls [fee_call])) sample_app
     = (Ok (CheckOk (fees sample_vm (sample_calls [fee_call]))), sample_app)
   \<and> deliver_tx sample_env (Some (Execution ''bad'' [])) sample_app = (Ok (DeliverFailed CorruptedId), sample_app)"
proof
  show "check_tx sample_env (Some (sample_calls [fee_call])) sample_app
     = (Ok (CheckOk (fees sample_vm (sample_calls [fee_call]))), sample_app)"
    using checks_are_atomic [OF sample_app_laws, of "sample_calls [fee_call]" _ "tx_id (sample_calls [fee_call])"]
      sample_delivery by auto
  have "fst (run_checks sample_env (Execution ''bad'' []) sample_app) = Err CorruptedId"
    by (simp add: run_checks_def act_then_def check_no_duplicate_records_def record_serial_numbers_def
        check_inputs_are_unspent_def validate_transaction_def verify_def tx_hash_def sample_tx_crate_def
        text_of_def ensure_def first_duplicate_def)
  with checks_are_atomic [OF sample_app_laws, of "Execution ''bad'' []" CorruptedId "''x''"]
  show "deliver_tx sample_env (Some (Execution ''bad'' [])) sample_app = (Ok (DeliverFailed CorruptedId), sample_app)"
    by simp
qed

theorem output_clash_half_applies_witness:
  "\<exists>t. deliver_tx sample_env (Some (sample_calls [unstake_call ''s1''])) sample_app
      = (Ok (DeliverFailed (RecordExists ''record'')), t)
    \<and> power_of (app_validators t) (sample_address 1) = 4 \<and> \<not> unspent_key memory_kv (app_records t) ''s1''"
proof -
  let ?tx = "sample_calls [unstake_call ''s1'']"
  obtain vs where vs: "apply_update sample_crypto (sample_stake 1 (- 6))
      (collect (fees sample_vm ?tx) sample_set) = (Ok (), vs)"
    and p: "power_of vs (sample_address 1) = 4"
    by (simp add: act_then_def apply_update_eq updated_validator_def collect_def sample_set_def validator_apply_def
        power_of_def marked_def)
  have "\<exists>t. deliver_tx sample_env (Some ?tx) sample_app = (Ok (DeliverFailed (RecordExists ''record'')), t)
      \<and> app_validators t = vs \<and> (\<forall>n \<in> set (input_keys (e_vm sample_env) ?tx).
        \<not> unspent_key (e_kv sample_env) (app_records t) n)"
    by (rule output_clash_half_applies [OF sample_app_laws sample_run_checks(2),
          where us = "[sample_stake 1 (- 6)]" and rest = "[(''record'', ''record'')]"])
      (simp_all add: sample_updates vs sample_keys sample_outputs hm_contains_def act_then_def)
  then show ?thesis using p by (auto simp: sample_keys)
qed

theorem invalid_sequence_stops_node_witness:
  "check_tx sample_env (Some (sample_calls [unstake_call ''s1'', unstake_call ''s2''])) sample_app
      = (Ok (CheckOk (fees sample_vm (sample_calls [unstake_call ''s1'', unstake_call ''s2'']))), sample_app)
   \<and> (\<exists>t. deliver_tx sample_env (Some (sample_calls [unstake_call ''s1'', unstake_call ''s2''])) sample_app
        = (Panic ''attempted to apply an invalid update'', t) \<and> fst (end_block t) = Panic ''poisoned lock'')"
proof -
  let ?tx = "sample_calls [unstake_call ''s1'', unstake_call ''s2'']"
  have "fst (act_each (apply_update sample_crypto) [sample_stake 1 (- 6), sample_stake 1 (- 6)]
      (collect (fees sample_vm ?tx) sample_set)) = Panic ''attempted to apply an invalid update''"
    by (simp add: act_then_def apply_update_eq updated_validator_def collect_def sample_set_def validator_apply_def
        marked_def validator_address_power)
  with invalid_sequence_stops_node [OF sample_app_laws sample_run_checks(3)] sample_updates(3)
  show ?thesis by fastforce
qed

end
