(* ===== verification/Chain.thy ===== *)
theory Chain
  imports Delivery
begin

text \<open>
  Histories of the application: sequences of ABCI requests, and the relations between the state
  before and after them. Tendermint sends the requests of a block in order on one connection;
  queries and mempool checks may come between any two of them.
\<close>

section \<open>Requests\<close>

datatype ('f, 'er, 'tr) request =
    InitChain "('f, 'er) genesis_state option"
  | Info
  | Query "abci_query option"
  | CheckTx "'tr transaction option"
  | BeginBlock "(address \<times> i64) option" "vote_info list option"
  | DeliverTx "'tr transaction option"
  | EndBlock
  | Commit

text \<open>The state after a request, whatever its answer, and the transaction it delivered, if any.\<close>

fun handle_request ::
  "('db, 'f, 'er, 'tr, 'out) env \<Rightarrow> ('f, 'er, 'tr) request \<Rightarrow> 'db app \<Rightarrow> 'tr transaction list \<times> 'db app" where
  "handle_request env (InitChain g) s = ([], snd (init_chain env g s))"
| "handle_request env Info s = ([], snd (info env s))"
| "handle_request env (Query q) s = ([], snd (query env q s))"
| "handle_request env (CheckTx r) s = ([], snd (check_tx env r s))"
| "handle_request env (BeginBlock header votes) s = ([], snd (app_begin_block header votes s))"
| "handle_request env (DeliverTx r) s =
     (case deliver_tx env r s of
        (Ok (Delivered i), t) \<Rightarrow> (case r of Some tx \<Rightarrow> [tx] | None \<Rightarrow> [], t)
      | (_, t) \<Rightarrow> ([], t))"
| "handle_request env EndBlock s = ([], snd (end_block s))"
| "handle_request env Commit s = ([], snd (app_commit env s))"

fun run_requests ::
  "('db, 'f, 'er, 'tr, 'out) env \<Rightarrow> ('f, 'er, 'tr) request list \<Rightarrow> 'db app \<Rightarrow> 'tr transaction list \<times> 'db app" where
  "run_requests env [] s = ([], s)"
| "run_requests env (r # rs) s =
     (case handle_request env r s of (txs, t) \<Rightarrow>
      case run_requests env rs t of (txs', u) \<Rightarrow> (txs @ txs', u))"


section \<open>Relations kept by lifted calls\<close>

lemma keeps_on_records:
  "keeps Q m \<Longrightarrow> (\<And>s rs. Q (app_records s) rs \<Longrightarrow> P s (s\<lparr>app_records := rs\<rparr>)) \<Longrightarrow> keeps P (on_records m)"
  unfolding keeps_def on_records_def by (auto simp: case_prod_unfold)

lemma keeps_on_programs:
  "keeps Q m \<Longrightarrow> (\<And>s ps. Q (app_programs s) ps \<Longrightarrow> P s (s\<lparr>app_programs := ps\<rparr>)) \<Longrightarrow> keeps P (on_programs m)"
  unfolding keeps_def on_programs_def by (auto simp: case_prod_unfold)

lemma keeps_on_validators:
  "(\<And>s vs. P s (s\<lparr>app_validators := vs\<rparr>)) \<Longrightarrow> keeps P (on_validators m)"
  unfolding keeps_def on_validators_def by (auto simp: case_prod_unfold)

text \<open>A property of states that a call keeps is the relation that it carries over.\<close>

definition carries :: "('s \<Rightarrow> bool) \<Rightarrow> 's \<Rightarrow> 's \<Rightarrow> bool" where
  "carries I s t \<longleftrightarrow> (I s \<longrightarrow> I t)"

lemma carries_refl: "carries I s s" and carries_trans: "carries I s t \<Longrightarrow> carries I t u \<Longrightarrow> carries I s u"
  by (simp_all add: carries_def)

lemma keeps_ignore: "keeps P m \<Longrightarrow> keeps P (ignore_error m)"
  unfolding keeps_def ignore_error_def by (auto split: prod.splits result.splits) (metis snd_conv)+

lemma keeps_answer: "keeps P m \<Longrightarrow> keeps P (answer good bad m)"
  unfolding keeps_def answer_def by (auto split: prod.splits result.splits) (metis snd_conv)+

text \<open>What the handlers need of a relation beyond the calls on the stores.\<close>

locale app_relation = action_relation P for P :: "'db app \<Rightarrow> 'db app \<Rightarrow> bool" +
  assumes P_poisoned: "P s (s\<lparr>app_poisoned := True\<rparr>)"
    and P_files: "P s (s\<lparr>app_validators_file := f\<rparr>)" "P s (s\<lparr>app_height_file := h\<rparr>)"
begin

lemma keeps_locked:
  assumes "keeps P m"
  shows "keeps P (locked m)"
  unfolding keeps_def
proof
  fix s
  obtain r t where m: "m s = (r, t)" by force
  have "P s t" using assms m by (rule keepsD)
  then show "P s (snd (locked m s))"
    using m P_refl P_trans [OF _ P_poisoned] by (cases r) (auto simp: locked_def)
qed

lemma keeps_checks:
  assumes is_unspent: "\<And>n. keeps P (on_records (is_unspent (e_kv env) (e_vm env) n))"
    and get: "\<And>k. keeps P (on_programs (get_program (e_kv env) (e_bincode env) k))"
  shows "keeps P (run_checks env tx)"
proof -
  have one: "keeps P (check_unspent env n)" for n
    using is_unspent [of n] unfolding keeps_def check_unspent_def
    by (auto split: prod.splits result.splits) (metis snd_conv)+
  have ver: "keeps P (verify_transition env t)" for t
    unfolding verify_transition_def by (intro keeps_then get keeps_pure)
  have "keeps P (validate_contents env tx)"
  proof (cases tx)
    case (Deployment i prog ks fee)
    have "keeps P (case fee of Some t \<Rightarrow> verify_transition env t | None \<Rightarrow> pure_action (\<lambda>_. Ok ()))"
      using ver keeps_pure by (cases fee) auto
    then show ?thesis unfolding Deployment validate_contents.simps by (intro keeps_then keeps_pure)
  next
    case (Execution i ts)
    show ?thesis
      unfolding Execution validate_contents.simps
      by (intro keeps_then keeps_pure keeps_locked keeps_each ver)
  qed
  then show ?thesis
    unfolding run_checks_def check_inputs_are_unspent_def validate_transaction_def
    by (intro keeps_then keeps_pure keeps_each one)
qed

lemma keeps_spend_inputs:
  "(\<And>n. keeps P (on_records (spend (e_kv env) (e_vm env) n))) \<Longrightarrow> keeps P (spend_input_records env tx)"
  unfolding spend_input_records_def by (intro keeps_each)

lemma keeps_add_outputs:
  "(\<And>cm r. keeps P (on_records (add (e_kv env) (e_vm env) cm r))) \<Longrightarrow> keeps P (add_output_records env tx)"
  unfolding add_output_records_def by (intro keeps_each) auto

lemma keeps_deliver:
  assumes "\<And>n. keeps P (on_records (is_unspent (e_kv env) (e_vm env) n))"
    and "\<And>k. keeps P (on_programs (get_program (e_kv env) (e_bincode env) k))"
    and "\<And>n. keeps P (on_records (spend (e_kv env) (e_vm env) n))"
    and "\<And>cm r. keeps P (on_records (add (e_kv env) (e_vm env) cm r))"
    and "\<And>tx. request = Some tx \<Longrightarrow> keeps P (store_program env tx)"
    and "\<And>tx. keeps P (ignore_error (update_validators env tx))"
  shows "keeps P (deliver_tx env request)"
proof (cases request)
  case None
  then show ?thesis by (simp add: keeps_def deliver_tx_def P_refl)
next
  case (Some tx)
  have "keeps P (act_then (run_checks env tx) (\<lambda>_. apply_transaction env tx))"
    unfolding apply_transaction_def
    by (intro keeps_then keeps_checks keeps_spend_inputs keeps_add_outputs assms Some)
  then show ?thesis
    unfolding keeps_def deliver_tx_def Some
    by (auto split: prod.splits result.splits) (metis snd_conv)+
qed

lemma keeps_check_tx:
  assumes "\<And>n. keeps P (on_records (is_unspent (e_kv env) (e_vm env) n))"
    and "\<And>k. keeps P (on_programs (get_program (e_kv env) (e_bincode env) k))"
  shows "keeps P (check_tx env request)"
proof (cases request)
  case None
  then show ?thesis by (simp add: keeps_def check_tx_def P_refl)
next
  case (Some tx)
  have "keeps P (run_checks env tx)" by (intro keeps_checks assms)
  then show ?thesis
    unfolding keeps_def check_tx_def Some by (auto split: prod.splits result.splits) (metis snd_conv)+
qed

lemma keeps_end_block: "keeps P end_block"
  unfolding end_block_def by (intro keeps_locked keeps_pure)

lemma keeps_info: "keeps P (info env)"
  unfolding keeps_def info_def height_read_or_create_def
  by (auto simp: P_refl P_files split: height_file.splits)

text \<open>The part of a commit after the commit of the record store.\<close>

lemma keeps_after_commit:
  assumes "\<And>cm r. keeps P (on_records (add (e_kv env) (e_vm env) cm r))"
  shows "keeps P (act_then (height_increment env) (\<lambda>height. locked
       (act_then (pure_action (\<lambda>s. block_rewards (e_vm env) (e_order env) (app_validators s))) (\<lambda>rewards.
        act_then (act_each (\<lambda>(cm, r). ignore_error (on_records (add (e_kv env) (e_vm env) cm r))) rewards) (\<lambda>_.
        act_then (ignore_error (save_validators env)) (\<lambda>_. pure_action (\<lambda>_. Ok height)))))))"
proof -
  have "keeps P (height_increment env)"
    unfolding keeps_def height_increment_def by (auto simp: P_refl P_files split: height_file.splits)
  moreover have "keeps P (save_validators env)"
    unfolding keeps_def save_validators_def by (auto simp: P_files split: prod.splits)
  ultimately show ?thesis
    by (intro keeps_then keeps_locked keeps_pure keeps_each keeps_ignore) (auto intro: keeps_ignore assms)
qed

lemma keeps_query:
  assumes "\<And>k l. keeps P (on_records (scan (e_kv env) (e_vm env) k l))"
    and "keeps P (on_records (scan_spent (e_kv env) (e_vm env)))"
    and "\<And>k. keeps P (on_programs (get_program (e_kv env) (e_bincode env) k))"
  shows "keeps P (query env q)"
proof (cases q)
  case None
  then show ?thesis by (simp add: keeps_pure)
next
  case (Some a)
  then show ?thesis by (cases a) (auto intro!: keeps_answer assms)
qed

lemma commit_respects:
  assumes "P s (s\<lparr>app_records := snd (commit (e_kv env) (e_vm env) (app_records s))\<rparr>)"
    and "\<And>cm r. keeps P (on_records (add (e_kv env) (e_vm env) cm r))"
  shows "P s (snd (app_commit env s))"
proof -
  obtain r rs where c: "commit (e_kv env) (e_vm env) (app_records s) = (r, rs)" by force
  with assms(1) have one: "P s (s\<lparr>app_records := rs\<rparr>)" by simp
  show ?thesis
    using one P_trans [OF one] keeps_after_commit [OF assms(2)]
    by (cases r) (simp_all add: app_commit_def act_then_def ignore_error_def on_records_def c keeps_def)
qed

text \<open>Every request other than a commit, from the calls it makes.\<close>

lemma request_respects:
  assumes "\<And>n. keeps P (on_records (is_unspent (e_kv env) (e_vm env) n))"
    and "\<And>n. keeps P (on_records (spend (e_kv env) (e_vm env) n))"
    and "\<And>cm r. keeps P (on_records (add (e_kv env) (e_vm env) cm r))"
    and "\<And>k l. keeps P (on_records (scan (e_kv env) (e_vm env) k l))"
    and "keeps P (on_records (scan_spent (e_kv env) (e_vm env)))"
    and "\<And>k. keeps P (on_programs (get_program (e_kv env) (e_bincode env) k))"
    and "\<And>tx. r = DeliverTx (Some tx) \<Longrightarrow> keeps P (store_program env tx)"
    and "\<And>tx. keeps P (ignore_error (update_validators env tx))"
    and "\<And>header votes. keeps P (app_begin_block header votes)"
    and "\<And>g. r = InitChain g \<Longrightarrow> keeps P (init_chain env g)"
    and "r \<noteq> Commit"
  shows "P s (snd (handle_request env r s))"
proof (cases r)
  case (DeliverTx request)
  have "keeps P (deliver_tx env request)"
    by (intro keeps_deliver assms) (use DeliverTx in simp)
  then show ?thesis
    unfolding DeliverTx keeps_def
    by (auto split: prod.splits result.splits deliver_response.splits) (metis snd_conv)+
next
  case (CheckTx request)
  have "keeps P (check_tx env request)" by (intro keeps_check_tx assms)
  then show ?thesis by (simp add: CheckTx keeps_def)
next
  case (Query q)
  have "keeps P (query env q)" by (intro keeps_query assms)
  then show ?thesis by (simp add: Query keeps_def)
next
  case (InitChain g)
  then show ?thesis using assms(10) by (simp add: keeps_def)
next
  case (BeginBlock header votes)
  then show ?thesis using assms(9) by (simp add: keeps_def)
qed (use assms(11) keeps_info keeps_end_block in \<open>auto simp: keeps_def\<close>)

end

text \<open>A relation that does not look at the validator set, such as one on the stores.\<close>

locale store_relation = app_relation P for P :: "'db app \<Rightarrow> 'db app \<Rightarrow> bool" +
  assumes P_validators: "P s (s\<lparr>app_validators := vs\<rparr>)"
begin

lemma keeps_update_validators: "keeps P (ignore_error (update_validators env tx))"
  unfolding update_validators_def
  by (intro keeps_ignore keeps_locked keeps_on_validators P_validators)

lemma keeps_begin_block: "keeps P (app_begin_block header votes)"
  unfolding app_begin_block_def
  by (intro keeps_then keeps_pure) (auto intro: keeps_locked keeps_on_validators P_validators)

lemma keeps_init:
  assumes "\<And>cm r. keeps P (on_records (add (e_kv env) (e_vm env) cm r))"
  shows "keeps P (init_chain env request)"
proof -
  have "keeps P (\<lambda>s. case on_records (add (e_kv env) (e_vm env) cm r) s of
      (q, t) \<Rightarrow> (expect_ok ''failure adding genesis records'' q, t))" for cm r
    using assms [of cm r] unfolding keeps_def by (simp add: case_prod_unfold)
  then show ?thesis
    unfolding init_chain_def
    by (intro keeps_then keeps_pure keeps_each keeps_locked keeps_on_validators P_validators) auto
qed

end

text \<open>A relation that every request of a history respects holds between its first and last state.\<close>

lemma run_requests_Cons:
  "handle_request env r s = (txs, t) \<Longrightarrow> run_requests env (r # rs) s =
     (txs @ fst (run_requests env rs t), snd (run_requests env rs t))"
  by (simp add: case_prod_unfold)

lemma run_requests_append:
  "run_requests env (rs @ qs) s =
     (case run_requests env rs s of (txs, t) \<Rightarrow>
      case run_requests env qs t of (txs', u) \<Rightarrow> (txs @ txs', u))"
  by (induction rs arbitrary: s) (auto split: prod.splits)

lemma run_requests_invariant:
  assumes "\<And>r s. r \<in> set rs \<Longrightarrow> I s \<Longrightarrow> I (snd (handle_request env r s))" and "I s"
  shows "I (snd (run_requests env rs s))"
  using assms
proof (induction rs arbitrary: s)
  case (Cons r rs)
  obtain txs t where rt: "handle_request env r s = (txs, t)" by force
  with Cons.prems(1) [of r s] Cons.prems(2) have "I t" by simp
  with Cons show ?case by (simp add: run_requests_Cons [OF rt] del: run_requests.simps)
qed simp

declare run_requests.simps(2) [simp del]

end
