(* ===== verification/History.thy ===== *)
theory History
  imports Chain
begin

text \<open>
  What holds along every history of requests: serial numbers stay spent, deployed programs stay
  deployed, the three components stay well formed, and the record rewards of a block are
  persisted one block late.
\<close>

section \<open>Relations between the states of a history\<close>

text \<open>The record store is untouched, as by every check.\<close>

definition same_records :: "'db app \<Rightarrow> 'db app \<Rightarrow> bool" where
  "same_records s t \<longleftrightarrow> app_records t = app_records s"

text \<open>No serial number that is known to be spent is forgotten.\<close>

definition spent_grows :: "('db \<Rightarrow> string \<Rightarrow> string option) \<Rightarrow> 'db app \<Rightarrow> 'db app \<Rightarrow> bool" where
  "spent_grows contents s t \<longleftrightarrow>
     spent_keys contents (app_records s) \<subseteq> spent_keys contents (app_records t)"

text \<open>The program store stays well formed and loses no program.\<close>

definition programs_grow ::
  "bincode \<Rightarrow> ('db \<Rightarrow> string \<Rightarrow> string option) \<Rightarrow> 'db app \<Rightarrow> 'db app \<Rightarrow> bool" where
  "programs_grow bc contents s t \<longleftrightarrow>
     (ps_inv bc contents (app_programs s) \<longrightarrow> ps_inv bc contents (app_programs t)
        \<and> deployed bc contents (app_programs s) \<subseteq>\<^sub>m deployed bc contents (app_programs t))"

text \<open>The validator set is well formed, unless a panic has poisoned its lock.\<close>

definition validators_good :: "tendermint_crate \<Rightarrow> 'db app \<Rightarrow> bool" where
  "validators_good c s \<longleftrightarrow> app_poisoned s \<or> vs_inv c (app_validators s)"

interpretation record_frame: store_relation "same_records :: 'db app \<Rightarrow> 'db app \<Rightarrow> bool"
  by unfold_locales (auto simp: same_records_def)

interpretation spent_growth: store_relation "spent_grows contents"
  for contents :: "'db \<Rightarrow> string \<Rightarrow> string option"
  by unfold_locales (auto simp: spent_grows_def)

interpretation program_growth: store_relation "programs_grow bc contents"
  for bc :: bincode and contents :: "'db \<Rightarrow> string \<Rightarrow> string option"
  by unfold_locales (auto simp: programs_grow_def intro: map_le_trans)

interpretation record_form: store_relation "carries (\<lambda>s. rs_inv (app_records s))"
  by unfold_locales (auto simp: carries_def)

interpretation validator_frame: action_relation "\<lambda>s t. app_validators t = app_validators (s :: 'db app)"
  by unfold_locales auto

interpretation validator_form: app_relation "carries (validators_good c)" for c :: tendermint_crate
  by unfold_locales (auto simp: carries_def validators_good_def)


section \<open>Calls on the record store\<close>

definition spent_le :: "('db \<Rightarrow> string \<Rightarrow> string option) \<Rightarrow> 'db record_store \<Rightarrow> 'db record_store \<Rightarrow> bool" where
  "spent_le contents s t \<longleftrightarrow> spent_keys contents s \<subseteq> spent_keys contents t"

text \<open>The commands a method sends, and so the relation its call respects.\<close>

lemma keeps_serve_add:
  assumes "\<And>c s. c \<noteq> CommitCommand \<Longrightarrow> P s (snd (serve ops (vm_field_from_string vm) c s))"
  shows "keeps P (add ops vm cm r)" "keeps P (spend ops vm n)" "keeps P (is_unspent ops vm n)"
    "keeps P (scan ops vm k l)" "keeps P (scan_spent ops vm)"
proof -
  show "keeps P (add ops vm cm r)" "keeps P (spend ops vm n)" "keeps P (is_unspent ops vm n)"
    using assms by (simp_all add: keeps_def add_def spend_def is_unspent_def)
  have "P s (snd (scan ops vm k l s))" for s
    using assms [of "ScanRecordsCommand (map_option (vm_field_to_string vm) k) l" s]
    by (auto simp: scan_def split: prod.splits reply.splits)
  then show "keeps P (scan ops vm k l)" by (simp add: keeps_def)
  have "P s (snd (scan_spent ops vm s))" for s
    using assms [of ScanSpentRecordsCommand s]
    by (auto simp: scan_spent_def split: prod.splits reply.splits)
  then show "keeps P (scan_spent ops vm)" by (simp add: keeps_def)
qed

lemma serve_spent_le:
  "kv_laws ops contents \<Longrightarrow> c \<noteq> CommitCommand \<Longrightarrow> spent_le contents s (snd (serve ops field c s))"
  using spent_keys_serve [of ops contents c s field] by (simp add: spent_le_def spent_write_ok_def)

lemma on_records_frame:
  "keeps same_records (on_records (is_unspent ops vm n))"
  by (simp add: keeps_def on_records_def is_unspent_eq same_records_def)

lemma on_programs_frame: "keeps same_records (on_programs m)"
  by (simp add: keeps_def on_programs_def same_records_def case_prod_unfold)

lemma keeps_store_program:
  assumes "\<And>s ps. P s (s\<lparr>app_programs := ps\<rparr>)" and "\<And>s. P s s"
  shows "keeps P (store_program env tx)"
  using assms by (cases tx) (auto simp: keeps_def on_programs_def case_prod_unfold)

lemma run_checks_records: "run_checks env tx s = (r, t) \<Longrightarrow> app_records t = app_records s"
  using record_frame.keeps_checks [OF on_records_frame on_programs_frame, of env tx]
  by (simp add: keeps_def same_records_def) (metis snd_conv)

lemma update_validators_records:
  "ignore_error (update_validators env tx) s = (r, t) \<Longrightarrow> app_records t = app_records s"
  using record_frame.keeps_update_validators [of env tx]
  by (simp add: keeps_def same_records_def) (metis snd_conv)

text \<open>A relation on record stores that every command but a commit respects, lifted to requests.\<close>

lemma keeps_lifted:
  assumes "\<And>c s. c \<noteq> CommitCommand \<Longrightarrow> Q s (snd (serve (e_kv env) (vm_field_from_string (e_vm env)) c s))"
    and "\<And>s rs. Q (app_records s) rs \<Longrightarrow> P s (s\<lparr>app_records := rs\<rparr>)"
  shows "keeps P (on_records (is_unspent (e_kv env) (e_vm env) n))"
    and "keeps P (on_records (spend (e_kv env) (e_vm env) n))"
    and "keeps P (on_records (add (e_kv env) (e_vm env) cm r))"
    and "keeps P (on_records (scan (e_kv env) (e_vm env) k l))"
    and "keeps P (on_records (scan_spent (e_kv env) (e_vm env)))"
  by (rule keeps_on_records [where Q = Q], rule keeps_serve_add, erule assms(1), erule assms(2))+


section \<open>Spent serial numbers\<close>

text \<open>A commit of the history manages to write the spent serial numbers.\<close>

definition writes_spent ::
  "('db, 'f, 'er, 'tr, 'out) env \<Rightarrow> ('f, 'er, 'tr) request \<Rightarrow> 'db app \<Rightarrow> bool" where
  "writes_spent env r s \<longleftrightarrow> (r = Commit \<longrightarrow>
     fst (kv_write (e_kv env) (rs_db_spent (app_records s)) (rs_spent_buffer (app_records s))))"

fun history_written ::
  "('db, 'f, 'er, 'tr, 'out) env \<Rightarrow> ('f, 'er, 'tr) request list \<Rightarrow> 'db app \<Rightarrow> bool" where
  "history_written env [] s = True"
| "history_written env (r # rs) s =
     (writes_spent env r s \<and> history_written env rs (snd (handle_request env r s)))"

lemma request_spent_grows:
  assumes "kv_laws (e_kv env) contents" and "writes_spent env r s"
  shows "spent_grows contents s (snd (handle_request env r s))"
proof -
  have lift: "spent_le contents (app_records s) rs \<Longrightarrow> spent_grows contents s (s\<lparr>app_records := rs\<rparr>)" for s rs
    by (simp add: spent_le_def spent_grows_def)
  note store = keeps_lifted [where Q = "spent_le contents" and P = "spent_grows contents", OF serve_spent_le [OF assms(1)] lift]
  have programs: "keeps (spent_grows contents) (on_programs m)" for m
    by (simp add: keeps_def on_programs_def spent_grows_def case_prod_unfold)
  show ?thesis
  proof (cases "r = Commit")
    case True
    have "spent_grows contents s (s\<lparr>app_records := snd (commit (e_kv env) (e_vm env) (app_records s))\<rparr>)"
      using spent_keys_serve [OF assms(1), of CommitCommand "app_records s" "vm_field_from_string (e_vm env)"]
        assms(2) True
      by (simp add: spent_grows_def commit_def writes_spent_def spent_write_ok_def)
    then have "spent_grows contents s (snd (app_commit env s))"
      by (rule spent_growth.commit_respects) (rule store)
    then show ?thesis by (simp add: True)
  next
    case False
    then show ?thesis
      by (intro spent_growth.request_respects store programs spent_growth.keeps_update_validators
          spent_growth.keeps_begin_block spent_growth.keeps_init keeps_store_program)
        (simp_all add: spent_grows_def)
  qed
qed

text \<open>A list of keys that is spent with success was distinct and unspent, and is spent then.\<close>

lemma spend_list_keys:
  assumes "kv_laws ops contents" and "act_each (spend_key ops field) ks s = (Ok (), t)"
  shows "distinct ks \<and> set ks \<inter> spent_keys contents s = {} \<and> spent_keys contents t = set ks \<union> spent_keys contents s"
  using assms(2)
proof (induction ks arbitrary: s)
  case Nil
  then show ?case by simp
next
  case (Cons k ks)
  then obtain u where u: "spend_key ops field k s = (Ok (), u)"
    and rest: "act_each (spend_key ops field) ks u = (Ok (), t)"
    by (auto simp: act_then_Ok_iff)
  have "handle_spend ops k s = (Ok (), u)"
    using u by (cases "handle_spend ops k s") (auto simp: spend_key_def serve_def split: if_splits)
  from handle_spend_Ok [OF assms(1) this] Cons.IH [OF rest] show ?case by auto
qed

text \<open>The inputs of a delivered transaction.\<close>

lemma delivered_spends:
  assumes "kv_laws (e_kv env) contents" and "handle_request env r s = (txs, t)" and "tx \<in> set txs"
  shows "txs = [tx] \<and> distinct (input_keys (e_vm env) tx)
    \<and> set (input_keys (e_vm env) tx) \<inter> spent_keys contents (app_records s) = {}
    \<and> set (input_keys (e_vm env) tx) \<subseteq> spent_keys contents (app_records t)"
proof -
  from assms(2,3) obtain i where txs: "txs = [tx]" and del: "deliver_tx env (Some tx) s = (Ok (Delivered i), t)"
    by (cases r) (auto split: prod.splits result.splits deliver_response.splits option.splits
        simp: deliver_tx_def)
  then obtain u where checks: "run_checks env tx s = (Ok (), u)" and app: "apply_transaction env tx u = (Ok (), t)"
    by (auto simp: deliver_Delivered_iff)
  from app obtain v w x where v: "ignore_error (update_validators env tx) u = (Ok (), v)"
    and w: "spend_input_records env tx v = (Ok (), w)" and x: "add_output_records env tx w = (Ok (), x)"
    and t: "store_program env tx x = (Ok (), t)"
    by (auto simp: apply_transaction_def act_then_Ok_iff)
  from w obtain rs where rs: "act_each (spend_key (e_kv env) (vm_field_from_string (e_vm env)))
      (input_keys (e_vm env) tx) (app_records v) = (Ok (), rs)" and ws: "w = v\<lparr>app_records := rs\<rparr>"
    by (auto simp: spend_inputs_eq on_records_Ok_iff)
  have "app_records v = app_records s"
    using run_checks_records [OF checks] update_validators_records [OF v] by simp
  moreover have "keeps (spent_grows contents) (add_output_records env tx)"
    using keeps_lifted(3) [where Q = "spent_le contents" and P = "spent_grows contents", OF serve_spent_le [OF assms(1)]]
    by (intro spent_growth.keeps_add_outputs) (simp add: spent_le_def spent_grows_def)
  then have "spent_grows contents w x" by (rule keepsD) (rule x)
  then have "spent_keys contents rs \<subseteq> spent_keys contents (app_records t)"
    using store_program_frame [OF t] ws by (simp add: spent_grows_def)
  ultimately show ?thesis using spend_list_keys [OF assms(1) rs] txs by auto
qed

lemma history_spends:
  assumes "kv_laws (e_kv env) contents" and "history_written env rs s"
  shows "distinct (concat (map (input_keys (e_vm env)) (fst (run_requests env rs s))))
    \<and> (\<forall>tx \<in> set (fst (run_requests env rs s)).
        set (input_keys (e_vm env) tx) \<inter> spent_keys contents (app_records s) = {})"
  using assms(2)
proof (induction rs arbitrary: s)
  case Nil
  then show ?case by simp
next
  case (Cons r rs)
  obtain txs t where rt: "handle_request env r s = (txs, t)" by force
  have grows: "spent_keys contents (app_records s) \<subseteq> spent_keys contents (app_records t)"
    using request_spent_grows [OF assms(1), of r s] Cons.prems rt by (simp add: spent_grows_def)
  from Cons.IH [of t] Cons.prems rt have
    d: "distinct (concat (map (input_keys (e_vm env)) (fst (run_requests env rs t))))"
    and later: "\<forall>tx \<in> set (fst (run_requests env rs t)).
        set (input_keys (e_vm env) tx) \<inter> spent_keys contents (app_records t) = {}" by auto
  show ?case
  proof (cases txs)
    case Nil
    then show ?thesis using d later grows by (auto simp: run_requests_Cons [OF rt])
  next
    case (Cons tx txs')
    with delivered_spends [OF assms(1) rt, of tx] d later grows show ?thesis
      by (auto simp: run_requests_Cons [OF rt]) blast+
  qed
qed


section \<open>Deployed programs\<close>

text \<open>The deployments of a history can be encoded.\<close>

fun deployment_encodable :: "bincode \<Rightarrow> ('f, 'er, 'tr) request \<Rightarrow> bool" where
  "deployment_encodable bc (DeliverTx (Some (Deployment i prog ks fee))) = (bc_serialize bc (prog, ks) \<noteq> None)"
| "deployment_encodable bc _ = True"

lemma call_store_grows:
  assumes "kv_laws ops contents" and "kv_available ops" and "bincode_law bc"
    and "ps_inv bc contents s" and "encodable bc c"
  shows "ps_inv bc contents (call_store ops bc c s)
    \<and> deployed bc contents s \<subseteq>\<^sub>m deployed bc contents (call_store ops bc c s)"
  using call_store_inv [OF assms(1,3,4,5)] call_store_keeps [OF assms(1,2,4,5)]
  by (auto simp: deployed_def map_le_def split: Option.bind_splits)

lemma request_programs_grow:
  assumes "kv_laws (e_kv env) contents" and "kv_available (e_kv env)" and "bincode_law (e_bincode env)"
    and "deployment_encodable (e_bincode env) r"
  shows "programs_grow (e_bincode env) contents s (snd (handle_request env r s))"
proof -
  let ?P = "programs_grow (e_bincode env) contents"
  note store = keeps_lifted [where Q = "\<lambda>_ _. True" and P = ?P]
  have call: "?P s (s\<lparr>app_programs := call_store (e_kv env) (e_bincode env) c (app_programs s)\<rparr>)"
    if "encodable (e_bincode env) c" for s c
    using call_store_grows [OF assms(1-3)] that by (simp add: programs_grow_def)
  have get: "keeps ?P (on_programs (get_program (e_kv env) (e_bincode env) k))" for k
    using call [of "GetCall k"] by (simp add: keeps_def on_programs_def case_prod_unfold)
  have put: "keeps ?P (store_program env tx)" if "r = DeliverTx (Some tx)" for tx
  proof (cases tx)
    case (Deployment i prog ks fee)
    then show ?thesis
      using call [of "AddCall (prog_id prog) prog ks"] that assms(4)
      by (simp add: keeps_def on_programs_def case_prod_unfold)
  qed (simp add: program_growth.keeps_pure)
  have refl: "?P s (s\<lparr>app_records := rs\<rparr>)" for s rs by (simp add: programs_grow_def)
  show ?thesis
  proof (cases "r = Commit")
    case True
    have "?P s (snd (app_commit env s))"
      by (rule program_growth.commit_respects) (auto intro: refl store)
    then show ?thesis by (simp add: True)
  next
    case False
    then show ?thesis
      by (intro program_growth.request_respects store get put program_growth.keeps_update_validators
          program_growth.keeps_begin_block program_growth.keeps_init) (auto intro: refl)
  qed
qed

lemma history_programs_grow:
  assumes "kv_laws (e_kv env) contents" and "kv_available (e_kv env)" and "bincode_law (e_bincode env)"
    and "list_all (deployment_encodable (e_bincode env)) rs"
  shows "programs_grow (e_bincode env) contents s (snd (run_requests env rs s))"
proof (rule run_requests_invariant)
  fix r t
  assume "r \<in> set rs" and "programs_grow (e_bincode env) contents s t"
  with request_programs_grow [OF assms(1-3), of r t] assms(4) program_growth.P_trans
  show "programs_grow (e_bincode env) contents s (snd (handle_request env r t))"
    by (auto simp: list_all_iff)
qed (rule program_growth.P_refl)


section \<open>Well-formed components\<close>

lemma keeps_validators_frame:
  "keeps (carries (validators_good c)) (on_records m)" "keeps (carries (validators_good c)) (on_programs n)"
  by (simp_all add: keeps_def on_records_def on_programs_def carries_def validators_good_def case_prod_unfold)

text \<open>The buffers of the record store hold one entry per key.\<close>

abbreviation records_good :: "'db app \<Rightarrow> bool" where
  "records_good s \<equiv> rs_inv (app_records s)"

lemma request_records_good:
  fixes env :: "('db, 'f, 'er, 'tr, 'out) env" and s :: "'db app"
  assumes "records_good s"
  shows "records_good (snd (handle_request env r s))"
proof -
  have lift: "carries rs_inv (app_records s) rs \<Longrightarrow> carries records_good s (s\<lparr>app_records := rs\<rparr>)" for s :: "'db app" and rs
    by (simp add: carries_def)
  have serve: "carries rs_inv s (snd (serve ops field c s))" for s :: "'db record_store" and ops c and field :: "string \<Rightarrow> 'f option"
    by (simp add: carries_def rs_inv_serve)
  note store = keeps_lifted [where Q = "carries rs_inv" and P = "carries records_good", OF serve lift]
  have programs: "keeps (carries records_good) (on_programs m)" for m
    by (simp add: keeps_def on_programs_def carries_def case_prod_unfold)
  have "carries records_good s (snd (handle_request env r s))"
  proof (cases "r = Commit")
    case True
    have "carries records_good s (s\<lparr>app_records := snd (commit (e_kv env) (e_vm env) (app_records s))\<rparr>)"
      by (simp add: carries_def commit_def rs_inv_serve)
    then have "carries records_good s (snd (app_commit env s))"
      by (rule record_form.commit_respects) (rule store)
    then show ?thesis by (simp add: True)
  next
    case False
    then show ?thesis
      by (intro record_form.request_respects store programs record_form.keeps_update_validators
          record_form.keeps_begin_block record_form.keeps_init keeps_store_program)
        (simp_all add: carries_def)
  qed
  with assms show ?thesis by (simp add: carries_def)
qed

lemma apply_updates_inv:
  "vs_inv c vs \<Longrightarrow> act_each (apply_update c) us vs = (r, vs') \<Longrightarrow> \<not> (\<exists>p. r = Panic p) \<Longrightarrow> vs_inv c vs'"
  using apply_updates_power [of c vs us vs'] apply_updates_not_Err [of c us vs]
  by (cases r) auto

lemma keeps_update_validators_form:
  "keeps (carries (validators_good (e_crypto env))) (ignore_error (update_validators env tx))"
proof -
  let ?c = "e_crypto env" and ?run = "\<lambda>vs. act_then (pure_action (\<lambda>_. stake_updates (e_vm env) (e_crypto env) tx))
        (\<lambda>updates. act_each (apply_update (e_crypto env)) updates) (collect (fees (e_vm env) tx) vs)"
  have inner: "vs_inv ?c vs'" if "vs_inv ?c vs" "?run vs = (r, vs')" "\<not> (\<exists>p. r = Panic p)" for vs vs' r
    using that vs_inv_collect [OF that(1), of "fees (e_vm env) tx"] apply_updates_inv
    by (auto split: result.splits)
  have "carries (validators_good ?c) s (snd (update_validators env tx s))" for s
  proof (cases "app_poisoned s")
    case True
    then show ?thesis by (simp add: update_validators_def locked_poisoned carries_def)
  next
    case False
    obtain r vs where run: "?run (app_validators s) = (r, vs)" by force
    then have "update_validators env tx s = (case r of
        Panic p \<Rightarrow> (Panic p, s\<lparr>app_validators := vs, app_poisoned := True\<rparr>)
      | r \<Rightarrow> (r, s\<lparr>app_validators := vs\<rparr>))"
      using False by (simp add: update_validators_def locked_def on_validators_def act_then_def split: result.splits)
    then show ?thesis
      using inner [OF _ run] False by (cases r) (auto simp: carries_def validators_good_def)
  qed
  then show ?thesis by (intro keeps_ignore) (simp add: keeps_def)
qed

lemma keeps_begin_block_form:
  "keeps (carries (validators_good c)) (app_begin_block header votes)"
proof -
  have "carries (validators_good c) s (snd (locked (on_validators (\<lambda>vs. (Ok (), begin_block p (hm_collect vts) h vs))) s))"
    for p h vts and s :: "'db app"
    by (simp add: locked_def on_validators_def carries_def validators_good_def vs_inv_begin_block)
  then show ?thesis
    unfolding app_begin_block_def
    by (intro validator_form.keeps_then validator_form.keeps_pure) (auto simp: keeps_def)
qed

fun is_genesis :: "('f, 'er, 'tr) request \<Rightarrow> bool" where
  "is_genesis (InitChain g) = True"
| "is_genesis _ = False"

lemma request_validators_good:
  assumes "\<not> is_genesis r" and "validators_good (e_crypto env) s"
  shows "validators_good (e_crypto env) (snd (handle_request env r s))"
proof (cases "r = Commit")
  case True
  have "carries (validators_good (e_crypto env)) s (snd (app_commit env s))"
    by (rule validator_form.commit_respects)
      (simp_all add: keeps_validators_frame, simp add: carries_def validators_good_def)
  with assms(2) show ?thesis by (simp add: True carries_def)
next
  case False
  have "keeps (carries (validators_good (e_crypto env))) (store_program env tx)" for tx
    by (intro keeps_store_program) (simp_all add: carries_def validators_good_def)
  then have "carries (validators_good (e_crypto env)) s (snd (handle_request env r s))"
    using False assms(1)
    by (intro validator_form.request_respects keeps_validators_frame keeps_update_validators_form
        keeps_begin_block_form) auto
  with assms(2) show ?thesis by (simp add: carries_def)
qed

lemma history_validators_good:
  assumes "list_all (\<lambda>r. \<not> is_genesis r) rs" and "validators_good (e_crypto env) s"
  shows "validators_good (e_crypto env) (snd (run_requests env rs s))"
  by (rule run_requests_invariant) (use assms request_validators_good in \<open>auto simp: list_all_iff\<close>)


text \<open>All three components are well formed.\<close>

definition well_formed ::
  "('db, 'f, 'er, 'tr, 'out) env \<Rightarrow> ('db \<Rightarrow> string \<Rightarrow> string option) \<Rightarrow> 'db app \<Rightarrow> bool" where
  "well_formed env contents s \<longleftrightarrow> records_good s \<and> ps_inv (e_bincode env) contents (app_programs s)
     \<and> validators_good (e_crypto env) s"

lemma history_well_formed:
  assumes "kv_laws (e_kv env) contents" and "kv_available (e_kv env)" and "bincode_law (e_bincode env)"
    and "list_all (deployment_encodable (e_bincode env)) rs" and "list_all (\<lambda>r. \<not> is_genesis r) rs"
    and "well_formed env contents s"
  shows "well_formed env contents (snd (run_requests env rs s))"
proof -
  have "records_good (snd (run_requests env rs s))"
    by (rule run_requests_invariant) (use assms(6) in \<open>simp_all add: request_records_good well_formed_def\<close>)
  moreover have "ps_inv (e_bincode env) contents (app_programs (snd (run_requests env rs s)))"
    using history_programs_grow [OF assms(1-4), of s] assms(6) by (simp add: programs_grow_def well_formed_def)
  ultimately show ?thesis
    using history_validators_good [OF assms(5), of env s] assms(6) by (simp add: well_formed_def)
qed

text \<open>Genesis replaces all validators, so it comes before any of them is marked as updated.\<close>

lemma genesis_validators_good:
  assumes "vs_inv (e_crypto env) (app_validators s)" and "vs_updated_validators (app_validators s) = []"
    and "list_all power_ok (gs_validators g)"
  shows "validators_good (e_crypto env) (snd (init_chain env (Some g) s))"
proof -
  let ?add = "act_each (\<lambda>(cm, r). \<lambda>s. case on_records (add (e_kv env) (e_vm env) cm r) s of
      (q, t) \<Rightarrow> (expect_ok ''failure adding genesis records'' q, t)) (gs_records g)"
  have "app_validators (snd (?add s)) = app_validators s"
  proof -
    let ?same = "\<lambda>s t. app_validators t = app_validators (s :: 'a app)"
    have "keeps ?same (\<lambda>s. case on_records (add (e_kv env) (e_vm env) cm r) s of
        (q, t) \<Rightarrow> (expect_ok ''failure adding genesis records'' q, t))" for cm r
      by (simp add: keeps_def on_records_def case_prod_unfold)
    then have "keeps ?same ?add" by (intro validator_frame.keeps_each) auto
    then show ?thesis by (simp add: keeps_def)
  qed
  then show ?thesis
    using assms vs_inv_replace [of "e_crypto env" "app_validators s" "gs_validators g"]
    by (auto simp: init_chain_def act_then_def locked_def on_validators_def validators_good_def
        split: result.splits prod.splits)
qed


section \<open>The validator updates of a block\<close>

text \<open>Every validator that is not marked as updated is the one from before.\<close>

definition changes_marked :: "'db app \<Rightarrow> 'db app \<Rightarrow> bool" where
  "changes_marked s t \<longleftrightarrow>
     set (vs_updated_validators (app_validators s)) \<subseteq> set (vs_updated_validators (app_validators t))
     \<and> (\<forall>a. a \<notin> set (vs_updated_validators (app_validators t)) \<longrightarrow>
          map_of (vs_validators (app_validators t)) a = map_of (vs_validators (app_validators s)) a)"

interpretation marking: app_relation changes_marked
  by unfold_locales (auto simp: changes_marked_def)

text \<open>The requests that come between the begin and the end of a block.\<close>

fun within_block :: "('f, 'er, 'tr) request \<Rightarrow> bool" where
  "within_block (DeliverTx tx) = True"
| "within_block (CheckTx tx) = True"
| "within_block (Query q) = True"
| "within_block Info = True"
| "within_block _ = False"

definition vs_marked :: "validator_set \<Rightarrow> validator_set \<Rightarrow> bool" where
  "vs_marked vs vs' \<longleftrightarrow> set (vs_updated_validators vs) \<subseteq> set (vs_updated_validators vs')
     \<and> (\<forall>a. a \<notin> set (vs_updated_validators vs') \<longrightarrow> map_of (vs_validators vs') a = map_of (vs_validators vs) a)"

interpretation set_marking: action_relation vs_marked
  by unfold_locales (auto simp: vs_marked_def)

lemma keeps_apply_update_marked: "keeps vs_marked (apply_update c u)"
  by (auto simp: keeps_def vs_marked_def apply_update_eq marked_def split: result.splits)

lemma keeps_update_validators_marked:
  "keeps changes_marked (ignore_error (update_validators env tx))"
proof -
  have "keeps vs_marked (act_then (\<lambda>vs. (Ok (), collect (fees (e_vm env) tx) vs)) (\<lambda>_.
        act_then (pure_action (\<lambda>_. stake_updates (e_vm env) (e_crypto env) tx)) (\<lambda>updates.
        act_each (apply_update (e_crypto env)) updates)))"
    by (intro set_marking.keeps_then set_marking.keeps_pure set_marking.keeps_each keeps_apply_update_marked)
      (simp add: keeps_def vs_marked_def collect_def)
  then have "keeps changes_marked (on_validators (act_then (\<lambda>vs. (Ok (), collect (fees (e_vm env) tx) vs)) (\<lambda>_.
        act_then (pure_action (\<lambda>_. stake_updates (e_vm env) (e_crypto env) tx)) (\<lambda>updates.
        act_each (apply_update (e_crypto env)) updates))) :: ('a app, unit) action)"
    by (simp add: keeps_def on_validators_def changes_marked_def vs_marked_def case_prod_unfold)
  then show ?thesis
    unfolding update_validators_def by (intro keeps_ignore marking.keeps_locked)
qed

lemma keeps_marked_frame: "keeps changes_marked (on_records m)" "keeps changes_marked (on_programs n)"
  by (simp_all add: keeps_def on_records_def on_programs_def changes_marked_def case_prod_unfold)

lemma request_changes_marked:
  assumes "within_block r"
  shows "changes_marked s (snd (handle_request env r s))"
proof -
  have store: "keeps changes_marked (store_program env tx)" for tx
    by (intro keeps_store_program) (simp_all add: changes_marked_def)
  show ?thesis
  proof (cases r)
    case (DeliverTx request)
    have "keeps changes_marked (deliver_tx env request)"
      by (intro marking.keeps_deliver keeps_update_validators_marked store keeps_marked_frame)
    then show ?thesis
      unfolding DeliverTx keeps_def
      by (auto split: prod.splits result.splits deliver_response.splits) (metis snd_conv)+
  next
    case (CheckTx request)
    have "keeps changes_marked (check_tx env request)"
      by (intro marking.keeps_check_tx keeps_marked_frame)
    then show ?thesis by (simp add: CheckTx keeps_def)
  next
    case (Query q)
    have "keeps changes_marked (query env q)"
      by (intro marking.keeps_query keeps_marked_frame)
    then show ?thesis by (simp add: Query keeps_def)
  qed (use assms marking.keeps_info [of env] in \<open>auto simp: keeps_def\<close>)
qed

lemma block_changes_marked:
  assumes "list_all within_block rs"
  shows "changes_marked s (snd (run_requests env rs s))"
proof (rule run_requests_invariant)
  fix r t
  assume "r \<in> set rs" and "changes_marked s t"
  with request_changes_marked [of r t env] assms marking.P_trans
  show "changes_marked s (snd (handle_request env r t))" by (auto simp: list_all_iff)
qed (rule marking.P_refl)


section \<open>Commits and rewards\<close>

lemma ignore_on_records: "ignore_error (on_records m) = on_records (ignore_error m)"
  by (auto simp: fun_eq_iff ignore_error_def on_records_def split: prod.splits result.splits)

text \<open>Adding records and ignoring the errors leaves every one of them in the buffer or the database.\<close>

definition buffer_grows :: "'db record_store \<Rightarrow> 'db record_store \<Rightarrow> bool" where
  "buffer_grows s t \<longleftrightarrow> rs_alive t = rs_alive s \<and> rs_db_records t = rs_db_records s \<and> rs_db_spent t = rs_db_spent s
     \<and> rs_spent_buffer t = rs_spent_buffer s
     \<and> map_of (rs_record_buffer s) \<subseteq>\<^sub>m map_of (rs_record_buffer t)"

interpretation buffer_relation: action_relation buffer_grows
  by unfold_locales (auto simp: buffer_grows_def intro: map_le_trans)

lemma keeps_add_buffer: "keeps buffer_grows (ignore_error (add_text ops field k r))"
proof (intro keeps_ignore)
  have "(m(k \<mapsto> r)) x = Some y" if "m k = None" "m x = Some y" for m :: "string \<Rightarrow> string option" and x y
    using that by auto
  then show "keeps buffer_grows (add_text ops field k r)"
    unfolding keeps_def
    by (auto simp: add_text_eq handle_add_def buffer_grows_def hm_contains_def map_le_def)
qed

lemma adds_reach_buffer:
  assumes "act_each (\<lambda>(k, r). ignore_error (add_text ops field k r)) krs s = (Ok (), t)" and "rs_alive s"
  shows "buffer_grows s t \<and> (\<forall>(k, r) \<in> set krs. \<not> key_exists_or_fails ops (rs_db_records s) k \<longrightarrow>
    hm_contains (rs_record_buffer t) k)"
  using assms
proof (induction krs arbitrary: s)
  case Nil
  then show ?case by (simp add: buffer_relation.P_refl)
next
  case (Cons kr krs)
  obtain k r where kr: "kr = (k, r)" by force
  with Cons.prems obtain u where u: "ignore_error (add_text ops field k r) s = (Ok (), u)"
    and rest: "act_each (\<lambda>(k, r). ignore_error (add_text ops field k r)) krs u = (Ok (), t)"
    by (auto simp: act_then_Ok_iff)
  have su: "buffer_grows s u" using keeps_add_buffer u by (rule keepsD)
  then have "rs_alive u" "rs_db_records u = rs_db_records s" using Cons.prems(2) by (simp_all add: buffer_grows_def)
  with Cons.IH [OF rest] have ih: "buffer_grows u t" "\<forall>(k, r) \<in> set krs.
      \<not> key_exists_or_fails ops (rs_db_records s) k \<longrightarrow> hm_contains (rs_record_buffer t) k" by auto
  have "hm_contains (rs_record_buffer u) k" if "\<not> key_exists_or_fails ops (rs_db_records s) k"
    using u Cons.prems(2) that
    by (auto simp: ignore_error_def add_text_eq handle_add_def split: if_splits)
  then have "hm_contains (rs_record_buffer t) k" if "\<not> key_exists_or_fails ops (rs_db_records s) k"
    using ih(1) that unfolding hm_contains_def buffer_grows_def
    by (metis domIff map_le_implies_dom_le subsetD)
  then show ?case using ih buffer_relation.P_trans [OF su ih(1)] kr by auto
qed

lemma rewards_as_texts:
  "act_each (\<lambda>(cm, r). ignore_error (on_records (add (e_kv env) (e_vm env) cm r))) rewards s =
   on_records (act_each (\<lambda>(k, r). ignore_error (add_text (e_kv env) (vm_field_from_string (e_vm env)) k r))
     (map (\<lambda>(cm, r). (vm_field_to_string (e_vm env) cm, vm_record_to_string (e_vm env) r)) rewards)) s"
proof -
  let ?g = "\<lambda>(cm, r). (vm_field_to_string (e_vm env) cm, vm_record_to_string (e_vm env) r)"
  let ?f = "\<lambda>(k, r). ignore_error (add_text (e_kv env) (vm_field_from_string (e_vm env)) k r)"
  have "(\<lambda>(cm, r). ignore_error (on_records (add (e_kv env) (e_vm env) cm r))) = (\<lambda>x. on_records (?f (?g x)))"
    by (simp add: fun_eq_iff ignore_on_records add_as_text case_prod_unfold)
  then show ?thesis by (simp add: act_each_on_records act_each_map on_records_def)
qed

lemma app_commit_Ok:
  assumes "app_commit env s = (Ok h, t)" and "rs_alive (app_records s)"
  shows "\<exists>rewards rs. block_rewards (e_vm env) (e_order env) (app_validators s) = Ok rewards
    \<and> act_each (\<lambda>(k, r). ignore_error (add_text (e_kv env) (vm_field_from_string (e_vm env)) k r))
        (map (\<lambda>(cm, r). (vm_field_to_string (e_vm env) cm, vm_record_to_string (e_vm env) r)) rewards)
        (handle_commit (e_kv env) (app_records s)) = (Ok (), rs)
    \<and> app_records t = rs"
proof -
  let ?s1 = "s\<lparr>app_records := handle_commit (e_kv env) (app_records s)\<rparr>"
  have c: "ignore_error (on_records (commit (e_kv env) (e_vm env))) s = (Ok (), ?s1)"
    by (simp add: ignore_error_def on_records_def commit_eq [OF assms(2)])
  from assms(1) c obtain s2 rewards s3 s4 where s2: "height_increment env ?s1 = (Ok h, s2)"
    and rw: "block_rewards (e_vm env) (e_order env) (app_validators s2) = Ok rewards"
    and s3: "act_each (\<lambda>(cm, r). ignore_error (on_records (add (e_kv env) (e_vm env) cm r))) rewards s2 = (Ok (), s3)"
    and s4: "ignore_error (save_validators env) s3 = (Ok (), s4)" and t: "t = s4"
    by (auto simp: app_commit_def act_then_Ok_iff locked_Ok_iff simp del: act_then_pure)
  have "app_records s2 = app_records ?s1" "app_validators s2 = app_validators s"
    using s2 by (auto simp: height_increment_def split: height_file.splits if_splits)
  moreover have "app_records s4 = app_records s3"
    using s4 by (auto simp: ignore_error_def save_validators_def split: prod.splits result.splits)
  ultimately show ?thesis using rw s3 t by (auto simp: rewards_as_texts on_records_Ok_iff)
qed

end
