(* ===== verification/Guarantees.thy ===== *)
theory Guarantees
  imports History
begin

text \<open>
  The properties of whole chains: what the application promises over any history of requests,
  block by block, and their instances on a small node.
\<close>

section \<open>Outputs that are new\<close>

lemma adds_fresh:
  assumes "rs_alive s" and "distinct (map fst krs)"
    and "\<And>k. k \<in> fst ` set krs \<Longrightarrow>
      \<not> hm_contains (rs_record_buffer s) k \<and> \<not> key_exists_or_fails ops (rs_db_records s) k"
  shows "\<exists>t. act_each (\<lambda>(k, r). add_text ops field k r) krs s = (Ok (), t)"
  using assms
proof (induction krs arbitrary: s)
  case Nil
  then show ?case by simp
next
  case (Cons kr krs)
  obtain k r where kr: "kr = (k, r)" by force
  let ?u = "s\<lparr>rs_record_buffer := hm_insert k r (rs_record_buffer s)\<rparr>"
  have "add_text ops field k r s = (Ok (), ?u)"
    using Cons.prems kr by (simp add: add_text_eq handle_add_def)
  moreover have "\<exists>t. act_each (\<lambda>(k, r). add_text ops field k r) krs ?u = (Ok (), t)"
    using Cons.prems kr by (intro Cons.IH) auto
  ultimately show ?case using kr by (auto simp: act_then_def)
qed

lemma spends_frame:
  assumes "act_each (spend_key ops field) ks s = (r, t)"
  shows "rs_alive t = rs_alive s \<and> rs_record_buffer t = rs_record_buffer s \<and> rs_db_records t = rs_db_records s"
  using assms
  by (rule act_each_invariant [where I = "\<lambda>q. rs_alive q = rs_alive s \<and> rs_record_buffer q = rs_record_buffer s
      \<and> rs_db_records q = rs_db_records s"]) (auto simp: spend_key_eq split: if_splits)

lemma validate_collect: "validate c (collect fee vs) u = validate c vs u"
  by (simp add: validate_def collect_def)


section \<open>Properties\<close>

text \<open>C1. No double spend on a chain: in every history of requests, from any state, the serial
  numbers consumed by the delivered transactions are all different from each other and from
  those spent before, as long as every commit manages to write the spent serial numbers.\<close>
theorem no_double_spend_on_chain:
  assumes "kv_laws (e_kv env) contents" and "history_written env rs s"
  shows "distinct (concat (map (input_keys (e_vm env)) (fst (run_requests env rs s))))
    \<and> (\<forall>tx \<in> set (fst (run_requests env rs s)). \<forall>k \<in> set (input_keys (e_vm env) tx).
        k \<notin> spent_keys contents (app_records s))"
  using history_spends [OF assms] by blast

text \<open>C9. A deployed program stays as it is: as long as the lookups of the database answer and the
  deployments can be encoded, whatever requests a node handles, the program and the keys under
  an id never change, and the application keeps finding them. Without the first condition it
  does not hold: an addition whose lookup fails overwrites the program.\<close>
theorem program_immutable_on_chain:
  assumes "kv_laws (e_kv env) contents" and "kv_available (e_kv env)" and "bincode_law (e_bincode env)"
    and "ps_inv (e_bincode env) contents (app_programs s)"
    and "list_all (deployment_encodable (e_bincode env)) rs"
    and "deployed (e_bincode env) contents (app_programs s) k = Some p"
  shows "\<exists>t. snd (run_requests env rs s) = t
    \<and> get_program (e_kv env) (e_bincode env) k (app_programs t) = (Ok (Some p), app_programs t)"
proof -
  let ?t = "snd (run_requests env rs s)"
  have "ps_inv (e_bincode env) contents (app_programs ?t)
      \<and> deployed (e_bincode env) contents (app_programs s) \<subseteq>\<^sub>m deployed (e_bincode env) contents (app_programs ?t)"
    using history_programs_grow [OF assms(1-3,5), of s] assms(4) by (simp add: programs_grow_def)
  moreover from this have "deployed (e_bincode env) contents (app_programs ?t) k = Some p"
    using assms(6) by (metis domI map_le_def)
  ultimately show ?thesis using get_program_eq [OF assms(1,2)] by simp
qed

text \<open>Every state a node reaches is well formed: from genesis on, whatever requests follow, the
  buffers of the record store hold one entry per key, every stored program decodes, and, unless
  a panic poisoned the lock, the validators are filed under their own addresses with powers in
  range and the updated ones are known and listed once.\<close>
theorem node_stays_well_formed:
  assumes "kv_laws (e_kv env) contents" and "kv_available (e_kv env)" and "bincode_law (e_bincode env)"
    and "rs_inv (app_records s)" and "ps_inv (e_bincode env) contents (app_programs s)"
    and "vs_inv (e_crypto env) (app_validators s)" and "vs_updated_validators (app_validators s) = []"
    and "list_all power_ok (gs_validators g)"
    and "list_all (deployment_encodable (e_bincode env)) rs" and "list_all (\<lambda>r. \<not> is_genesis r) rs"
  shows "well_formed env contents (snd (run_requests env (InitChain (Some g) # rs) s))"
proof -
  have "programs_grow (e_bincode env) contents s (snd (handle_request env (InitChain (Some g)) s))"
    by (rule request_programs_grow [OF assms(1-3)]) simp
  then have "well_formed env contents (snd (handle_request env (InitChain (Some g)) s))"
    using request_records_good [of s env "InitChain (Some g)"] genesis_validators_good [OF assms(6-8)] assms(4,5)
    by (simp add: well_formed_def programs_grow_def)
  from history_well_formed [OF assms(1-3,9,10) this] show ?thesis
    by (simp add: run_requests.simps(2) case_prod_unfold)
qed

text \<open>C8. The validator updates of a block: unless a panic poisoned the lock, \<open>end_block\<close> answers,
  reports no negative power, and reports the current power of every validator that is not
  exactly what it was when the block began, so Tendermint never misses a change.\<close>
theorem block_updates_complete:
  assumes "vs_inv (e_crypto env) (app_validators s)"
    and "app_begin_block header votes s = (Ok (), s1)" and "list_all within_block rs"
    and "snd (run_requests env rs s1) = t" and "\<not> app_poisoned t"
  shows "\<exists>ups. end_block t = (Ok ups, t) \<and> (\<forall>(key, p) \<in> set ups. 0 \<le> sint p)
    \<and> (\<forall>a. map_of (vs_validators (app_validators t)) a \<noteq> map_of (vs_validators (app_validators s)) a \<longrightarrow>
        (\<exists>v. map_of (vs_validators (app_validators t)) a = Some v \<and> (v_pub_key v, v_voting_power v) \<in> set ups))"
proof -
  have good: "validators_good (e_crypto env) s1"
    using keepsD [OF keeps_begin_block_form assms(2), of "e_crypto env"] assms(1)
    by (simp add: carries_def validators_good_def)
  have "list_all (\<lambda>r. \<not> is_genesis r) rs"
    by (rule list.pred_mono_strong [OF assms(3)]) (auto elim: is_genesis.elims)
  from history_validators_good [OF this good] assms(4,5) have inv: "vs_inv (e_crypto env) (app_validators t)"
    by (simp add: validators_good_def)
  have begun: "vs_validators (app_validators s1) = vs_validators (app_validators s)"
    using assms(2) by (auto simp: app_begin_block_def act_then_Ok_iff locked_Ok_iff on_validators_def begin_block_def
        split: option.splits simp del: act_then_pure)
  let ?vs = "app_validators t"
  let ?ups = "map (\<lambda>v. (v_pub_key v, v_voting_power v)) (map (the \<circ> map_of (vs_validators ?vs)) (vs_updated_validators ?vs))"
  have "end_block t = (Ok ?ups, t)"
    using assms(5) pending_updates_Ok [OF inv] by (simp add: end_block_def locked_def)
  moreover have "\<forall>(key, p) \<in> set ?ups. 0 \<le> sint p"
    using vs_inv_known [OF inv] vs_inv_power [OF inv] by (fastforce simp: sint_nonneg_iff)
  moreover have "\<exists>v. map_of (vs_validators ?vs) a = Some v \<and> (v_pub_key v, v_voting_power v) \<in> set ?ups"
    if "map_of (vs_validators ?vs) a \<noteq> map_of (vs_validators (app_validators s)) a" for a
  proof -
    have "a \<in> set (vs_updated_validators ?vs)"
      using block_changes_marked [OF assms(3), of s1 env] assms(4) begun that by (auto simp: changes_marked_def)
    with vs_inv_known [OF inv this] show ?thesis by force
  qed
  ultimately show ?thesis by blast
qed

text \<open>C26. The rewards of a block are not persisted by the commit that mints them: a commit writes
  the buffered records first and adds the reward records to the buffer afterwards. A fresh
  reward is in the buffer of the running node, and a node that restarts on the databases and
  has a fresh buffer does not have it.\<close>
theorem rewards_wait_for_next_commit:
  assumes "kv_laws (e_kv env) contents" and "rs_inv (app_records s)" and "rs_alive (app_records s)"
    and "fst (kv_write (e_kv env) (rs_db_records (app_records s)) (rs_record_buffer (app_records s)))"
    and "app_commit env s = (Ok h, t)"
    and "block_rewards (e_vm env) (e_order env) (app_validators s) = Ok rewards" and "(cm, r) \<in> set rewards"
    and "contents (rs_db_records (app_records s)) (vm_field_to_string (e_vm env) cm) = None"
    and "\<not> hm_contains (rs_record_buffer (app_records s)) (vm_field_to_string (e_vm env) cm)"
    and "kv_available (e_kv env)"
  shows "hm_contains (rs_record_buffer (app_records t)) (vm_field_to_string (e_vm env) cm)
    \<and> contents (rs_db_records (app_records t)) =
        contents (rs_db_records (app_records s)) ++ map_of (rs_record_buffer (app_records s))
    \<and> contents (rs_db_records (app_records t)) (vm_field_to_string (e_vm env) cm) = None"
proof -
  let ?k = "vm_field_to_string (e_vm env) cm" and ?c = "handle_commit (e_kv env) (app_records s)"
  from app_commit_Ok [OF assms(5,3)] assms(6) have
    adds: "act_each (\<lambda>(k, r). ignore_error (add_text (e_kv env) (vm_field_from_string (e_vm env)) k r))
        (map (\<lambda>(cm, r). (vm_field_to_string (e_vm env) cm, vm_record_to_string (e_vm env) r)) rewards) ?c
      = (Ok (), app_records t)" by auto
  have alive: "rs_alive ?c" using assms(3) by (simp add: handle_commit_def)
  have db: "contents (rs_db_records ?c) =
      contents (rs_db_records (app_records s)) ++ map_of (rs_record_buffer (app_records s))"
    by (rule committed_records [OF assms(1,2,4)])
  then have none: "contents (rs_db_records ?c) ?k = None"
    using assms(8,9) by (simp add: hm_contains_def map_add_None)
  have "\<not> isl (kv_get (e_kv env) (rs_db_records ?c) ?k)" using assms(10) by (simp add: kv_available_def)
  then obtain found where found: "kv_get (e_kv env) (rs_db_records ?c) ?k = Inr found"
    by (cases "kv_get (e_kv env) (rs_db_records ?c) ?k") auto
  have free: "\<not> key_exists_or_fails (e_kv env) (rs_db_records ?c) ?k"
    using kv_get_sound [OF assms(1) found] found none by (simp add: key_exists_or_fails_def)
  from adds_reach_buffer [OF adds alive] have "buffer_grows ?c (app_records t)"
    and reach: "\<forall>(k, r) \<in> set (map (\<lambda>(cm, r). (vm_field_to_string (e_vm env) cm, vm_record_to_string (e_vm env) r))
      rewards). \<not> key_exists_or_fails (e_kv env) (rs_db_records ?c) k \<longrightarrow>
      hm_contains (rs_record_buffer (app_records t)) k" by blast+
  moreover have "hm_contains (rs_record_buffer (app_records t)) ?k"
    using reach assms(7) free by force
  ultimately show ?thesis using db none by (simp add: buffer_grows_def)
qed

text \<open>C7. A transaction that passes the checks is delivered: an execution that \<open>check_tx\<close> accepts,
  whose staking updates concern different validators and whose output commitments are new and
  different, is applied in full when it is delivered on the same state.\<close>
theorem checked_execution_is_delivered:
  assumes "kv_laws (e_kv env) contents" and "ps_inv (e_bincode env) contents (app_programs s)"
    and "check_tx env (Some (Execution i ts)) s = (Ok (CheckOk priority), u)"
    and "rs_alive (app_records s)" and "inj (vm_field_to_string (e_vm env))"
    and "\<And>us. stake_updates (e_vm env) (e_crypto env) (Execution i ts) = Ok us \<Longrightarrow>
      distinct (map (stake_address (e_crypto env)) us)"
    and "distinct (map fst (output_texts (e_vm env) (Execution i ts)))"
    and "\<And>k. k \<in> fst ` set (output_texts (e_vm env) (Execution i ts)) \<Longrightarrow>
      \<not> hm_contains (rs_record_buffer (app_records s)) k
      \<and> \<not> key_exists_or_fails (e_kv env) (rs_db_records (app_records s)) k"
  shows "\<exists>t. deliver_tx env (Some (Execution i ts)) s = (Ok (Delivered i), t)"
proof -
  let ?tx = "Execution i ts" and ?vs = "collect (fees (e_vm env) (Execution i ts)) (app_validators s)"
  have checks: "run_checks env ?tx s = (Ok (), u)"
    using assms(3) by (auto simp: check_tx_def split: prod.splits result.splits)
  note ok = run_checks_Ok [OF assms(1,2) checks]
  then have u: "u = s" and sns: "distinct (record_serial_numbers (e_vm env) ?tx)"
    and free: "\<forall>n \<in> set (record_serial_numbers (e_vm env) ?tx).
        unspent_key (e_kv env) (app_records s) (vm_field_to_string (e_vm env) n)"
    and val: "validate_contents env ?tx s = (Ok (), s)" using assms(4) by blast+
  note valid_tx = validate_execution_Ok [OF assms(1,2) val]
  have np: "\<not> app_poisoned s" by (rule valid_tx [THEN conjunct2, THEN conjunct1])
  from valid_tx [THEN conjunct2, THEN conjunct2, THEN conjunct1] obtain us where
    us: "stake_updates (e_vm env) (e_crypto env) ?tx = Ok us"
    and valid: "\<forall>a \<in> set us. validate (e_crypto env) (app_validators s) a = Ok ()" by (elim exE conjE)
  from validated_updates_apply [of us "e_crypto env" ?vs] valid assms(6) [OF us] obtain vs where
    vs: "act_each (apply_update (e_crypto env)) us ?vs = (Ok (), vs)" by (auto simp: validate_collect)
  then have upd: "ignore_error (update_validators env ?tx) s = (Ok (), s\<lparr>app_validators := vs\<rparr>)"
    using update_validators_eq [OF us np] by (simp add: ignore_error_def)
  have "distinct (input_keys (e_vm env) ?tx)"
    using sns assms(5) unfolding input_keys_def distinct_map inj_def inj_on_def by blast
  moreover have "\<And>k. k \<in> set (input_keys (e_vm env) ?tx) \<Longrightarrow> unspent_key (e_kv env) (app_records s) k"
    using free unfolding input_keys_def set_map by blast
  ultimately obtain rs where
    rs: "act_each (spend_key (e_kv env) (vm_field_from_string (e_vm env))) (input_keys (e_vm env) ?tx)
      (app_records s) = (Ok (), rs)"
    using key_store.spend_list by blast
  have "\<exists>rs2. act_each (\<lambda>(k, r). add_text (e_kv env) (vm_field_from_string (e_vm env)) k r)
      (output_texts (e_vm env) ?tx) rs = (Ok (), rs2)"
    using spends_frame [OF rs] assms(4,7,8) by (intro adds_fresh) simp_all
  then have "\<exists>t. apply_transaction env ?tx s = (Ok (), t)"
    using upd rs by (auto simp: apply_transaction_def act_then_def spend_inputs_eq add_outputs_eq on_records_def)
  then show ?thesis using checks u by (auto simp: deliver_Delivered_iff)
qed

text \<open>A block begins with a clean slate: the fees are the baseline reward, no validator is
  marked as updated, the votes are those of the validators that signed the last block with a
  power that is not negative, and validators, stores and files are what they were.\<close>
theorem begin_block_resets:
  assumes "app_begin_block (Some (proposer, height)) (Some votes) s = (Ok (), t)"
  shows "t = s\<lparr>app_validators := app_validators t\<rparr>
    \<and> vs_validators (app_validators t) = vs_validators (app_validators s)
    \<and> vs_fees (app_validators t) = BASELINE_BLOCK_REWARD \<and> vs_updated_validators (app_validators t) = []
    \<and> vs_current_proposer (app_validators t) = Some proposer \<and> vs_current_height (app_validators t) = height
    \<and> hm_ok (vs_current_votes (app_validators t))
    \<and> fst ` set (vs_current_votes (app_validators t)) =
        {a. \<exists>v p. v \<in> set votes \<and> signed_last_block v \<and> vote_validator v = Some (a, p) \<and> 0 \<le> sint p}
    \<and> (\<forall>(a, p) \<in> set (vs_current_votes (app_validators t)).
        \<exists>v. v \<in> set votes \<and> signed_last_block v \<and> vote_validator v = Some (a, p) \<and> 0 \<le> sint p)"
proof -
  let ?kvs = "somes (map counted_vote votes)"
  have t: "t = s\<lparr>app_validators := begin_block proposer (hm_collect ?kvs) height (app_validators s)\<rparr>"
    using assms by (simp add: app_begin_block_def locked_def on_validators_def split: if_splits)
  have counted: "(a, p) \<in> set ?kvs \<longleftrightarrow> (\<exists>v. v \<in> set votes \<and> signed_last_block v
      \<and> vote_validator v = Some (a, p) \<and> 0 \<le> sint p)" for a p
    by (force simp: set_somes split: if_splits option.splits)
  have keys: "fst ` set (hm_collect kvs) = fst ` set kvs" for kvs :: "(address \<times> u64) list"
  proof -
    have "dom (map_of (hm_collect kvs)) = fst ` set kvs"
      by (simp add: map_of_hm_collect dom_map_of_conv_image_fst)
    then show ?thesis by (simp add: dom_map_of_conv_image_fst)
  qed
  have sub: "e \<in> set (hm_collect kvs) \<Longrightarrow> e \<in> set kvs" for e and kvs :: "(address \<times> u64) list"
    by (cases e) (auto simp: hm_ok_map_of [symmetric] hm_ok_collect map_of_hm_collect dest!: map_of_SomeD)
  have "fst ` set (hm_collect ?kvs) =
      {a. \<exists>v p. v \<in> set votes \<and> signed_last_block v \<and> vote_validator v = Some (a, p) \<and> 0 \<le> sint p}"
    unfolding keys set_eq_iff image_iff mem_Collect_eq using counted by (metis fst_conv prod.collapse)
  moreover have "\<forall>(a, p) \<in> set (hm_collect ?kvs).
      \<exists>v. v \<in> set votes \<and> signed_last_block v \<and> vote_validator v = Some (a, p) \<and> 0 \<le> sint p"
    using sub counted by fast
  ultimately show ?thesis by (simp add: t begin_block_def)
qed


section \<open>Witnesses\<close>

lemma sample_block_rewards:
  "block_rewards sample_vm id sample_set = Ok [(''84-7'', ''record''), (''16-7'', ''record'')]"
proof -
  have dec: "decimal 84 = ''84''" "decimal 16 = ''16''" "decimal 7 = ''7''"
    by (code_simp, code_simp, code_simp)
  show ?thesis
    by (simp add: block_rewards_def sample_set_def reward_map_def total_voter_reward_def
        total_voting_power_def PROPOSER_REWARD_PERCENTAGE_def reward_record_def hm_insert_def
        lambda_backend_def mint_record_def sample_crate_def dec)
qed

lemma sample_printing: "vm_field_to_string sample_vm = id" "vm_record_to_string sample_vm = id"
  by (simp_all add: lambda_backend_def sample_crate_def)

lemma sample_commit: "\<exists>t. app_commit sample_env sample_app = (Ok 7, t)"
  by (simp add: app_commit_def act_then_def ignore_error_def on_records_def commit_eq height_increment_def
      locked_def sample_block_rewards)
    (simp add: sample_app_def sample_store_def new_record_store_def handle_commit_def act_then_def
      ignore_error_def on_records_def sample_block_rewards locked_def sample_printing save_validators_def
      commit_validators_def sample_io_def add_as_text add_text_eq handle_add_def hm_contains_def
      key_exists_or_fails_def)

theorem rewards_wait_for_next_commit_witness:
  "\<exists>t. app_commit sample_env sample_app = (Ok 7, t)
    \<and> hm_contains (rs_record_buffer (app_records t)) ''84-7''
    \<and> map_of (rs_db_records (app_records t)) ''84-7'' = None
    \<and> map_of (rs_db_records (app_records t)) ''record'' = Some ''r''"
proof -
  obtain t where t: "app_commit sample_env sample_app = (Ok 7, t)" using sample_commit by blast
  have db: "rs_db_records (app_records sample_app) = [(''c0'', ''r0'')]" and "rs_inv (app_records sample_app)"
    by (simp_all add: rs_inv_def sample_app_def sample_store_def new_record_store_def hm_ok_def)
  from rewards_wait_for_next_commit [OF sample_app_laws(1) this(2) _ _ t, of _ "''84-7''" "''record''"]
  have h: "hm_contains (rs_record_buffer (app_records t)) ''84-7'' \<and> map_of (rs_db_records (app_records t)) =
      map_of [(''c0'', ''r0'')] ++ map_of [(''record'', ''r'')] \<and> map_of (rs_db_records (app_records t)) ''84-7'' = None"
    by (simp add: sample_block_rewards memory_kv_available sample_printing db hm_contains_def)
  from h [THEN conjunct2, THEN conjunct1, THEN fun_cong, of "''record''"]
  have "map_of (rs_db_records (app_records t)) ''record'' = Some ''r''" by simp
  with h t show ?thesis by blast
qed

lemma sample_written: "history_written sample_env rs s"
  by (induction rs arbitrary: s) (simp_all add: writes_spent_def)

theorem no_double_spend_on_chain_witness:
  "fst (run_requests sample_env [DeliverTx (Some (sample_calls [fee_call]))] sample_app) = [sample_calls [fee_call]]
   \<and> distinct (concat (map (input_keys sample_vm) (fst (run_requests sample_env
      [DeliverTx (Some (sample_calls [fee_call])), Commit, DeliverTx (Some (sample_calls [fee_call]))] sample_app))))"
proof
  show "fst (run_requests sample_env [DeliverTx (Some (sample_calls [fee_call]))] sample_app) = [sample_calls [fee_call]]"
    using sample_delivery by (auto simp: run_requests.simps(2) split: prod.splits)
  show "distinct (concat (map (input_keys sample_vm) (fst (run_requests sample_env
      [DeliverTx (Some (sample_calls [fee_call])), Commit, DeliverTx (Some (sample_calls [fee_call]))] sample_app))))"
    using no_double_spend_on_chain [OF sample_app_laws(1) sample_written] by simp
qed

theorem program_immutable_on_chain_witness:
  "\<exists>t. snd (run_requests sample_env [DeliverTx (Some (Deployment ''x'' staking_program staking_keys None)), Commit] sample_app) = t
    \<and> get_program memory_kv staking_bincode ''credits.aleo'' (app_programs t)
      = (Ok (Some (staking_program, staking_keys)), app_programs t)"
proof -
  have "bincode_law staking_bincode" by (auto simp: bincode_law_def staking_bincode_def)
  moreover have "deployed staking_bincode map_of (app_programs sample_app) ''credits.aleo'' = Some (staking_program, staking_keys)"
    by (simp add: deployed_def staking_bincode_def)
  moreover have "list_all (deployment_encodable staking_bincode)
      [DeliverTx (Some (Deployment ''x'' staking_program staking_keys None)), Commit]"
    by (simp add: staking_bincode_def)
  ultimately show ?thesis
    using program_immutable_on_chain [OF sample_app_laws(1) _ _ sample_app_laws(2)] memory_kv_available by simp
qed

theorem node_stays_well_formed_witness:
  "well_formed sample_env map_of (snd (run_requests sample_env
     (InitChain (Some \<lparr>gs_records = [(''c7'', ''r7'')], gs_validators = [sample_validator 3 9]\<rparr>)
       # [DeliverTx (Some (Deployment ''x'' staking_program staking_keys None)), EndBlock, Commit]) sample_app))"
proof (rule node_stays_well_formed)
  show "bincode_law (e_bincode sample_env)" by (auto simp: bincode_law_def staking_bincode_def)
  show "list_all (deployment_encodable (e_bincode sample_env))
      [DeliverTx (Some (Deployment ''x'' staking_program staking_keys None)), EndBlock, Commit]"
    by (simp add: staking_bincode_def)
  show "rs_inv (app_records sample_app)" by (simp add: sample_app_def sample_store_def new_record_store_def rs_inv_def hm_ok_def)
  show "vs_updated_validators (app_validators sample_app) = []" by (simp add: sample_app_def sample_set_def)
qed (use sample_app_laws memory_kv_available sample_set_inv in simp_all)

theorem checked_execution_is_delivered_witness:
  "\<exists>i ts t. sample_calls [fee_call] = Execution i ts
    \<and> deliver_tx sample_env (Some (Execution i ts)) sample_app = (Ok (Delivered i), t)"
proof -
  obtain i ts where tx: "sample_calls [fee_call] = Execution i ts"
    by (simp add: sample_calls_def sample_tx_def)
  have check: "check_tx sample_env (Some (Execution i ts)) sample_app
      = (Ok (CheckOk (fees sample_vm (Execution i ts))), sample_app)"
    using sample_run_checks(1) by (simp add: check_tx_def tx)
  have updates: "stake_updates (e_vm sample_env) (e_crypto sample_env) (Execution i ts) = Ok []"
    and outputs: "output_texts (e_vm sample_env) (Execution i ts) = [(''c1'', ''record'')]"
    using sample_updates(1) sample_outputs(1) unfolding tx sample_env_simps .
  have fresh: "\<not> hm_contains (rs_record_buffer (app_records sample_app)) ''c1''
      \<and> \<not> key_exists_or_fails (e_kv sample_env) (rs_db_records (app_records sample_app)) ''c1''"
    by (simp add: hm_contains_def key_exists_or_fails_def sample_app_def sample_store_def new_record_store_def)
  have "inj (vm_field_to_string (e_vm sample_env))" by (simp add: sample_printing)
  note delivered = checked_execution_is_delivered [OF sample_app_laws _ _ this]
  have "\<exists>t. deliver_tx sample_env (Some (Execution i ts)) sample_app = (Ok (Delivered i), t)"
  proof (rule delivered)
    show "check_tx sample_env (Some (Execution i ts)) sample_app
      = (Ok (CheckOk (fees sample_vm (Execution i ts))), sample_app)" by (rule check)
    show "distinct (map (stake_address (e_crypto sample_env)) us)"
      if "stake_updates (e_vm sample_env) (e_crypto sample_env) (Execution i ts) = Ok us" for us
      using that unfolding updates by simp
    show "rs_alive (app_records sample_app)" by simp
  qed (use fresh in \<open>unfold outputs, simp_all\<close>)
  then show ?thesis using tx by blast
qed

theorem begin_block_resets_witness:
  "\<exists>t. app_begin_block (Some (sample_address 1, 8)) (Some [
      \<lparr>signed_last_block = True, vote_validator = Some (sample_address 2, 5)\<rparr>,
      \<lparr>signed_last_block = False, vote_validator = Some (sample_address 1, 10)\<rparr>]) sample_app = (Ok (), t)
    \<and> fst ` set (vs_current_votes (app_validators t)) = {sample_address 2}"
proof -
  let ?votes = "[\<lparr>signed_last_block = True, vote_validator = Some (sample_address 2, 5)\<rparr>,
      \<lparr>signed_last_block = False, vote_validator = Some (sample_address 1, 10)\<rparr>]"
  obtain t where t: "app_begin_block (Some (sample_address 1, 8)) (Some ?votes) sample_app = (Ok (), t)"
    by (simp add: app_begin_block_def locked_def on_validators_def)
  from begin_block_resets [OF t] have "fst ` set (vs_current_votes (app_validators t)) =
      {a. \<exists>v p. v \<in> set ?votes \<and> signed_last_block v \<and> vote_validator v = Some (a, p) \<and> 0 \<le> sint p}" by (elim conjE)
  moreover have "(\<exists>v p. v \<in> set ?votes \<and> signed_last_block v \<and> vote_validator v = Some (a, p) \<and> 0 \<le> sint p)
      \<longleftrightarrow> sample_address 2 = a" for a
    unfolding list.set insert_iff empty_iff
    by (simp only: ex_disj_distrib conj_disj_distribR conj_assoc simp_thms) simp
  ultimately have "fst ` set (vs_current_votes (app_validators t)) = {sample_address 2}"
    unfolding singleton_conv2 [symmetric] by (simp only:)
  then show ?thesis using t by blast
qed


theorem block_updates_complete_witness:
  "\<exists>t ups. snd (run_requests sample_env [DeliverTx (Some (sample_calls [unstake_call ''s1''])), Info] sample_app) = t
    \<and> end_block t = (Ok ups, t) \<and> (sample_key 1, 4) \<in> set ups"
proof -
  let ?tx = "sample_calls [unstake_call ''s1'']" and ?c = "collect (fees sample_vm (sample_calls [unstake_call ''s1''])) sample_set"
  let ?votes = "[\<lparr>signed_last_block = True, vote_validator = Some (sample_address 1, 10)\<rparr>,
      \<lparr>signed_last_block = True, vote_validator = Some (sample_address 2, 5)\<rparr>]"
  have begun: "app_begin_block (Some (sample_address 1, 7)) (Some ?votes) sample_app = (Ok (), sample_app)"
    by (simp add: app_begin_block_def locked_def on_validators_def)
      (simp add: sample_app_def sample_set_def begin_block_def BASELINE_BLOCK_REWARD_def hm_collect_def hm_insert_def)
  obtain vs where vs: "apply_update sample_crypto (sample_stake 1 (- 6)) ?c = (Ok (), vs)"
    and v1: "map_of (vs_validators vs) (sample_address 1) = Some (sample_validator 1 4)"
    by (simp add: apply_update_eq updated_validator_def collect_def sample_set_def validator_apply_def marked_def)
      (simp add: sample_validator_def)
  have upd: "ignore_error (update_validators sample_env ?tx) sample_app = (Ok (), sample_app\<lparr>app_validators := vs\<rparr>)"
    using update_validators_eq [of sample_env ?tx "[sample_stake 1 (- 6)]" sample_app] sample_updates(2) [of "''s1''"] vs
    by (simp add: ignore_error_def act_then_def)
  obtain rs where rs: "spend_key memory_kv (vm_field_from_string sample_vm) ''s1'' (app_records sample_app) = (Ok (), rs)"
    and keep: "rs_alive rs" "rs_record_buffer rs = [(''record'', ''r'')]"
    using sample_unspent by (auto simp: spend_key_eq sample_app_def sample_store_def new_record_store_def)
  have clash: "add_text memory_kv (vm_field_from_string sample_vm) ''record'' ''record'' rs = (Err (RecordExists ''record''), rs)"
    using keep by (simp add: add_text_eq handle_add_def hm_contains_def)
  let ?t = "sample_app\<lparr>app_validators := vs, app_records := rs\<rparr>"
  have "apply_transaction sample_env ?tx sample_app = (Err (RecordExists ''record''), ?t)"
    using upd rs clash
    by (simp add: apply_transaction_def act_then_def spend_inputs_eq add_outputs_eq on_records_def sample_keys sample_outputs)
  then have "deliver_tx sample_env (Some ?tx) sample_app = (Ok (DeliverFailed (RecordExists ''record'')), ?t)"
    using sample_run_checks(2) by (simp add: deliver_tx_def act_then_def)
  then have run: "snd (run_requests sample_env [DeliverTx (Some ?tx), Info] sample_app) = ?t"
    by (simp add: run_requests.simps(2) info_def height_read_or_create_def) (simp add: sample_app_def)
  have "vs_inv (e_crypto sample_env) (app_validators sample_app)" using sample_set_inv by simp
  from block_updates_complete [OF this begun _ run] obtain ups where ups: "end_block ?t = (Ok ups, ?t)"
    and all: "\<forall>a. map_of (vs_validators vs) a \<noteq> map_of (vs_validators sample_set) a \<longrightarrow>
      (\<exists>v. map_of (vs_validators vs) a = Some v \<and> (v_pub_key v, v_voting_power v) \<in> set ups)" by auto
  from all [rule_format, of "sample_address 1"] v1 have "(sample_key 1, 4) \<in> set ups"
    by (simp add: sample_set_def sample_validator_def)
  with run ups show ?thesis by blast
qed

end
