(* ===== verification/Genesis.thy ===== *)
theory Genesis
  imports Program_File Guarantees
begin

text \<open>
  \<open>src/blockchain/genesis.rs\<close>: the binary that prepares the genesis files of a testnet. It reads
  the Tendermint genesis of the first node and the two key files of every node, mints one
  record per node, and writes the same genesis file, with the initial state of the application
  in it, to all nodes. The application reads that state in \<open>init_chain\<close>.
\<close>

section \<open>JSON values and numbers\<close>

text \<open>\<open>str::parse\<close> of a \<open>u64\<close>: decimal digits after an optional plus sign, in range.\<close>

definition digit_value :: "char \<Rightarrow> nat option" where
  "digit_value ch = (let n = of_char ch :: nat in if 48 \<le> n \<and> n \<le> 57 then Some (n - 48) else None)"

fun parse_digits :: "nat \<Rightarrow> string \<Rightarrow> nat option" where
  "parse_digits acc [] = Some acc"
| "parse_digits acc (ch # rest) =
     (case digit_value ch of Some d \<Rightarrow> parse_digits (acc * 10 + d) rest | None \<Rightarrow> None)"

definition parse_u64 :: "string \<Rightarrow> u64 option" where
  "parse_u64 text =
     (let digits = (case text of ch # rest \<Rightarrow> if ch = CHR ''+'' then rest else text | [] \<Rightarrow> [])
      in if digits = [] then None
         else (case parse_digits 0 digits of
                 Some n \<Rightarrow> if n < 2 ^ 64 then Some (of_nat n) else None
               | None \<Rightarrow> None))"

text \<open>
  \<open>serde_json::Value\<close> is \<open>'j\<close>: parsing, printing, the index operator, the accessors that the
  binary uses, and the encoding of the genesis state. \<open>js_as_object_mut\<close> gives the \<open>insert\<close> of
  an object and nothing for another value.
\<close>

record ('j, 'f, 'er) json_crate =
  js_parse :: "string \<Rightarrow> string + 'j"
  js_print :: "'j \<Rightarrow> string + string"
  js_state :: "('f, 'er) genesis_state \<Rightarrow> string + 'j"
  js_index :: "'j \<Rightarrow> string \<Rightarrow> 'j"
  js_as_str :: "'j \<Rightarrow> string option"
  js_as_array :: "'j \<Rightarrow> 'j list option"
  js_as_object_mut :: "'j \<Rightarrow> (string \<Rightarrow> 'j \<Rightarrow> 'j) option"


section \<open>The genesis state\<close>

definition read_json :: "('j, 'f, 'er) json_crate \<Rightarrow> files \<Rightarrow> string \<Rightarrow> 'j result" where
  "read_json js fs path = and_then (read_to_string fs path) (\<lambda>text. external (js_parse js text))"

definition voting_power_entry :: "('j, 'f, 'er) json_crate \<Rightarrow> 'j \<Rightarrow> (string \<times> u64) result" where
  "voting_power_entry js validator =
     and_then (expect_some ''pub key'' (js_as_str js (js_index js (js_index js validator ''pub_key'') ''value''))) (\<lambda>key.
     and_then (expect_some ''power'' (js_as_str js (js_index js validator ''power''))) (\<lambda>power.
     map_ok (\<lambda>p. (key, p)) (expect_some ''parse power'' (parse_u64 power))))"

definition voting_powers :: "('j, 'f, 'er) json_crate \<Rightarrow> 'j \<Rightarrow> (string, u64) hash_map result" where
  "voting_powers js genesis =
     and_then (expect_some ''validators'' (js_as_array js (js_index js genesis ''validators''))) (\<lambda>validators.
     map_ok hm_collect (try_map (voting_power_entry js) validators))"

definition process_node ::
  "('f, 'er, 'tr, 'out) vm_backend \<Rightarrow> tendermint_crate \<Rightarrow> ('j, 'f, 'er) json_crate \<Rightarrow> files \<Rightarrow>
   (string, u64) hash_map \<Rightarrow> u64 \<Rightarrow> string \<Rightarrow> (('f \<times> 'er) \<times> validator) result" where
  "process_node vm c js fs powers amount node_dir =
     and_then (read_json js fs (path_join node_dir ''account.json'')) (\<lambda>aleo_account.
     and_then (expect_some ''address'' (js_as_str js (js_index js aleo_account ''address''))) (\<lambda>aleo_address.
     and_then (read_json js fs (path_join node_dir ''config/priv_validator_key.json'')) (\<lambda>tmint_account.
     and_then (expect_some ''couldn't extract pubkey from json''
       (js_as_str js (js_index js (js_index js tmint_account ''pub_key'') ''value''))) (\<lambda>tmint_pubkey.
     and_then (expect_some ''voting power'' (map_of powers tmint_pubkey)) (\<lambda>voting_power.
     and_then (validator_from_str vm c tmint_pubkey aleo_address voting_power) (\<lambda>validator.
     map_ok (\<lambda>record. (record, validator))
       (vm_mint_record vm ''credits.aleo'' ''credits'' (v_aleo_address validator) amount 1234)))))))"

definition genesis_path :: "string \<Rightarrow> string" where
  "genesis_path node_dir = path_join node_dir ''config/genesis.json''"

text \<open>\<open>main\<close>: nothing is written before every node has been processed.\<close>

definition build_genesis ::
  "('f, 'er, 'tr, 'out) vm_backend \<Rightarrow> tendermint_crate \<Rightarrow> ('j, 'f, 'er) json_crate \<Rightarrow> u64 \<Rightarrow> string list \<Rightarrow>
   files \<Rightarrow> (('f, 'er) genesis_state \<times> string) result" where
  "build_genesis vm c js amount node_dirs fs =
     (case node_dirs of
        [] \<Rightarrow> Panic ''need at least one directory''
      | first # _ \<Rightarrow>
          and_then (read_json js fs (genesis_path first)) (\<lambda>genesis.
          and_then (voting_powers js genesis) (\<lambda>powers.
          and_then (try_map (process_node vm c js fs powers amount) node_dirs) (\<lambda>nodes.
          let state = \<lparr>gs_records = map fst nodes, gs_validators = map snd nodes\<rparr> in
          and_then (expect_some ''as_object_mut'' (js_as_object_mut js genesis)) (\<lambda>insert_entry.
          and_then (external (js_state js state)) (\<lambda>app_state.
          map_ok (\<lambda>text. (state, text))
            (external (js_print js (insert_entry ''app_state'' app_state)))))))))"

definition genesis_main ::
  "('f, 'er, 'tr, 'out) vm_backend \<Rightarrow> tendermint_crate \<Rightarrow> ('j, 'f, 'er) json_crate \<Rightarrow> file_io \<Rightarrow> u64 \<Rightarrow>
   string list \<Rightarrow> (files, ('f, 'er) genesis_state) action" where
  "genesis_main vm c js io amount node_dirs =
     act_then (pure_action (build_genesis vm c js amount node_dirs)) (\<lambda>(state, genesis_json).
     act_then (act_each (\<lambda>node_dir. write_file io (genesis_path node_dir) genesis_json) node_dirs) (\<lambda>_.
     pure_action (\<lambda>_. Ok state)))"


section \<open>Writing the files\<close>

lemma write_all:
  assumes "writes_kept io" and "act_each (\<lambda>d. write_file io (p d) text) ds fs = (Ok (), fs')"
  shows "fs' = (\<lambda>path. if path \<in> p ` set ds then Some text else fs path)"
  using assms(2)
proof (induction ds arbitrary: fs)
  case Nil
  then show ?case by simp
next
  case (Cons d ds)
  then obtain fs1 where "write_file io (p d) text fs = (Ok (), fs1)"
    and rest: "act_each (\<lambda>d. write_file io (p d) text) ds fs1 = (Ok (), fs')"
    by (auto simp: act_then_Ok_iff)
  then have "fs1 = fs(p d \<mapsto> text)" using write_file_Ok_iff [OF assms(1)] by blast
  with Cons.IH [OF rest] show ?case by (auto simp: fun_eq_iff)
qed

lemma try_map_list_all2: "try_map f xs = Ok ys \<Longrightarrow> list_all2 (\<lambda>x y. f x = Ok y) xs ys"
  by (induction xs arbitrary: ys) (auto simp: result_elims)

lemma genesis_main_Ok:
  assumes "writes_kept io" and "genesis_main vm c js io amount dirs fs = (Ok state, fs')"
  shows "\<exists>text powers nodes. fs' = (\<lambda>path. if path \<in> genesis_path ` set dirs then Some text else fs path)
    \<and> list_all2 (\<lambda>d n. process_node vm c js fs powers amount d = Ok n) dirs nodes
    \<and> state = \<lparr>gs_records = map fst nodes, gs_validators = map snd nodes\<rparr>"
proof -
  from assms(2) obtain content where b: "build_genesis vm c js amount dirs fs = Ok (state, content)"
    and w: "act_each (\<lambda>d. write_file io (genesis_path d) content) dirs fs = (Ok (), fs')"
    by (auto simp: genesis_main_def act_then_Ok_iff split: prod.splits simp del: act_then_pure)
  from b obtain powers nodes where "try_map (process_node vm c js fs powers amount) dirs = Ok nodes"
    and "state = \<lparr>gs_records = map fst nodes, gs_validators = map snd nodes\<rparr>"
    by (auto simp: build_genesis_def result_elims Let_def simp del: try_map.simps split: list.splits)
  then show ?thesis using write_all [OF assms(1) w] try_map_list_all2 by blast
qed

lemma process_node_Ok:
  assumes "process_node vm c js fs powers amount d = Ok (record, v)"
  shows "vm_mint_record vm ''credits.aleo'' ''credits'' (v_aleo_address v) amount 1234 = Ok record
    \<and> (\<exists>account text. read_json js fs (path_join d ''account.json'') = Ok account
        \<and> js_as_str js (js_index js account ''address'') = Some text \<and> vm_parse_address vm text = Ok (v_aleo_address v))"
  using assms by (auto simp: process_node_def validator_from_str_def result_elims)


section \<open>Starting a chain from a genesis state\<close>

text \<open>A node that has no records yet.\<close>

definition fresh_node :: "('db, 'f, 'er, 'tr, 'out) env \<Rightarrow> 'db app \<Rightarrow> bool" where
  "fresh_node env s \<longleftrightarrow> rs_alive (app_records s) \<and> rs_record_buffer (app_records s) = []
     \<and> (\<forall>k. \<not> key_exists_or_fails (e_kv env) (rs_db_records (app_records s)) k) \<and> \<not> app_poisoned s"

lemma act_each_expect:
  "act_each (\<lambda>x s. case f x s of (r, t) \<Rightarrow> (expect_ok msg r, t)) xs s =
     (case act_each f xs s of (r, t) \<Rightarrow> (expect_ok msg r, t))"
proof (induction xs arbitrary: s)
  case (Cons x xs)
  obtain r t where "f x s = (r, t)" by force
  with Cons show ?case by (cases r) (simp_all add: act_then_def)
qed simp

lemma add_texts_distinct:
  "act_each (\<lambda>(k, r). add_text ops field k r) krs s = (Ok (), t) \<Longrightarrow>
   distinct (map fst krs) \<and> (\<forall>k \<in> fst ` set krs. map_of (rs_record_buffer s) k = None)"
proof (induction krs arbitrary: s)
  case (Cons kr krs)
  obtain k r where kr: "kr = (k, r)" by force
  with Cons.prems obtain u where u: "add_text ops field k r s = (Ok (), u)"
    and rest: "act_each (\<lambda>(k, r). add_text ops field k r) krs u = (Ok (), t)"
    by (auto simp: act_then_Ok_iff)
  note b = add_text_buffer [OF u]
  from Cons.IH [OF rest] b have later: "distinct (map fst krs)"
    "\<forall>j \<in> fst ` set krs. j \<noteq> k \<and> map_of (rs_record_buffer s) j = None"
    by (auto split: if_splits)
  then show ?case using b kr by auto
qed simp

lemma add_texts_no_panic: "act_each (\<lambda>(k, r). add_text ops field k r) krs s \<noteq> (Panic p, t)"
proof (induction krs arbitrary: s)
  case (Cons kr krs)
  obtain k r where kr: "kr = (k, r)" by force
  obtain q u where q: "add_text ops field k r s = (q, u)" by force
  then have "\<not> (\<exists>p. q = Panic p)" by (auto simp: add_text_eq handle_add_def split: if_splits)
  with Cons q kr show ?case by (cases q) (auto simp: act_then_def)
qed simp

definition genesis_texts ::
  "('f, 'er, 'tr, 'out) vm_backend \<Rightarrow> ('f, 'er) genesis_state \<Rightarrow> (string \<times> string) list" where
  "genesis_texts vm state =
     map (\<lambda>(cm, r). (vm_field_to_string vm cm, vm_record_to_string vm r)) (gs_records state)"

lemma init_chain_eq:
  "init_chain env (Some state) s =
     act_then (\<lambda>s. case on_records (act_each (\<lambda>(k, r). add_text (e_kv env) (vm_field_from_string (e_vm env)) k r)
         (genesis_texts (e_vm env) state)) s of (r, t) \<Rightarrow> (expect_ok ''failure adding genesis records'' r, t)) (\<lambda>_.
     locked (on_validators (\<lambda>vs. (Ok (), replace (e_crypto env) (gs_validators state) vs)))) s"
proof -
  let ?f = "\<lambda>(k, r). add_text (e_kv env) (vm_field_from_string (e_vm env)) k r"
  let ?g = "\<lambda>(cm, r). (vm_field_to_string (e_vm env) cm, vm_record_to_string (e_vm env) r)"
  let ?e = "expect_ok ''failure adding genesis records''"
  have one: "(\<lambda>(cm, r). \<lambda>s. case on_records (add (e_kv env) (e_vm env) cm r) s of (q, t) \<Rightarrow> (?e q, t))
      = (\<lambda>x s. case on_records (?f (?g x)) s of (q, t) \<Rightarrow> (?e q, t))"
    by (simp add: fun_eq_iff add_as_text case_prod_unfold)
  have "act_each ?f (map ?g xs) = act_each (\<lambda>x. ?f (?g x)) xs" for xs
    by (rule ext) (rule act_each_map)
  then have all: "act_each (\<lambda>(cm, r). \<lambda>s. case on_records (add (e_kv env) (e_vm env) cm r) s of (q, t) \<Rightarrow> (?e q, t))
      (gs_records state) s = (case on_records (act_each ?f (genesis_texts (e_vm env) state)) s of (r, t) \<Rightarrow> (?e r, t))"
    for s
    unfolding one act_each_expect act_each_on_records genesis_texts_def by simp
  show ?thesis
    unfolding init_chain_def expect_some.simps act_then_pure result.case by (simp add: act_then_def all)
qed

lemma fresh_adds:
  assumes "fresh_node env s"
  shows "distinct (map fst krs) \<longleftrightarrow>
    (\<exists>t. act_each (\<lambda>(k, r). add_text (e_kv env) (vm_field_from_string (e_vm env)) k r) krs (app_records s) = (Ok (), t))"
proof
  assume "distinct (map fst krs)"
  then show "\<exists>t. act_each (\<lambda>(k, r). add_text (e_kv env) (vm_field_from_string (e_vm env)) k r) krs (app_records s) = (Ok (), t)"
    using assms by (intro adds_fresh) (simp_all add: fresh_node_def hm_contains_def)
qed (use add_texts_distinct in blast)

lemma init_chain_fresh:
  assumes "fresh_node env s"
  shows "if distinct (map fst (genesis_texts (e_vm env) state))
    then \<exists>rs. init_chain env (Some state) s
        = (Ok (), s\<lparr>app_records := rs, app_validators := replace (e_crypto env) (gs_validators state) (app_validators s)\<rparr>)
      \<and> (\<forall>(k, r) \<in> set (genesis_texts (e_vm env) state). map_of (rs_record_buffer rs) k = Some r)
    else fst (init_chain env (Some state) s) = Panic ''failure adding genesis records''"
proof -
  let ?add = "act_each (\<lambda>(k, r). add_text (e_kv env) (vm_field_from_string (e_vm env)) k r)
      (genesis_texts (e_vm env) state) (app_records s)"
  obtain q rs where run: "?add = (q, rs)" by force
  note iff = fresh_adds [OF assms, of "genesis_texts (e_vm env) state"]
  show ?thesis
  proof (cases q)
    case (Ok u)
    with run iff have d: "distinct (map fst (genesis_texts (e_vm env) state))" by auto
    have "init_chain env (Some state) s
        = (Ok (), s\<lparr>app_records := rs, app_validators := replace (e_crypto env) (gs_validators state) (app_validators s)\<rparr>)"
      using run Ok assms
      by (simp add: init_chain_eq act_then_def on_records_def locked_def on_validators_def fresh_node_def)
    moreover have "\<forall>(k, r) \<in> set (genesis_texts (e_vm env) state). map_of (rs_record_buffer rs) k = Some r"
    proof -
      have "?add = (Ok (), rs)" using run Ok by simp
      from add_texts_buffer [OF this] show ?thesis by blast
    qed
    ultimately show ?thesis using d by auto
  next
    case (Err e)
    with run iff have "\<not> distinct (map fst (genesis_texts (e_vm env) state))" by auto
    then show ?thesis using run Err by (simp add: init_chain_eq act_then_def on_records_def)
  next
    case (Panic p)
    with run have "?add = (Panic p, rs)" by simp
    with add_texts_no_panic show ?thesis by blast
  qed
qed


section \<open>Properties\<close>

text \<open>The genesis files agree: a run that succeeds writes the same text to the genesis file of
  every node and to no other file, with one record and one validator per node, in the order of
  the arguments, each record minted for the account of its validator.\<close>
theorem genesis_files_agree:
  assumes "writes_kept io" and "genesis_main vm c js io amount dirs fs = (Ok state, fs')"
  shows "(\<exists>content. fs' = (\<lambda>path. if path \<in> genesis_path ` set dirs then Some content else fs path))
    \<and> list_all2 (\<lambda>record v. vm_mint_record vm ''credits.aleo'' ''credits'' (v_aleo_address v) amount 1234 = Ok record)
        (gs_records state) (gs_validators state)
    \<and> list_all2 (\<lambda>d v. \<exists>account address. read_json js fs (path_join d ''account.json'') = Ok account
          \<and> js_as_str js (js_index js account ''address'') = Some address \<and> vm_parse_address vm address = Ok (v_aleo_address v))
        dirs (gs_validators state)"
proof -
  from genesis_main_Ok [OF assms] obtain content powers nodes where
    fs': "fs' = (\<lambda>path. if path \<in> genesis_path ` set dirs then Some content else fs path)"
    and nodes: "list_all2 (\<lambda>d n. process_node vm c js fs powers amount d = Ok n) dirs nodes"
    and state: "state = \<lparr>gs_records = map fst nodes, gs_validators = map snd nodes\<rparr>" by blast
  have one: "vm_mint_record vm ''credits.aleo'' ''credits'' (v_aleo_address (snd n)) amount 1234 = Ok (fst n)
      \<and> (\<exists>account address. read_json js fs (path_join d ''account.json'') = Ok account
          \<and> js_as_str js (js_index js account ''address'') = Some address
          \<and> vm_parse_address vm address = Ok (v_aleo_address (snd n)))"
    if "process_node vm c js fs powers amount d = Ok n" for d n
    using process_node_Ok [of vm c js fs powers amount d "fst n" "snd n"] that by simp
  have len: "length dirs = length nodes"
    and each: "\<And>k. k < length nodes \<Longrightarrow> process_node vm c js fs powers amount (dirs ! k) = Ok (nodes ! k)"
    using nodes by (simp_all add: list_all2_conv_all_nth)
  show ?thesis
    unfolding state fs' using len one [OF each] by (intro conjI exI) (simp_all add: list_all2_conv_all_nth)
qed

text \<open>A chain starts exactly when its genesis records are distinct: on a node without records
  \<open>init_chain\<close> installs the validators of the genesis state and buffers all its records when
  their commitments are different, and panics otherwise.\<close>
theorem genesis_starts_chain:
  assumes "fresh_node env s"
  shows "if distinct (map fst (genesis_texts (e_vm env) state))
    then \<exists>t. init_chain env (Some state) s = (Ok (), t)
      \<and> vs_validators (app_validators t) = by_address (e_crypto env) (gs_validators state)
      \<and> (\<forall>(k, r) \<in> set (genesis_texts (e_vm env) state). map_of (rs_record_buffer (app_records t)) k = Some r)
    else fst (init_chain env (Some state) s) = Panic ''failure adding genesis records''"
proof (cases "distinct (map fst (genesis_texts (e_vm env) state))")
  case True
  with init_chain_fresh [OF assms, of state] show ?thesis by (auto simp: replace_def)
qed (use init_chain_fresh [OF assms, of state] in simp)

text \<open>C27. Two nodes with one account stop the chain: the records are minted with a fixed seed, so
  two nodes that belong to the same account get the same record. The binary writes the genesis
  files without complaint and every node panics in \<open>init_chain\<close>.\<close>
theorem shared_account_stops_genesis:
  assumes "writes_kept io" and "genesis_main (e_vm env) c js io amount dirs fs = (Ok state, fs')"
    and "i < j" and "j < length (gs_validators state)"
    and "v_aleo_address (gs_validators state ! i) = v_aleo_address (gs_validators state ! j)"
    and "fresh_node env s"
  shows "fst (init_chain env (Some state) s) = Panic ''failure adding genesis records''"
proof -
  from genesis_main_Ok [OF assms(1,2)] obtain powers nodes where
    nodes: "list_all2 (\<lambda>d n. process_node (e_vm env) c js fs powers amount d = Ok n) dirs nodes"
    and state: "state = \<lparr>gs_records = map fst nodes, gs_validators = map snd nodes\<rparr>" by blast
  have len: "j < length nodes" using assms(4) by (simp add: state)
  have minted: "vm_mint_record (e_vm env) ''credits.aleo'' ''credits'' (v_aleo_address (snd (nodes ! k))) amount 1234
      = Ok (fst (nodes ! k))" if "k < length nodes" for k
    using nodes that process_node_Ok [of "e_vm env" c js fs powers amount "dirs ! k" "fst (nodes ! k)" "snd (nodes ! k)"]
    by (simp add: list_all2_conv_all_nth)
  have "fst (nodes ! i) = fst (nodes ! j)"
    using minted [of i] minted [of j] assms(3,5) len by (simp add: state)
  then have "map fst (genesis_texts (e_vm env) state) ! i = map fst (genesis_texts (e_vm env) state) ! j"
    using len assms(3) by (simp add: genesis_texts_def state)
  moreover have "j < length (map fst (genesis_texts (e_vm env) state))"
    using len by (simp add: genesis_texts_def state)
  ultimately have "\<not> distinct (map fst (genesis_texts (e_vm env) state))"
    using assms(3) nth_eq_iff_index_eq [of "map fst (genesis_texts (e_vm env) state)" i j] by auto
  then show ?thesis using init_chain_fresh [OF assms(6), of state] by simp
qed


section \<open>Witnesses\<close>

text \<open>JSON values as a data type.\<close>

datatype json =
    JNull
  | JBool bool
  | JNumber string
  | JString string
  | JArray "json list"
  | JObject "(string \<times> json) list"

fun json_index :: "json \<Rightarrow> string \<Rightarrow> json" where
  "json_index (JObject entries) key = (case map_of entries key of Some value \<Rightarrow> value | None \<Rightarrow> JNull)"
| "json_index _ key = JNull"

fun as_str :: "json \<Rightarrow> string option" where
  "as_str (JString text) = Some text"
| "as_str _ = None"

fun as_array :: "json \<Rightarrow> json list option" where
  "as_array (JArray values) = Some values"
| "as_array _ = None"

text \<open>Two nodes in the directories \<open>a\<close> and \<open>b\<close>, with the keys 1 and 2 and the powers 10 and 5.\<close>

definition key_text :: "u8 \<Rightarrow> string" where
  "key_text n = text_of (n # replicate 31 0)"

definition sample_json_crate :: "(json, string, string) json_crate" where
  "sample_json_crate =
     \<lparr>js_parse = (\<lambda>text.
        if text = ''genesis'' then Inr (JObject [(''validators'', JArray
          [JObject [(''pub_key'', JObject [(''value'', JString (key_text 1))]), (''power'', JString ''10'')],
           JObject [(''pub_key'', JObject [(''value'', JString (key_text 2))]), (''power'', JString ''5'')]])])
        else if text = ''account'' then Inr (JObject [(''address'', JString ''aleo1'')])
        else if text = ''key 1'' then Inr (JObject [(''pub_key'', JObject [(''value'', JString (key_text 1))])])
        else if text = ''key 2'' then Inr (JObject [(''pub_key'', JObject [(''value'', JString (key_text 2))])])
        else Inl ''json''),
      js_print = (\<lambda>j. Inr ''new genesis''),
      js_state = (\<lambda>state. Inr JNull), js_index = json_index, js_as_str = as_str, js_as_array = as_array,
      js_as_object_mut = (\<lambda>j. case j of
        JObject entries \<Rightarrow> Some (\<lambda>key value. JObject (AList.update key value entries)) | _ \<Rightarrow> None)\<rparr>"

definition sample_dirs :: files where
  "sample_dirs = map_of
     [(''a/config/genesis.json'', ''genesis''), (''a/account.json'', ''account''),
      (''a/config/priv_validator_key.json'', ''key 1''), (''b/account.json'', ''account''),
      (''b/config/priv_validator_key.json'', ''key 2'')]"

lemma sample_files:
  "sample_dirs ''a/config/genesis.json'' = Some ''genesis''" "sample_dirs ''a/account.json'' = Some ''account''"
  "sample_dirs ''a/config/priv_validator_key.json'' = Some ''key 1''" "sample_dirs ''b/account.json'' = Some ''account''"
  "sample_dirs ''b/config/priv_validator_key.json'' = Some ''key 2''"
  by (simp_all add: sample_dirs_def)

lemma sample_numbers: "parse_u64 ''10'' = Some 10" "parse_u64 ''5'' = Some 5"
  by (simp_all add: parse_u64_def digit_value_def)

lemma bytes_of_key: "bytes_of (key_text n) = n # replicate 31 0"
  unfolding key_text_def by (rule bytes_of_text)

lemma key_text_eq [simp]: "key_text m = key_text n \<longleftrightarrow> m = n"
  by (metis bytes_of_key list.inject)

lemma sample_json:
  "js_parse sample_json_crate ''genesis'' = Inr (JObject [(''validators'', JArray
     [JObject [(''pub_key'', JObject [(''value'', JString (key_text 1))]), (''power'', JString ''10'')],
      JObject [(''pub_key'', JObject [(''value'', JString (key_text 2))]), (''power'', JString ''5'')]])])"
  "js_parse sample_json_crate ''account'' = Inr (JObject [(''address'', JString ''aleo1'')])"
  "js_parse sample_json_crate ''key 1'' = Inr (JObject [(''pub_key'', JObject [(''value'', JString (key_text 1))])])"
  "js_parse sample_json_crate ''key 2'' = Inr (JObject [(''pub_key'', JObject [(''value'', JString (key_text 2))])])"
  by (simp_all add: sample_json_crate_def)

lemma sample_access:
  "js_index sample_json_crate = json_index" "js_as_str sample_json_crate = as_str"
  "js_as_array sample_json_crate = as_array"
  "js_as_object_mut sample_json_crate (JObject entries) = Some (\<lambda>key value. JObject (AList.update key value entries))"
  by (simp_all add: sample_json_crate_def)

lemma sample_mint: "vm_mint_record sample_vm p n a amount seed
    = Ok (decimal (unat amount) @ ''-'' @ decimal (unat seed), ''record'')"
  by (simp add: lambda_backend_def Vm_Lambda.mint_record_def sample_crate_def)

lemma sample_from_str: "validator_from_str sample_vm sample_crypto (key_text n) ''aleo1'' p = Ok (sample_validator n p)"
  by (simp add: validator_from_str_def parse_pub_key_def bytes_of_key sample_validator_def sample_key_def
      sample_account_def) (simp add: lambda_backend_def sample_crate_def)

definition sample_genesis :: "(string, string) genesis_state" where
  "sample_genesis =
     \<lparr>gs_records = [(decimal 1000 @ ''-'' @ decimal 1234, ''record''), (decimal 1000 @ ''-'' @ decimal 1234, ''record'')],
      gs_validators = [sample_validator 1 10, sample_validator 2 5]\<rparr>"

lemma sample_build:
  "build_genesis sample_vm sample_crypto sample_json_crate 1000 [''a'', ''b''] sample_dirs
     = Ok (sample_genesis, ''new genesis'')"
proof -
  have read: "read_json sample_json_crate sample_dirs p = external (js_parse sample_json_crate content)"
    if "sample_dirs p = Some content" for p content
    using that by (simp add: read_json_def read_to_string_def)
  have paths: "path_join ''a'' ''account.json'' = ''a/account.json''" "path_join ''b'' ''account.json'' = ''b/account.json''"
    "path_join ''a'' ''config/priv_validator_key.json'' = ''a/config/priv_validator_key.json''"
    "path_join ''b'' ''config/priv_validator_key.json'' = ''b/config/priv_validator_key.json''"
    "genesis_path ''a'' = ''a/config/genesis.json''"
    by (simp_all add: path_join_def genesis_path_def)
  have powers: "voting_powers sample_json_crate (JObject [(''validators'', JArray
     [JObject [(''pub_key'', JObject [(''value'', JString (key_text 1))]), (''power'', JString ''10'')],
      JObject [(''pub_key'', JObject [(''value'', JString (key_text 2))]), (''power'', JString ''5'')]])])
     = Ok [(key_text 1, 10), (key_text 2, 5)]"
    by (simp add: voting_powers_def voting_power_entry_def sample_access sample_numbers hm_collect_def hm_insert_def)
  have a: "process_node sample_vm sample_crypto sample_json_crate sample_dirs [(key_text 1, 10), (key_text 2, 5)] 1000 ''a''
      = Ok ((decimal 1000 @ ''-'' @ decimal 1234, ''record''), sample_validator 1 10)"
    unfolding process_node_def paths read [OF sample_files(2)] read [OF sample_files(3)] sample_json
    by (simp add: sample_access sample_from_str sample_mint)
  have b: "process_node sample_vm sample_crypto sample_json_crate sample_dirs [(key_text 1, 10), (key_text 2, 5)] 1000 ''b''
      = Ok ((decimal 1000 @ ''-'' @ decimal 1234, ''record''), sample_validator 2 5)"
    unfolding process_node_def paths read [OF sample_files(4)] read [OF sample_files(5)] sample_json
    by (simp add: sample_access sample_from_str sample_mint)
  have out: "js_state sample_json_crate state = Inr JNull" "js_print sample_json_crate j = Inr ''new genesis''" for state j
    by (simp_all add: sample_json_crate_def)
  show ?thesis
    unfolding build_genesis_def list.case paths read [OF sample_files(1)] sample_json external.simps and_then.simps powers
    by (simp add: a b out sample_access sample_genesis_def)
qed

lemma sample_genesis_run:
  "\<exists>fs'. genesis_main sample_vm sample_crypto sample_json_crate sample_files_io 1000 [''a'', ''b''] sample_dirs
     = (Ok sample_genesis, fs')"
  by (simp add: genesis_main_def sample_build act_then_def write_file_def sample_files_io_def)

theorem genesis_files_agree_witness:
  "\<exists>fs'. genesis_main sample_vm sample_crypto sample_json_crate sample_files_io 1000 [''a'', ''b''] sample_dirs
      = (Ok sample_genesis, fs') \<and> fs' ''a/config/genesis.json'' = fs' ''b/config/genesis.json''"
proof -
  from sample_genesis_run obtain fs' where run: "genesis_main sample_vm sample_crypto sample_json_crate sample_files_io
      1000 [''a'', ''b''] sample_dirs = (Ok sample_genesis, fs')" by blast
  from genesis_files_agree [OF sample_files_io_laws(1) run] obtain content where
    "fs' = (\<lambda>path. if path \<in> genesis_path ` set [''a'', ''b''] then Some content else sample_dirs path)" by blast
  moreover have "''a/config/genesis.json'' \<in> genesis_path ` set [''a'', ''b'']"
    "''b/config/genesis.json'' \<in> genesis_path ` set [''a'', ''b'']"
    by (simp_all add: genesis_path_def path_join_def)
  ultimately have "fs' ''a/config/genesis.json'' = Some content" "fs' ''b/config/genesis.json'' = Some content"
    by (simp_all only: if_True)
  then show ?thesis using run by simp
qed

definition empty_app :: "(string \<times> string) list app" where
  "empty_app =
     \<lparr>app_records = new_record_store [] [], app_programs = \<lparr>ps_alive = True, ps_db = []\<rparr>,
      app_validators = sample_set\<lparr>vs_validators := []\<rparr>, app_poisoned = False,
      app_validators_file = None, app_height_file = Height 0\<rparr>"

lemma empty_app_fresh: "fresh_node sample_env empty_app"
  by (simp add: fresh_node_def empty_app_def new_record_store_def key_exists_or_fails_def)

theorem genesis_starts_chain_witness:
  "\<exists>t. init_chain sample_env (Some \<lparr>gs_records = [(''c1'', ''r1''), (''c2'', ''r2'')],
        gs_validators = [sample_validator 1 10]\<rparr>) empty_app = (Ok (), t)
    \<and> map_of (rs_record_buffer (app_records t)) ''c2'' = Some ''r2''"
proof -
  let ?state = "\<lparr>gs_records = [(''c1'', ''r1''), (''c2'', ''r2'')], gs_validators = [sample_validator 1 10]\<rparr>"
  have texts: "genesis_texts (e_vm sample_env) ?state = [(''c1'', ''r1''), (''c2'', ''r2'')]"
    by (simp add: genesis_texts_def lambda_backend_def sample_crate_def)
  from genesis_starts_chain [OF empty_app_fresh, of ?state] show ?thesis unfolding texts by auto
qed

theorem shared_account_stops_genesis_witness:
  "(\<exists>fs'. genesis_main sample_vm sample_crypto sample_json_crate sample_files_io 1000 [''a'', ''b''] sample_dirs
      = (Ok sample_genesis, fs'))
   \<and> fst (init_chain sample_env (Some sample_genesis) empty_app) = Panic ''failure adding genesis records''"
proof -
  from sample_genesis_run obtain fs' where run: "genesis_main (e_vm sample_env) sample_crypto sample_json_crate sample_files_io
      1000 [''a'', ''b''] sample_dirs = (Ok sample_genesis, fs')" by auto
  have "fst (init_chain sample_env (Some sample_genesis) empty_app) = Panic ''failure adding genesis records''"
    by (rule shared_account_stops_genesis [OF sample_files_io_laws(1) run, of 0 1])
      (simp_all add: sample_genesis_def empty_app_fresh)
  then show ?thesis using sample_genesis_run by blast
qed

end
