(* ===== verification/Client.thy ===== *)
theory Client
  imports Program_File Application
begin

text \<open>
  What the commands of the client share: the account file (\<open>src/client/account.rs\<close>), the
  requests to the node (\<open>src/client/tendermint.rs\<close>), and from \<open>src/client/commands.rs\<close> the
  records of the account, the choice of the fee record and the parsers of arguments.
\<close>

section \<open>State and environment\<close>

datatype view_key = ViewKey string

record credentials =
  c_private_key :: private_key
  c_view_key :: view_key
  c_address :: aleo_address

text \<open>The files of the user, and the transactions handed to the node so far, as bytes.\<close>

record client_state =
  cs_files :: files
  cs_sent :: "bytes list"

text \<open>
  What a command uses of the crates, of the operating system and of the node. \<open>'v\<close> is the type
  of user inputs, \<open>'r\<close> that of decrypted records. \<open>ce_record_of\<close> is the match on the record
  variant of an input, \<open>tv_record_value\<close> its constructor. An answer of the node carries the
  decoded value; \<open>Inl\<close> is a failure of the transport.
\<close>

record ('f, 'er, 'tr, 'out, 'v, 'r) client_env =
  ce_vm :: "('f, 'er, 'tr, 'out) vm_backend"
  ce_tx :: "'tr tx_crate"
  ce_tv :: "('tr, 'v, 'r) tx_vm"
  ce_programs :: program_crate
  ce_io :: file_io
  ce_home :: string
  ce_new_private_key :: "string + private_key"
  ce_view_key :: "private_key \<Rightarrow> string + view_key"
  ce_address :: "view_key \<Rightarrow> string + aleo_address"
  ce_address_text :: "aleo_address \<Rightarrow> string"
  ce_to_json :: "credentials \<Rightarrow> string + string"
  ce_from_json :: "string \<Rightarrow> string + credentials"
  ce_parse_encrypted :: "string \<Rightarrow> string + 'er"
  ce_parse_record :: "string \<Rightarrow> string + 'r"
  ce_parse_value :: "string \<Rightarrow> string + 'v"
  ce_decrypt :: "'er \<Rightarrow> view_key \<Rightarrow> string + 'r"
  ce_is_owner :: "'er \<Rightarrow> aleo_address \<Rightarrow> view_key \<Rightarrow> bool"
  ce_record_of :: "'v \<Rightarrow> 'r option"
  ce_record_text :: "'r \<Rightarrow> string"
  ce_gates :: "'r \<Rightarrow> u64"
  ce_serial_number :: "private_key \<Rightarrow> 'f \<Rightarrow> 'f result"
  ce_amount :: "u64 \<Rightarrow> 'v result"
  ce_base64_decode :: "string \<Rightarrow> string + bytes"
  ce_generate_program :: "string \<Rightarrow> string + program"
  ce_parse_program_id :: "string \<Rightarrow> string + string"
  ce_encode_tx :: "'tr transaction \<Rightarrow> bytes option"
  ce_decode_tx :: "bytes \<Rightarrow> string + 'tr transaction"
  ce_url_valid :: bool
  ce_query :: "abci_query \<Rightarrow> string + ('f, 'er) query_response"
  ce_broadcast :: "bytes \<Rightarrow> string + check_response"
  ce_tx_search :: "string \<Rightarrow> string + (nat \<times> bytes list)"


section \<open>The account file\<close>

definition credentials_new :: "('f, 'er, 'tr, 'out, 'v, 'r) client_env \<Rightarrow> credentials result" where
  "credentials_new env =
     and_then (external (ce_new_private_key env)) (\<lambda>private_key.
     and_then (external (ce_view_key env private_key)) (\<lambda>view_key.
     and_then (external (ce_address env view_key)) (\<lambda>address.
     Ok \<lparr>c_private_key = private_key, c_view_key = view_key, c_address = address\<rparr>)))"

definition credentials_path :: "string \<Rightarrow> string" where
  "credentials_path home = path_join home ''account.json''"

definition credentials_save ::
  "('f, 'er, 'tr, 'out, 'v, 'r) client_env \<Rightarrow> credentials \<Rightarrow> (files, string) action" where
  "credentials_save env credentials =
     (let path = credentials_path (ce_home env) in
      act_then (pure_action (\<lambda>_. ensure (fio_create_dir (ce_io env) (ce_home env)) (External ''create_dir_all''))) (\<lambda>_.
      act_then (pure_action (\<lambda>_. external (ce_to_json env credentials))) (\<lambda>account_json.
      act_then (write_file (ce_io env) path account_json) (\<lambda>_. pure_action (\<lambda>_. Ok path)))))"

definition credentials_load ::
  "('f, 'er, 'tr, 'out, 'v, 'r) client_env \<Rightarrow> files \<Rightarrow> credentials result" where
  "credentials_load env fs =
     and_then (read_to_string fs (credentials_path (ce_home env))) (\<lambda>account_json.
     external (ce_from_json env account_json))"


section \<open>Requests to the node\<close>

text \<open>\<open>tendermint::query\<close>: the response code decides; a url that does not parse panics.\<close>

definition node_query ::
  "('f, 'er, 'tr, 'out, 'v, 'r) client_env \<Rightarrow> abci_query \<Rightarrow> ('f, 'er) query_response result" where
  "node_query env q =
     (if \<not> ce_url_valid env then Panic ''invalid url''
      else and_then (external (ce_query env q)) (\<lambda>response.
        case response of QueryFailed e \<Rightarrow> Err RequestRejected | _ \<Rightarrow> Ok response))"

definition node_broadcast ::
  "('f, 'er, 'tr, 'out, 'v, 'r) client_env \<Rightarrow> bytes \<Rightarrow> (client_state, unit) action" where
  "node_broadcast env tx st =
     (if \<not> ce_url_valid env then (Panic ''invalid url'', st)
      else (and_then (external (ce_broadcast env tx)) (\<lambda>response.
          case response of CheckOk _ \<Rightarrow> Ok () | CheckFailed e \<Rightarrow> Err RequestRejected),
        st\<lparr>cs_sent := cs_sent st @ [tx]\<rparr>))"

definition get_transaction ::
  "('f, 'er, 'tr, 'out, 'v, 'r) client_env \<Rightarrow> string \<Rightarrow> bytes result" where
  "get_transaction env transaction_id =
     and_then (ensure (ce_url_valid env) (External ''invalid url'')) (\<lambda>_.
     and_then (external (ce_tx_search env transaction_id)) (\<lambda>(total_count, txs).
     and_then (ensure (0 < total_count) (NotCommitted transaction_id)) (\<lambda>_.
     case txs of tx # _ \<Rightarrow> Ok tx | [] \<Rightarrow> Panic ''unwrap on None'')))"

text \<open>
  \<open>bincode::deserialize\<close> of an answer. The bytes of the records answer are the list followed by
  the last key, which the client does not read: \<open>deserialize\<close> allows trailing bytes.
\<close>

fun records_of :: "('f, 'er) query_response \<Rightarrow> ('f \<times> 'er) list result" where
  "records_of (RecordsResponse records last_key) = Ok records"
| "records_of _ = Err (External ''bincode'')"

fun spent_of :: "('f, 'er) query_response \<Rightarrow> 'f list result" where
  "spent_of (SpentResponse serial_numbers) = Ok serial_numbers"
| "spent_of _ = Err (External ''bincode'')"

fun program_of :: "('f, 'er) query_response \<Rightarrow> program option result" where
  "program_of (ProgramResponse result) = Ok result"
| "program_of _ = Err (External ''bincode'')"


section \<open>The records of the account\<close>

text \<open>
  The records that decrypt, and whose serial number can be computed and is not spent. A serial
  number is never a panic: those of both backends are computed or an error
  (\<open>compute_serial_number_no_panic\<close>, \<open>snark_serial_number_no_panic\<close>).
\<close>

definition own_unspent ::
  "('f, 'er, 'tr, 'out, 'v, 'r) client_env \<Rightarrow> credentials \<Rightarrow> 'f list \<Rightarrow> 'f \<times> 'er \<Rightarrow> ('f \<times> 'er \<times> 'r) option" where
  "own_unspent env credentials spent_records entry =
     (case entry of (commitment, ciphertext) \<Rightarrow>
       (case ce_decrypt env ciphertext (c_view_key credentials) of
          Inl e \<Rightarrow> None
        | Inr decrypted_record \<Rightarrow>
            (case ce_serial_number env (c_private_key credentials) commitment of
               Ok serial_number \<Rightarrow> if serial_number \<notin> set spent_records
                 then Some (commitment, ciphertext, decrypted_record) else None
             | _ \<Rightarrow> None)))"

definition get_records ::
  "('f, 'er, 'tr, 'out, 'v, 'r) client_env \<Rightarrow> credentials \<Rightarrow> ('f \<times> 'er \<times> 'r) list result" where
  "get_records env credentials =
     and_then (node_query env GetRecords) (\<lambda>get_records_response.
     and_then (node_query env GetSpentSerialNumbers) (\<lambda>get_spent_records_response.
     and_then (records_of get_records_response) (\<lambda>records.
     and_then (spent_of get_spent_records_response) (\<lambda>spent_records.
     Ok (somes (map (own_unspent env credentials spent_records) records))))))"

text \<open>The sort is stable; the key is negated in \<open>i64\<close>, which wraps in a release build.\<close>

definition fee_key :: "('f, 'er, 'tr, 'out, 'v, 'r) client_env \<Rightarrow> 'r \<Rightarrow> int" where
  "fee_key env record = sint (- ce_gates env record)"

definition input_records :: "('f, 'er, 'tr, 'out, 'v, 'r) client_env \<Rightarrow> 'v list \<Rightarrow> string set" where
  "input_records env inputs = set (map (ce_record_text env) (somes (map (ce_record_of env) inputs)))"

definition select_default_fee_record ::
  "('f, 'er, 'tr, 'out, 'v, 'r) client_env \<Rightarrow> u64 \<Rightarrow> 'v list \<Rightarrow> 'r list \<Rightarrow> 'r result" where
  "select_default_fee_record env amount inputs account_records =
     ok_or NoFeeRecord
       (find (\<lambda>record. ce_record_text env record \<notin> input_records env inputs \<and> amount \<le> ce_gates env record)
         (sort_key (fee_key env) account_records))"

definition choose_fee_record ::
  "('f, 'er, 'tr, 'out, 'v, 'r) client_env \<Rightarrow> credentials \<Rightarrow> u64 option \<Rightarrow> 'v option \<Rightarrow> 'v list \<Rightarrow>
   (u64 \<times> 'r) option result" where
  "choose_fee_record env credentials amount record inputs =
     (case amount of
        None \<Rightarrow> Ok None
      | Some amount \<Rightarrow>
          (case Option.bind record (ce_record_of env) of
             Some record_value \<Rightarrow> Ok (Some (amount, record_value))
           | None \<Rightarrow>
               and_then (get_records env credentials) (\<lambda>records.
               map_ok (\<lambda>record. Some (amount, record))
                 (select_default_fee_record env amount inputs (map (\<lambda>(_, _, record). record) records)))))"


section \<open>Parsing of arguments\<close>

definition parse_input_record ::
  "('f, 'er, 'tr, 'out, 'v, 'r) client_env \<Rightarrow> files \<Rightarrow> string \<Rightarrow> 'v result" where
  "parse_input_record env fs input =
     and_then (external (ce_parse_encrypted env input)) (\<lambda>encrypted_record.
     and_then (credentials_load env fs) (\<lambda>credentials.
     map_ok (tv_record_value (ce_tv env))
       (external (ce_decrypt env encrypted_record (c_view_key credentials)))))"

definition parse_input_value ::
  "('f, 'er, 'tr, 'out, 'v, 'r) client_env \<Rightarrow> files \<Rightarrow> string \<Rightarrow> 'v result" where
  "parse_input_value env fs input =
     (if take 6 input = ''record'' then parse_input_record env fs input
      else if input = ''%account'' then
        and_then (credentials_load env fs) (\<lambda>credentials.
        external (ce_parse_value env (ce_address_text env (c_address credentials))))
      else (case ce_parse_record env input of
              Inr record \<Rightarrow> Ok (tv_record_value (ce_tv env) record)
            | Inl e \<Rightarrow> external (ce_parse_value env input)))"


section \<open>Choosing the fee record\<close>

lemma find_eq_filter: "find p xs = (case filter p xs of [] \<Rightarrow> None | x # _ \<Rightarrow> Some x)"
  by (induction xs) auto

text \<open>The head of a stable sort is the first of the least elements.\<close>

lemma sort_key_head:
  fixes f :: "'a \<Rightarrow> int"
  assumes "xs \<noteq> []"
  shows "\<exists>r rest pre post. sort_key f xs = r # rest \<and> xs = pre @ r # post
    \<and> (\<forall>x \<in> set pre. f r < f x) \<and> (\<forall>x \<in> set post. f r \<le> f x)"
  using assms
proof (induction xs)
  case (Cons x xs)
  show ?case
  proof (cases xs)
    case Nil
    then show ?thesis by (intro exI [of _ x] exI [of _ "[]"]) simp
  next
    case (Cons y ys)
    with Cons.IH obtain r rest pre post where ih: "sort_key f xs = r # rest" "xs = pre @ r # post"
      "\<forall>x \<in> set pre. f r < f x" "\<forall>x \<in> set post. f r \<le> f x" by blast
    show ?thesis
    proof (cases "f x \<le> f r")
      case True
      with ih have "sort_key f (x # xs) = x # r # rest" "x # xs = [] @ x # xs"
        "\<forall>z \<in> set xs. f x \<le> f z" by fastforce+
      then show ?thesis by (metis empty_iff list.set(1))
    next
      case False
      with ih have "sort_key f (x # xs) = r # insort_key f x rest" "x # xs = (x # pre) @ r # post"
        "\<forall>z \<in> set (x # pre). f r < f z" by simp_all
      then show ?thesis using ih(4) by blast
    qed
  qed
qed simp

lemma filter_split:
  assumes "filter p xs = pre @ r # post"
  shows "\<exists>us vs. xs = us @ r # vs \<and> filter p us = pre \<and> filter p vs = post \<and> p r"
  using assms
proof (induction xs arbitrary: pre)
  case (Cons x xs)
  show ?case
  proof (cases "p x \<and> pre = []")
    case True
    with Cons.prems show ?thesis by (intro exI [of _ "[]"] exI [of _ xs]) auto
  next
    case False
    then obtain pre' where "filter p xs = pre' @ r # post" "pre = (if p x then [x] else []) @ pre'"
      using Cons.prems by (cases pre) (auto split: if_splits)
    with Cons.IH [of pre'] obtain us vs where "xs = us @ r # vs" "filter p us = pre'" "filter p vs = post" "p r" by auto
    with \<open>pre = _\<close> show ?thesis by (intro exI [of _ "x # us"] exI [of _ vs]) auto
  qed
qed simp

definition usable_fee_record ::
  "('f, 'er, 'tr, 'out, 'v, 'r) client_env \<Rightarrow> u64 \<Rightarrow> 'v list \<Rightarrow> 'r \<Rightarrow> bool" where
  "usable_fee_record env amount inputs record \<longleftrightarrow>
     ce_record_text env record \<notin> input_records env inputs \<and> amount \<le> ce_gates env record"

lemma select_eq:
  "select_default_fee_record env amount inputs records =
     ok_or NoFeeRecord (case sort_key (fee_key env) (filter (usable_fee_record env amount inputs) records) of
       [] \<Rightarrow> None | r # _ \<Rightarrow> Some r)"
  unfolding select_default_fee_record_def find_eq_filter filter_sort usable_fee_record_def ..

lemma uint_neg: "uint (- w :: 64 word) = (if w = 0 then 0 else 2 ^ 64 - uint w)"
proof -
  have "uint w mod 2 ^ 64 = uint w" using uint_lt2p [of w] by (intro mod_pos_pos_trivial) simp_all
  then show ?thesis by (auto simp: uint_word_ariths zmod_zminus1_eq_if uint_0_iff)
qed

lemma fee_key_below: "uint (ce_gates env r) < 2 ^ 63 \<Longrightarrow> fee_key env r = - int (unat (ce_gates env r))"
  using uint_lt2p [of "ce_gates env r"] by (simp add: fee_key_def sint_word64 uint_neg)

lemma fee_key_above: "2 ^ 63 < uint (ce_gates env r) \<Longrightarrow> 0 < fee_key env r"
  using uint_lt2p [of "ce_gates env r"] by (auto simp: fee_key_def sint_word64 uint_neg)


section \<open>Properties\<close>

text \<open>C20. The default fee record: among the records of the account that are not inputs of the
  execution and hold at least the fee, the first one with the most gates is chosen, and the
  choice fails exactly when there is none, provided every record holds less than \<open>2 ^ 63\<close> gates.\<close>
theorem default_fee_record_is_biggest:
  assumes "\<And>x. x \<in> set records \<Longrightarrow> uint (ce_gates env x) < 2 ^ 63"
  shows "case select_default_fee_record env amount inputs records of
      Ok r \<Rightarrow> \<exists>pre post. records = pre @ r # post \<and> usable_fee_record env amount inputs r
        \<and> (\<forall>x \<in> set pre. usable_fee_record env amount inputs x \<longrightarrow> ce_gates env x < ce_gates env r)
        \<and> (\<forall>x \<in> set post. usable_fee_record env amount inputs x \<longrightarrow> ce_gates env x \<le> ce_gates env r)
    | Err e \<Rightarrow> e = NoFeeRecord \<and> \<not> (\<exists>x. x \<in> set records \<and> usable_fee_record env amount inputs x)
    | Panic msg \<Rightarrow> False"
proof (cases "filter (usable_fee_record env amount inputs) records")
  case Nil
  then show ?thesis by (auto simp: select_eq filter_empty_conv)
next
  case (Cons y ys)
  let ?ok = "usable_fee_record env amount inputs"
  from Cons have "filter ?ok records \<noteq> []" by simp
  from sort_key_head [OF this, of "fee_key env"] obtain r rest pre post where
    sorted: "sort_key (fee_key env) (filter ?ok records) = r # rest" and split: "filter ?ok records = pre @ r # post"
    and less: "\<forall>x \<in> set pre. fee_key env r < fee_key env x" and le: "\<forall>x \<in> set post. fee_key env r \<le> fee_key env x"
    by (elim exE conjE)
  from filter_split [OF split] obtain us vs where parts: "records = us @ r # vs" "filter ?ok us = pre"
    "filter ?ok vs = post" "?ok r" by (elim exE conjE)
  have key: "fee_key env x = - int (unat (ce_gates env x))" if "x \<in> set records" for x
    by (rule fee_key_below) (rule assms [OF that])
  have "select_default_fee_record env amount inputs records = Ok r" unfolding select_eq sorted by simp
  moreover have "ce_gates env x < ce_gates env r" if "x \<in> set us" "?ok x" for x
  proof -
    from that have "x \<in> set pre" unfolding parts(2) [symmetric] by simp
    with less have "fee_key env r < fee_key env x" by blast
    then show ?thesis using that(1) by (simp add: key parts(1) word_less_def)
  qed
  moreover have "ce_gates env x \<le> ce_gates env r" if "x \<in> set vs" "?ok x" for x
  proof -
    from that have "x \<in> set post" unfolding parts(3) [symmetric] by simp
    with le have "fee_key env r \<le> fee_key env x" by blast
    then show ?thesis using that(1) by (simp add: key parts(1) word_le_def)
  qed
  ultimately show ?thesis
    unfolding \<open>select_default_fee_record env amount inputs records = Ok r\<close> result.case using parts(1,4) by blast
qed

text \<open>A record with more than \<open>2 ^ 63\<close> gates is not chosen although it is the biggest: the
  negated key wraps and sorts it last, so any smaller record that can pay is preferred.\<close>
theorem huge_fee_record_comes_last:
  assumes "x \<in> set records" and "usable_fee_record env amount inputs x" and "uint (ce_gates env x) < 2 ^ 63"
    and "select_default_fee_record env amount inputs records = Ok r"
  shows "uint (ce_gates env r) \<le> 2 ^ 63"
proof -
  let ?es = "filter (usable_fee_record env amount inputs) records"
  have x: "x \<in> set ?es" using assms(1,2) by simp
  then obtain r' rest pre post where sorted: "sort_key (fee_key env) ?es = r' # rest" and "?es = pre @ r' # post"
    and "\<forall>x \<in> set pre. fee_key env r' < fee_key env x" "\<forall>x \<in> set post. fee_key env r' \<le> fee_key env x"
    using sort_key_head [of ?es "fee_key env"] by (metis empty_iff list.set(1))
  moreover have "r' = r" using assms(4) by (simp add: select_eq sorted)
  ultimately have "fee_key env r \<le> fee_key env x" using x by force
  then show ?thesis using fee_key_below [OF assms(3)] fee_key_above [of env r] by linarith
qed


section \<open>Witnesses\<close>

text \<open>
  A client of the sample node: a ciphertext decrypts to a record with as many gates as it has
  characters, and the serial number of a record is its commitment with a prefix.
\<close>

definition sample_credentials :: credentials where
  "sample_credentials =
     \<lparr>c_private_key = PrivateKey ''k'', c_view_key = ViewKey ''v'', c_address = AleoAddress ''aleo1''\<rparr>"

definition sample_client ::
  "(abci_query \<Rightarrow> string + (string, string) query_response) \<Rightarrow>
   (string, string, lambda_transition, variable_type, user_value, plain_record) client_env" where
  "sample_client answers =
     \<lparr>ce_vm = sample_vm, ce_tx = sample_tx_crate, ce_tv = sample_tx_vm, ce_programs = sample_program_crate,
      ce_io = sample_files_io, ce_home = ''home'', ce_new_private_key = Inr (PrivateKey ''k''),
      ce_view_key = (\<lambda>k. Inr (ViewKey ''v'')), ce_address = (\<lambda>v. Inr (AleoAddress ''aleo1'')),
      ce_address_text = (\<lambda>a. case a of AleoAddress text \<Rightarrow> text),
      ce_to_json = (\<lambda>c. if c = sample_credentials then Inr ''account'' else Inl ''json''),
      ce_from_json = (\<lambda>text. if text = ''account'' then Inr sample_credentials else Inl ''json''),
      ce_parse_encrypted = Inr, ce_parse_record = (\<lambda>text. Inl ''json''), ce_parse_value = (\<lambda>text. Inr (OtherValue text)),
      ce_decrypt = (\<lambda>er v. Inr (sample_record\<lparr>rec_gates := of_nat (length er), rec_nonce := er\<rparr>)),
      ce_is_owner = (\<lambda>er a v. True),
      ce_record_of = (\<lambda>v. case v of RecordValue r \<Rightarrow> Some r | _ \<Rightarrow> None),
      ce_record_text = rec_nonce, ce_gates = rec_gates,
      ce_serial_number = (\<lambda>k cm. Ok (''s'' @ cm)), ce_amount = (\<lambda>n. Ok (U64 n)),
      ce_base64_decode = (\<lambda>text. Inr (bytes_of text)), ce_generate_program = (\<lambda>text. Inr fee_program),
      ce_parse_program_id = Inr, ce_encode_tx = (\<lambda>tx. Some (bytes_of (tx_id tx))), ce_decode_tx = (\<lambda>b. Inl ''bincode''),
      ce_url_valid = True,
      ce_query = answers,
      ce_broadcast = (\<lambda>b. Inr (CheckOk 0)), ce_tx_search = (\<lambda>i. Inr (0, []))\<rparr>"

definition sized_record :: "string \<Rightarrow> u64 \<Rightarrow> plain_record" where
  "sized_record name g = sample_record\<lparr>rec_gates := g, rec_nonce := name\<rparr>"

lemma sample_usable:
  "usable_fee_record (sample_client answers) amount inputs (sized_record name g) \<longleftrightarrow>
     name \<notin> input_records (sample_client answers) inputs \<and> amount \<le> g"
  by (simp add: usable_fee_record_def sample_client_def sized_record_def)

lemma sample_gates [simp]: "ce_gates (sample_client answers) (sized_record name g) = g"
  by (simp add: sample_client_def sized_record_def)

theorem default_fee_record_is_biggest_witness:
  "select_default_fee_record (sample_client (\<lambda>q. Inl ''down'')) 5 [RecordValue (sized_record ''ten'' 10)]
     [sized_record ''five'' 5, sized_record ''ten'' 10, sized_record ''six'' 6] = Ok (sized_record ''six'' 6)"
proof -
  let ?env = "sample_client (\<lambda>q. Inl ''down'')" and ?rs = "[sized_record ''five'' 5, sized_record ''ten'' 10, sized_record ''six'' 6]"
  let ?ins = "[RecordValue (sized_record ''ten'' 10)]"
  have ins: "input_records ?env ?ins = {''ten''}"
    by (simp add: input_records_def sample_client_def sized_record_def)
  have ok: "usable_fee_record ?env 5 ?ins (sized_record ''six'' 6)"
    and bad: "\<not> usable_fee_record ?env 5 ?ins (sized_record ''ten'' 10)"
    by (simp_all add: sample_usable ins)
  have "uint (ce_gates ?env x) < 2 ^ 63" if "x \<in> set ?rs" for x using that by auto
  note choice = default_fee_record_is_biggest [of ?rs ?env 5 ?ins, OF this]
  show ?thesis
  proof (cases "select_default_fee_record ?env 5 ?ins ?rs")
    case (Ok r)
    with choice obtain pre post where split: "?rs = pre @ r # post" and r: "usable_fee_record ?env 5 ?ins r"
      and post: "\<forall>x \<in> set post. usable_fee_record ?env 5 ?ins x \<longrightarrow> ce_gates ?env x \<le> ce_gates ?env r" by auto
    then consider "r = sized_record ''five'' 5" "post = [sized_record ''ten'' 10, sized_record ''six'' 6]"
      | "r = sized_record ''ten'' 10" | "r = sized_record ''six'' 6"
      by (auto simp: Cons_eq_append_conv)
    then show ?thesis
    proof cases
      case 1
      with post ok have "(6 :: u64) \<le> 5" by (metis list.set_intros(1,2) sample_gates)
      then show ?thesis by simp
    qed (use Ok r bad in auto)
  qed (use choice ok in auto)
qed

theorem huge_fee_record_comes_last_witness:
  "\<exists>r. select_default_fee_record (sample_client (\<lambda>q. Inl ''down'')) 5 [] [sized_record ''huge'' (2 ^ 63 + 1), sized_record ''six'' 6] = Ok r
    \<and> uint (rec_gates r) \<le> 2 ^ 63"
proof -
  let ?env = "sample_client (\<lambda>q. Inl ''down'')" and ?rs = "[sized_record ''huge'' (2 ^ 63 + 1), sized_record ''six'' 6]"
  have ok: "usable_fee_record ?env 5 [] (sized_record ''six'' 6)"
    by (simp add: sample_usable input_records_def)
  have "\<exists>r. select_default_fee_record ?env 5 [] ?rs = Ok r"
  proof (cases "sort_key (fee_key ?env) (filter (usable_fee_record ?env 5 []) ?rs)")
    case Nil
    then have "set (filter (usable_fee_record ?env 5 []) ?rs) = {}" by (metis list.set(1) set_sort)
    then show ?thesis using ok by (simp split: if_splits)
  qed (simp add: select_eq)
  then obtain r where r: "select_default_fee_record ?env 5 [] ?rs = Ok r" by blast
  from huge_fee_record_comes_last [OF _ ok _ r] have "uint (ce_gates ?env r) \<le> 2 ^ 63" by simp
  then show ?thesis using r by (simp add: sample_client_def)
qed

end
