(* ===== verification/Client_Commands.thy ===== *)
theory Client_Commands
  imports Client
begin

text \<open>
  The commands of the client, \<open>Command::run\<close> of \<open>src/client/commands.rs\<close>, and the exit code of
  \<open>src/client/main.rs\<close>. A command reads the account file, asks the node for records and
  programs, builds a transaction and broadcasts it.
\<close>

section \<open>Commands\<close>

datatype account_command = NewAccount | AccountRecords | AccountBalance

text \<open>The last two arguments of a credits command are the fee and the fee record.\<close>

datatype 'v credits_command =
    Transfer 'v 'v u64 "u64 option" "'v option"
  | Split 'v u64 "u64 option" "'v option"
  | Combine 'v 'v "u64 option" "'v option"
  | Stake u64 'v string "u64 option" "'v option"
  | Unstake u64 'v "u64 option" "'v option"

datatype 'v program_command =
    Deploy string "u64 option" "'v option"
  | Execute string string "'v list" "u64 option" "'v option" bool
  | Build string

datatype 'v client_command =
    AccountCommand account_command
  | CreditsCommand "'v credits_command"
  | ProgramCommand "'v program_command"
  | GetTransaction string bool

text \<open>The values the commands print as JSON.\<close>

datatype ('f, 'er, 'tr, 'r) client_output =
    AccountOutput string credentials
  | BalanceOutput u64
  | RecordsOutput "('f \<times> 'er \<times> 'r) list"
  | TransactionOutput "'tr transaction"
  | DecryptedOutput "'tr transaction" "'r list"
  | PathOutput string

text \<open>\<open>fold\<close> over \<open>u64\<close> gates: the sum wraps.\<close>

definition account_balance ::
  "('f, 'er, 'tr, 'out, 'v, 'r) client_env \<Rightarrow> ('f \<times> 'er \<times> 'r) list \<Rightarrow> u64" where
  "account_balance env records = fold (\<lambda>(_, _, record) acc. acc + ce_gates env record) records 0"

definition decrypt_records ::
  "('f, 'er, 'tr, 'out, 'v, 'r) client_env \<Rightarrow> 'tr transaction \<Rightarrow> credentials \<Rightarrow> 'r list" where
  "decrypt_records env tx credentials =
     somes (map (\<lambda>(_, record). case ce_decrypt env record (c_view_key credentials) of
         Inr r \<Rightarrow> Some r | Inl e \<Rightarrow> None)
       (filter (\<lambda>(_, record). ce_is_owner env record (c_address credentials) (c_view_key credentials))
         (output_records (ce_vm env) tx)))"

definition get_program_from_blockchain ::
  "('f, 'er, 'tr, 'out, 'v, 'r) client_env \<Rightarrow> string \<Rightarrow> program option result" where
  "get_program_from_blockchain env program_id =
     and_then (node_query env (GetProgram program_id)) program_of"

text \<open>A program argument is the path of a source file or, when no file can be read, an id.\<close>

definition find_program ::
  "('f, 'er, 'tr, 'out, 'v, 'r) client_env \<Rightarrow> files \<Rightarrow> string \<Rightarrow> program option result" where
  "find_program env fs prog =
     (case fs prog of
        Some program_string \<Rightarrow> map_ok Some (external (ce_generate_program env program_string))
      | None \<Rightarrow> and_then (external (ce_parse_program_id env prog)) (get_program_from_blockchain env))"

text \<open>Serialize and broadcast, the end of every command that sends a transaction.\<close>

definition send_transaction ::
  "('f, 'er, 'tr, 'out, 'v, 'r) client_env \<Rightarrow> 'tr transaction \<Rightarrow>
   (client_state, ('f, 'er, 'tr, 'r) client_output) action" where
  "send_transaction env tx =
     act_then (pure_action (\<lambda>_. expect_some ''serialize transaction'' (ce_encode_tx env tx))) (\<lambda>bytes.
     act_then (node_broadcast env bytes) (\<lambda>_. pure_action (\<lambda>_. Ok (TransactionOutput tx))))"

definition run_credits_command ::
  "('f, 'er, 'tr, 'out, 'v, 'r) client_env \<Rightarrow> credentials \<Rightarrow> string \<Rightarrow> 'v list \<Rightarrow> u64 option \<Rightarrow> 'v option \<Rightarrow>
   (client_state, ('f, 'er, 'tr, 'r) client_output) action" where
  "run_credits_command env credentials function inputs fee_amount fee_record =
     act_then (pure_action (\<lambda>_.
       and_then (choose_fee_record env credentials fee_amount fee_record inputs) (\<lambda>fee.
       and_then (tv_identifier (ce_tv env) function) (\<lambda>function_identifier.
       credits_execution (ce_vm env) (ce_tx env) (ce_tv env) function_identifier inputs
         (c_private_key credentials) fee)))) (send_transaction env)"

text \<open>The inputs of the credits functions.\<close>

definition stake_inputs ::
  "('f, 'er, 'tr, 'out, 'v, 'r) client_env \<Rightarrow> u64 \<Rightarrow> 'v \<Rightarrow> string \<Rightarrow> 'v list result" where
  "stake_inputs env amount record validator =
     and_then (external (ce_base64_decode env validator)) (\<lambda>key_bytes.
     and_then (validator_key_as_u64s key_bytes) (\<lambda>validator_split.
     map_ok (\<lambda>values. record # values) (try_map (ce_amount env)
       [amount, validator_split ! 0, validator_split ! 1, validator_split ! 2, validator_split ! 3])))"

fun run_credits ::
  "('f, 'er, 'tr, 'out, 'v, 'r) client_env \<Rightarrow> credentials \<Rightarrow> 'v credits_command \<Rightarrow>
   (client_state, ('f, 'er, 'tr, 'r) client_output) action" where
  "run_credits env credentials (Transfer input_record recipient_address amount fee fee_record) =
     act_then (pure_action (\<lambda>_. ce_amount env amount)) (\<lambda>value.
     run_credits_command env credentials ''transfer'' [input_record, recipient_address, value] fee fee_record)"
| "run_credits env credentials (Split input_record amount fee fee_record) =
     act_then (pure_action (\<lambda>_. ce_amount env amount)) (\<lambda>value.
     run_credits_command env credentials ''split'' [input_record, value] fee fee_record)"
| "run_credits env credentials (Combine first_record second_record fee fee_record) =
     run_credits_command env credentials ''combine'' [first_record, second_record] fee fee_record"
| "run_credits env credentials (Stake amount record validator fee fee_record) =
     act_then (pure_action (\<lambda>_. stake_inputs env amount record validator)) (\<lambda>inputs.
     run_credits_command env credentials ''stake'' inputs fee fee_record)"
| "run_credits env credentials (Unstake amount record fee fee_record) =
     act_then (pure_action (\<lambda>_. ce_amount env amount)) (\<lambda>value.
     run_credits_command env credentials ''unstake'' [record, value] fee fee_record)"

text \<open>
  \<open>Transaction::deployment\<close> reads the program from the files of the user. The code of an
  execution tests \<open>dry_run\<close> twice; the inner test never sees a dry run. \<open>with_extension\<close>
  is the one of \<open>std::path\<close>, on paths that end in a file name.
\<close>

definition with_files ::
  "('f, 'er, 'tr, 'out, 'v, 'r) client_env \<Rightarrow> files \<Rightarrow> ('tr, 'v, 'r) tx_vm" where
  "with_files env fs =
     (ce_tv env)\<lparr>tv_read_file := (\<lambda>path. case fs path of Some text \<Rightarrow> Inr text | None \<Rightarrow> Inl ''read'')\<rparr>"

definition deploy_transaction ::
  "('f, 'er, 'tr, 'out, 'v, 'r) client_env \<Rightarrow> credentials \<Rightarrow> files \<Rightarrow> string \<Rightarrow> u64 option \<Rightarrow> 'v option \<Rightarrow>
   'tr transaction result" where
  "deploy_transaction env credentials fs path fee fee_record =
     and_then (choose_fee_record env credentials fee fee_record []) (\<lambda>fee.
     deployment (ce_tx env) (with_files env fs) path (c_private_key credentials) fee)"

definition execute_transaction ::
  "('f, 'er, 'tr, 'out, 'v, 'r) client_env \<Rightarrow> credentials \<Rightarrow> files \<Rightarrow> string \<Rightarrow> string \<Rightarrow> 'v list \<Rightarrow>
   u64 option \<Rightarrow> 'v option \<Rightarrow> 'tr transaction result" where
  "execute_transaction env credentials fs prog function inputs fee fee_record =
     and_then (choose_fee_record env credentials fee fee_record inputs) (\<lambda>fee.
     and_then (find_program env fs prog) (\<lambda>found.
     case found of
       None \<Rightarrow> Err (ProgramNotFound prog)
     | Some found \<Rightarrow>
         tx_execution (ce_vm env) (ce_tx env) (ce_tv env) found function inputs
           (c_private_key credentials) fee))"

definition on_files :: "(files, 'a) action \<Rightarrow> (client_state, 'a) action" where
  "on_files m st = (case m (cs_files st) of (r, fs) \<Rightarrow> (r, st\<lparr>cs_files := fs\<rparr>))"

definition with_extension :: "string \<Rightarrow> string \<Rightarrow> string" where
  "with_extension path extension =
     (let name = rev (takeWhile (\<lambda>c. c \<noteq> CHR ''/'') (rev path));
          stem = rev (tl (dropWhile (\<lambda>c. c \<noteq> CHR ''.'') (rev name)))
      in if stem = [] then path @ ''.'' @ extension
         else take (length path - length name) path @ stem @ ''.'' @ extension)"

fun run_program ::
  "('f, 'er, 'tr, 'out, 'v, 'r) client_env \<Rightarrow> credentials \<Rightarrow> 'v program_command \<Rightarrow>
   (client_state, ('f, 'er, 'tr, 'r) client_output) action" where
  "run_program env credentials (Deploy path fee fee_record) =
     act_then (pure_action (\<lambda>st. deploy_transaction env credentials (cs_files st) path fee fee_record))
       (send_transaction env)"
| "run_program env credentials (Execute prog function inputs fee fee_record dry_run) =
     act_then (pure_action (\<lambda>st. execute_transaction env credentials (cs_files st) prog function inputs fee fee_record))
       (\<lambda>tx. if \<not> dry_run then send_transaction env tx
          else pure_action (\<lambda>_. let records = decrypt_records env tx credentials
            in Ok (if records = [] then TransactionOutput tx else DecryptedOutput tx records)))"
| "run_program env credentials (Build path) =
     act_then (pure_action (\<lambda>st. read_to_string (cs_files st) path)) (\<lambda>program_source.
     act_then (pure_action (\<lambda>_. program_file_build (ce_programs env) program_source)) (\<lambda>built.
     act_then (on_files (program_file_save (ce_programs env) (ce_io env) built (with_extension path ''avm''))) (\<lambda>_.
     pure_action (\<lambda>_. Ok (PathOutput (with_extension path ''avm''))))))"

fun run_account ::
  "('f, 'er, 'tr, 'out, 'v, 'r) client_env \<Rightarrow> credentials \<Rightarrow> account_command \<Rightarrow>
   ('f, 'er, 'tr, 'r) client_output result" where
  "run_account env credentials NewAccount = Err (External ''not reachable'')"
| "run_account env credentials AccountBalance =
     map_ok (\<lambda>records. BalanceOutput (account_balance env records)) (get_records env credentials)"
| "run_account env credentials AccountRecords = map_ok RecordsOutput (get_records env credentials)"

definition run_get ::
  "('f, 'er, 'tr, 'out, 'v, 'r) client_env \<Rightarrow> credentials \<Rightarrow> string \<Rightarrow> bool \<Rightarrow>
   ('f, 'er, 'tr, 'r) client_output result" where
  "run_get env credentials transaction_id decrypt =
     and_then (get_transaction env transaction_id) (\<lambda>tx_bytes.
     and_then (external (ce_decode_tx env tx_bytes)) (\<lambda>tx.
     Ok (if \<not> decrypt then TransactionOutput tx else DecryptedOutput tx (decrypt_records env tx credentials))))"

fun dispatch ::
  "('f, 'er, 'tr, 'out, 'v, 'r) client_env \<Rightarrow> credentials \<Rightarrow> 'v client_command \<Rightarrow>
   (client_state, ('f, 'er, 'tr, 'r) client_output) action" where
  "dispatch env credentials (AccountCommand command) = pure_action (\<lambda>_. run_account env credentials command)"
| "dispatch env credentials (CreditsCommand command) = run_credits env credentials command"
| "dispatch env credentials (ProgramCommand command) = run_program env credentials command"
| "dispatch env credentials (GetTransaction transaction_id decrypt) =
     pure_action (\<lambda>_. run_get env credentials transaction_id decrypt)"

fun no_credentials :: "credentials result \<Rightarrow> credentials result" where
  "no_credentials (Err e) = Err CredentialsMissing"
| "no_credentials r = r"

definition run ::
  "('f, 'er, 'tr, 'out, 'v, 'r) client_env \<Rightarrow> 'v client_command \<Rightarrow>
   (client_state, ('f, 'er, 'tr, 'r) client_output) action" where
  "run env command =
     (if command = AccountCommand NewAccount then
        act_then (pure_action (\<lambda>_. credentials_new env)) (\<lambda>credentials.
        act_then (on_files (credentials_save env credentials)) (\<lambda>path.
        pure_action (\<lambda>_. Ok (AccountOutput path credentials))))
      else
        act_then (pure_action (\<lambda>st. no_credentials (credentials_load env (cs_files st))))
          (\<lambda>credentials. dispatch env credentials command))"

text \<open>\<open>main\<close>: the exit code; a panic of the main thread exits with 101.\<close>

fun exit_code :: "'a result \<Rightarrow> nat" where
  "exit_code (Ok _) = 0"
| "exit_code (Err _) = 1"
| "exit_code (Panic _) = 101"


section \<open>What a command sends\<close>

text \<open>The commands that broadcast a transaction.\<close>

fun sends :: "'v client_command \<Rightarrow> bool" where
  "sends (CreditsCommand c) = True"
| "sends (ProgramCommand (Deploy path fee fee_record)) = True"
| "sends (ProgramCommand (Execute prog function inputs fee fee_record dry_run)) = (\<not> dry_run)"
| "sends _ = False"

text \<open>The effect of a call: nothing, or the broadcast of one transaction under its own hash.\<close>

definition sends_verified ::
  "('f, 'er, 'tr, 'out, 'v, 'r) client_env \<Rightarrow> client_state \<Rightarrow> client_state \<Rightarrow> bool" where
  "sends_verified env st st' \<longleftrightarrow> st' = st \<or> (\<exists>tx bytes. ce_encode_tx env tx = Some bytes
     \<and> verify (ce_tx env) tx = Ok () \<and> st' = st\<lparr>cs_sent := cs_sent st @ [bytes]\<rparr>)"

lemma built_then_sent:
  assumes "\<And>tx. f st = Ok tx \<Longrightarrow> verify (ce_tx env) tx = Ok ()"
  shows "sends_verified env st (snd (act_then (pure_action f) (send_transaction env) st))"
proof (cases "f st")
  case (Ok tx)
  have "sends_verified env st (snd (send_transaction env tx st))"
  proof (cases "ce_encode_tx env tx")
    case (Some bytes)
    then have "snd (send_transaction env tx st) = snd (node_broadcast env bytes st)"
      by (cases "fst (node_broadcast env bytes st)"; cases "node_broadcast env bytes st")
        (simp_all add: send_transaction_def act_then_def)
    then show ?thesis using Some assms [OF Ok] by (auto simp: sends_verified_def node_broadcast_def)
  qed (simp add: sends_verified_def send_transaction_def)
  with Ok show ?thesis by simp
qed (simp_all add: sends_verified_def)

lemma credits_command_sends:
  "sends_verified env st (snd (run_credits_command env c function inputs fee fee_record st))"
  unfolding run_credits_command_def
  by (rule built_then_sent) (auto simp: result_elims intro: credits_execution_verifies)

lemma pure_then_sends:
  assumes "\<And>a. sends_verified env st (snd (k a st))"
  shows "sends_verified env st (snd (act_then (pure_action (\<lambda>_. r)) k st))"
  using assms by (cases r) (simp_all add: sends_verified_def)

lemma run_credits_sends: "sends_verified env st (snd (run_credits env c command st))"
  by (cases command) (auto intro: pure_then_sends credits_command_sends simp del: act_then_pure)

lemma deploy_sends: "sends_verified env st (snd (run_program env c (Deploy path fee fee_record) st))"
  unfolding run_program.simps
  by (rule built_then_sent) (auto simp: deploy_transaction_def result_elims intro: deployment_verifies)

lemma execute_sends:
  "sends_verified env st (snd (run_program env c (Execute prog function inputs fee fee_record False) st))"
proof -
  have "sends_verified env st (snd (act_then (pure_action (\<lambda>st. execute_transaction env c (cs_files st) prog function
      inputs fee fee_record)) (send_transaction env) st))"
    by (rule built_then_sent)
      (auto simp: execute_transaction_def result_elims intro: tx_execution_verifies split: option.splits)
  then show ?thesis by (simp del: act_then_pure)
qed


text \<open>The other commands hand nothing to the node.\<close>

definition same_sent :: "client_state \<Rightarrow> client_state \<Rightarrow> bool" where
  "same_sent st st' \<longleftrightarrow> cs_sent st' = cs_sent st"

interpretation sent_frame: action_relation same_sent
  by unfold_locales (auto simp: same_sent_def)

lemma keeps_on_files: "keeps same_sent (on_files m)"
  by (simp add: keeps_def same_sent_def on_files_def case_prod_unfold)

lemma quiet_dispatch:
  assumes "\<not> sends command"
  shows "keeps same_sent (dispatch env c command)"
  using assms
proof (cases command rule: sends.cases)
  case (3 prog func inputs fee fee_record dry_run)
  have "keeps same_sent (if \<not> dry_run then send_transaction env tx else pure_action (f tx))" for tx f
    using assms 3 by (simp add: sent_frame.keeps_pure)
  then show ?thesis
    unfolding 3 dispatch.simps run_program.simps by (intro sent_frame.keeps_then sent_frame.keeps_pure)
qed (auto intro!: sent_frame.keeps_then sent_frame.keeps_pure keeps_on_files)

lemma quiet_run:
  assumes "\<not> sends command"
  shows "keeps same_sent (run env command)"
proof (cases "command = AccountCommand NewAccount")
  case True
  have "keeps same_sent (act_then (pure_action (\<lambda>_. credentials_new env)) (\<lambda>credentials.
        act_then (on_files (credentials_save env credentials)) (\<lambda>path.
        pure_action (\<lambda>_. Ok (AccountOutput path credentials)))))"
    by (intro sent_frame.keeps_then sent_frame.keeps_pure keeps_on_files)
  then show ?thesis by (simp add: keeps_def run_def True)
next
  case False
  have "keeps same_sent (act_then (pure_action (\<lambda>st. no_credentials (credentials_load env (cs_files st))))
          (\<lambda>credentials. dispatch env credentials command))"
    by (intro sent_frame.keeps_then sent_frame.keeps_pure quiet_dispatch assms)
  with False show ?thesis by (simp add: keeps_def run_def)
qed


section \<open>A client and its node\<close>

text \<open>The node answers the queries of the client from a state of the application.\<close>

definition connected ::
  "('f, 'er, 'tr, 'out, 'v, 'r) client_env \<Rightarrow> ('db, 'f, 'er, 'tr, 'out) env \<Rightarrow> 'db app \<Rightarrow> bool" where
  "connected env node s \<longleftrightarrow> ce_url_valid env
     \<and> (\<forall>q. ce_query env q = (case fst (query node (Some q) s) of Ok r \<Rightarrow> Inr r | _ \<Rightarrow> Inl ''node stopped''))"

text \<open>The spent serial numbers are stored as printed fields.\<close>

definition printed_fields ::
  "('f, 'er, 'tr, 'out) vm_backend \<Rightarrow> (string \<Rightarrow> string option) \<Rightarrow> bool" where
  "printed_fields vm m \<longleftrightarrow> (\<forall>k \<in> dom m. \<exists>f. k = vm_field_to_string vm f)"

lemma scan_spent_all:
  assumes "kv_laws ops contents" and "rs_alive s" and "printed_fields vm (contents (rs_db_spent s))"
    and "\<And>f. vm_field_from_string vm (vm_field_to_string vm f) = Some f"
    and "list_all (\<lambda>item. \<not> isl item) (kv_iterator ops (rs_db_spent s) None)"
  shows "\<exists>ns. scan_spent ops vm s = (Ok ns, s)
    \<and> set ns = {f. vm_field_to_string vm f \<in> dom (contents (rs_db_spent s))}"
proof -
  let ?items = "ok_items (kv_iterator ops (rs_db_spent s) None)"
  have items: "(k, v) \<in> set ?items \<longleftrightarrow> contents (rs_db_spent s) k = Some v" for k v
    unfolding set_ok_items mem_Collect_eq
    by (rule iffI) (erule kv_iterator_sound [OF assms(1)], erule kv_iterator_complete [OF assms(1) _ assms(5)])
  have keys: "k \<in> fst ` set ?items \<longleftrightarrow> k \<in> dom (contents (rs_db_spent s))" for k
  proof -
    have "k \<in> fst ` set ?items \<longleftrightarrow> (\<exists>v. (k, v) \<in> set ?items)" by force
    then show ?thesis unfolding items dom_def by simp
  qed
  have parses: "vm_field_from_string vm (fst e) \<noteq> None" if "e \<in> set ?items" for e
    using that keys [of "fst e"] assms(3,4) unfolding printed_fields_def by (metis imageI option.distinct(1))
  have "scan_spent_keys ops (vm_field_from_string vm) s = Ok (map fst ?items)"
    unfolding scan_spent_keys_def
    by (rule try_map_Ok) (use parses in \<open>force split: prod.splits\<close>)
  then have "scan_spent ops vm s = (Ok (map (the \<circ> vm_field_from_string vm) (map fst ?items)), s)"
    using assms(2) by (simp add: scan_spent_def serve_def)
  moreover have "set (map (the \<circ> vm_field_from_string vm) (map fst ?items))
      = {f. vm_field_to_string vm f \<in> dom (contents (rs_db_spent s))}"
  proof -
    have "f \<in> (the \<circ> vm_field_from_string vm) ` dom (contents (rs_db_spent s)) \<longleftrightarrow>
        vm_field_to_string vm f \<in> dom (contents (rs_db_spent s))" for f
      using assms(3,4) unfolding printed_fields_def image_iff comp_def by (metis option.sel)
    moreover have "fst ` set ?items = dom (contents (rs_db_spent s))" using keys by (rule set_eqI)
    ultimately show ?thesis unfolding set_map by (intro set_eqI) simp
  qed
  ultimately show ?thesis by blast
qed

lemma own_unspent_Some_iff:
  "own_unspent env c ns e = Some (cm, er, r) \<longleftrightarrow> e = (cm, er) \<and> ce_decrypt env er (c_view_key c) = Inr r
     \<and> (\<exists>n. ce_serial_number env (c_private_key c) cm = Ok n \<and> n \<notin> set ns)"
  by (cases e) (auto simp: own_unspent_def split: sum.splits result.splits)

lemma set_own_unspent:
  "set (somes (map (own_unspent env c ns) rs)) = {(cm, er, r). (cm, er) \<in> set rs
     \<and> ce_decrypt env er (c_view_key c) = Inr r
     \<and> (\<exists>n. ce_serial_number env (c_private_key c) cm = Ok n \<and> n \<notin> set ns)}"
proof -
  have "(cm, er, r) \<in> set (somes (map (own_unspent env c ns) rs)) \<longleftrightarrow>
      (\<exists>e \<in> set rs. own_unspent env c ns e = Some (cm, er, r))" for cm er r
    unfolding set_somes set_map image_iff mem_Collect_eq by (simp only: eq_commute [of "Some _"])
  then show ?thesis by (auto simp: own_unspent_Some_iff)
qed

lemma unat_account_balance:
  "unat (account_balance env records) = (\<Sum>(_, _, r)\<leftarrow>records. unat (ce_gates env r)) mod 2 ^ 64"
proof -
  have "fold (\<lambda>(_, _, r) acc. acc + ce_gates env r) records a
      = a + sum_list (map (\<lambda>(_, _, r). ce_gates env r) records)" for a
    by (induction records arbitrary: a) (auto simp: add.assoc)
  then have "account_balance env records = sum_list (map (\<lambda>(_, _, r). ce_gates env r) records)"
    by (simp add: account_balance_def)
  then show ?thesis
    using unat_sum_list_mod [of "\<lambda>(_, _, r). ce_gates env r" records] by (simp add: case_prod_unfold)
qed


section \<open>Properties\<close>

text \<open>C17. What reaches the node: a command broadcasts at most one transaction, its id is its hash,
  so the node's check of the id passes, and its files stay as they are; account commands,
  builds, lookups and dry runs broadcast nothing.\<close>
theorem client_broadcasts_verified:
  "if sends command then sends_verified env st (snd (run env command st))
   else cs_sent (snd (run env command st)) = cs_sent st"
proof (cases "sends command")
  case True
  then have "command \<noteq> AccountCommand NewAccount" by auto
  then have "snd (run env command st) = (case no_credentials (credentials_load env (cs_files st)) of
      Ok c \<Rightarrow> snd (dispatch env c command st) | _ \<Rightarrow> st)"
    by (simp add: run_def split: result.splits)
  moreover have "sends_verified env st (snd (dispatch env c command st))" for c
    using True run_credits_sends deploy_sends execute_sends by (cases command rule: sends.cases) (auto simp del: run_program.simps)
  ultimately show ?thesis using True by (simp add: sends_verified_def split: result.splits)
next
  case False
  from quiet_run [OF this, of env] False show ?thesis by (simp add: keeps_def same_sent_def)
qed

text \<open>C15. The records a client sees: connected to a node it lists exactly the committed records
  that decrypt with its view key and whose serial number is not committed as spent, and its
  balance is the sum of their gates, reduced modulo \<open>2 ^ 64\<close>.\<close>
theorem client_sees_unspent_records:
  assumes "connected env node s" and "kv_laws (e_kv node) contents" and "rs_alive (app_records s)"
    and "\<And>f. vm_field_from_string (e_vm node) (vm_field_to_string (e_vm node) f) = Some f"
    and "printed (e_vm node) (contents (rs_db_records (app_records s)))"
    and "printed_fields (e_vm node) (contents (rs_db_spent (app_records s)))"
    and "list_all (\<lambda>item. \<not> isl item) (kv_iterator (e_kv node) (rs_db_records (app_records s)) None)"
    and "list_all (\<lambda>item. \<not> isl item) (kv_iterator (e_kv node) (rs_db_spent (app_records s)) None)"
    and "credentials_load env (cs_files st) = Ok c"
  shows "\<exists>records. run env (AccountCommand AccountRecords) st = (Ok (RecordsOutput records), st)
    \<and> set records = {(cm, er, r). (cm, er) \<in> parsed (e_vm node) (contents (rs_db_records (app_records s)))
        \<and> ce_decrypt env er (c_view_key c) = Inr r
        \<and> (\<exists>n. ce_serial_number env (c_private_key c) cm = Ok n
             \<and> vm_field_to_string (e_vm node) n \<notin> dom (contents (rs_db_spent (app_records s))))}
    \<and> (\<exists>b. run env (AccountCommand AccountBalance) st = (Ok (BalanceOutput b), st)
        \<and> unat b = (\<Sum>(_, _, r)\<leftarrow>records. unat (ce_gates env r)) mod 2 ^ 64)"
proof -
  from scan_all [OF assms(2,3,5,7)] obtain rs last where
    scan: "scan (e_kv node) (e_vm node) None None (app_records s) = (Ok (rs, last), app_records s)"
    and rs: "set rs = parsed (e_vm node) (contents (rs_db_records (app_records s)))" by blast
  from scan_spent_all [OF assms(2,3,6,4,8)] obtain ns where
    spent: "scan_spent (e_kv node) (e_vm node) (app_records s) = (Ok ns, app_records s)"
    and ns: "set ns = {f. vm_field_to_string (e_vm node) f \<in> dom (contents (rs_db_spent (app_records s)))}" by blast
  have "node_query env GetRecords = Ok (RecordsResponse rs last)"
    "node_query env GetSpentSerialNumbers = Ok (SpentResponse ns)"
    using assms(1) scan spent by (simp_all add: node_query_def connected_def answer_def on_records_def)
  then have get: "get_records env c = Ok (somes (map (own_unspent env c ns) rs))"
    by (simp add: get_records_def)
  have recs: "set (somes (map (own_unspent env c ns) rs)) =
      {(cm, er, r). (cm, er) \<in> parsed (e_vm node) (contents (rs_db_records (app_records s)))
        \<and> ce_decrypt env er (c_view_key c) = Inr r
        \<and> (\<exists>n. ce_serial_number env (c_private_key c) cm = Ok n
             \<and> vm_field_to_string (e_vm node) n \<notin> dom (contents (rs_db_spent (app_records s))))}"
    unfolding set_own_unspent rs ns mem_Collect_eq ..
  have out: "run env (AccountCommand AccountRecords) st = (Ok (RecordsOutput (somes (map (own_unspent env c ns) rs))), st)"
    "run env (AccountCommand AccountBalance) st
      = (Ok (BalanceOutput (account_balance env (somes (map (own_unspent env c ns) rs)))), st)"
    using get assms(9) by (simp_all add: run_def)
  show ?thesis
    by (rule exI [of _ "somes (map (own_unspent env c ns) rs)"])
      (intro conjI out(1) recs exI [of _ "account_balance env (somes (map (own_unspent env c ns) rs))"] out(2)
        unat_account_balance)
qed

text \<open>A new account is kept: the credentials that \<open>account new\<close> prints are the ones every later
  command loads, no other file changes and nothing is sent.\<close>
theorem new_account_is_kept:
  assumes "writes_kept (ce_io env)"
    and "\<And>c json. ce_to_json env c = Inr json \<Longrightarrow> ce_from_json env json = Inr c"
    and "run env (AccountCommand NewAccount) st = (Ok (AccountOutput path c), st')"
  shows "path = credentials_path (ce_home env) \<and> credentials_load env (cs_files st') = Ok c
    \<and> (\<forall>other. other \<noteq> path \<longrightarrow> cs_files st' other = cs_files st other) \<and> cs_sent st' = cs_sent st"
proof -
  from assms(3) have save: "on_files (credentials_save env c) st = (Ok path, st')"
    by (auto simp: run_def act_then_Ok_iff simp del: act_then_pure)
  then obtain json where json: "ce_to_json env c = Inr json" and path: "path = credentials_path (ce_home env)"
    and w: "write_file (ce_io env) path json (cs_files st) = (Ok (), cs_files st')" and sent: "cs_sent st' = cs_sent st"
    by (auto simp: on_files_def credentials_save_def Let_def act_then_Ok_iff split: prod.splits simp del: act_then_pure)
      (cases "ce_to_json env c", auto)
  from w have "cs_files st' = (cs_files st)(path \<mapsto> json)" using write_file_Ok_iff [OF assms(1)] by blast
  then show ?thesis using path sent assms(2) [OF json] by (simp add: credentials_load_def read_written)
qed


section \<open>Witnesses\<close>

definition sample_state :: client_state where
  "sample_state = \<lparr>cs_files = (\<lambda>path. if path = ''home/account.json'' then Some ''account'' else None), cs_sent = []\<rparr>"

lemma sample_load: "credentials_load (sample_client answers) (cs_files sample_state) = Ok sample_credentials"
  by (simp add: credentials_load_def read_to_string_def sample_state_def sample_client_def credentials_path_def
      path_join_def)

text \<open>The answers of a node with two committed records, one of them spent.\<close>

definition sample_node ::
  "((string \<times> string) list, string, string, lambda_transition, variable_type) env" where
  "sample_node =
     \<lparr>e_vm = sample_vm, e_crypto = sample_crypto, e_tx = sample_tx_crate, e_kv = memory_kv,
      e_bincode = \<lparr>bc_serialize = (\<lambda>p. None), bc_deserialize = (\<lambda>text. None)\<rparr>, e_io = sample_io,
      e_order = id, e_height_writable = True\<rparr>"

definition sample_node_state :: "(string \<times> string) list app" where
  "sample_node_state =
     \<lparr>app_records = new_record_store [(''c1'', ''abc''), (''c2'', ''abcde'')] [(''sc1'', ''1'')],
      app_programs = \<lparr>ps_alive = True, ps_db = []\<rparr>, app_validators = sample_set, app_poisoned = False,
      app_validators_file = None, app_height_file = Height 6\<rparr>"

lemma client_printing: "vm_field_to_string sample_vm = id" "vm_field_from_string sample_vm = Some"
  "vm_record_to_string sample_vm = id" "vm_record_from_string sample_vm = Some"
  by (simp_all add: lambda_backend_def sample_crate_def)

abbreviation sample_answers :: "abci_query \<Rightarrow> string + (string, string) query_response" where
  "sample_answers \<equiv> (\<lambda>q. case fst (query sample_node (Some q) sample_node_state) of Ok r \<Rightarrow> Inr r | _ \<Rightarrow> Inl ''node stopped'')"

lemma sample_connected: "connected (sample_client sample_answers) sample_node sample_node_state"
  by (simp add: connected_def sample_client_def)

lemma sample_client_answers:
  "ce_decrypt (sample_client answers) er v = Inr (sample_record\<lparr>rec_gates := of_nat (length er), rec_nonce := er\<rparr>)"
  "ce_serial_number (sample_client answers) k cm = Ok (''s'' @ cm)"
  by (simp_all add: sample_client_def)

theorem client_sees_unspent_records_witness:
  "\<exists>records b. run (sample_client sample_answers) (AccountCommand AccountRecords) sample_state
      = (Ok (RecordsOutput records), sample_state)
    \<and> fst ` set records = {''c2''}
    \<and> run (sample_client sample_answers) (AccountCommand AccountBalance) sample_state
      = (Ok (BalanceOutput b), sample_state)"
proof -
  have node: "e_vm sample_node = sample_vm" "e_kv sample_node = memory_kv" by (simp_all add: sample_node_def)
  have dbs: "rs_db_records (app_records sample_node_state) = [(''c1'', ''abc''), (''c2'', ''abcde'')]"
    "rs_db_spent (app_records sample_node_state) = [(''sc1'', ''1'')]" "rs_alive (app_records sample_node_state)"
    by (simp_all add: sample_node_state_def new_record_store_def)
  have "printed sample_vm m" "printed_fields sample_vm n" for m n
    by (simp_all add: printed_def printed_fields_def client_printing)
  then obtain records b where
    out: "run (sample_client sample_answers) (AccountCommand AccountRecords) sample_state = (Ok (RecordsOutput records), sample_state)"
    and set: "set records = {(cm, er, r). (cm, er) \<in> parsed sample_vm (map_of [(''c1'', ''abc''), (''c2'', ''abcde'')])
        \<and> ce_decrypt (sample_client sample_answers) er (c_view_key sample_credentials) = Inr r
        \<and> (\<exists>n. ce_serial_number (sample_client sample_answers) (c_private_key sample_credentials) cm = Ok n
             \<and> vm_field_to_string sample_vm n \<notin> dom (map_of [(''sc1'', ''1'')]))}"
    and balance: "run (sample_client sample_answers) (AccountCommand AccountBalance) sample_state = (Ok (BalanceOutput b), sample_state)"
    using client_sees_unspent_records [OF sample_connected _ dbs(3), of map_of sample_state sample_credentials]
      memory_kv_laws
    unfolding node dbs(1,2) by (simp add: sample_load client_printing) blast
  have "parsed sample_vm Map.empty = {}" by (simp add: parsed_def)
  then have parsed: "parsed sample_vm (map_of [(''c1'', ''abc''), (''c2'', ''abcde'')]) = {(''c1'', ''abc''), (''c2'', ''abcde'')}"
    by (simp add: parsed_insert client_printing insert_commute)
  define g where "g er = sample_record\<lparr>rec_gates := of_nat (length er), rec_nonce := er\<rparr>" for er
  have env: "ce_decrypt (sample_client sample_answers) er v = Inr (g er)"
    "ce_serial_number (sample_client sample_answers) k cm = Ok (''s'' @ cm)" for er v k cm
    unfolding sample_client_answers g_def by (rule refl)+
  have "x \<in> set records \<longleftrightarrow> x = (''c2'', ''abcde'', g ''abcde'')" for x
  proof -
    obtain cm er r where x: "x = (cm, er, r)" by (metis prod.collapse)
    show ?thesis unfolding x set parsed env mem_Collect_eq prod.case client_printing by force
  qed
  then have "set records = {(''c2'', ''abcde'', g ''abcde'')}" by blast
  then have "fst ` set records = {''c2''}" by simp
  then show ?thesis using out balance by blast
qed

theorem new_account_is_kept_witness:
  "\<exists>st. run (sample_client (\<lambda>q. Inl ''down'')) (AccountCommand NewAccount) sample_state
      = (Ok (AccountOutput ''home/account.json'' sample_credentials), st)
    \<and> credentials_load (sample_client (\<lambda>q. Inl ''down'')) (cs_files st) = Ok sample_credentials"
proof -
  let ?env = "sample_client (\<lambda>q. Inl ''down'')"
  obtain st where st: "run ?env (AccountCommand NewAccount) sample_state
      = (Ok (AccountOutput ''home/account.json'' sample_credentials), st)"
    by (simp add: run_def credentials_new_def act_then_def on_files_def credentials_save_def write_file_def
        sample_client_def sample_credentials_def sample_files_io_def credentials_path_def path_join_def Let_def)
  have "writes_kept (ce_io ?env)" using sample_files_io_laws by (simp add: sample_client_def)
  moreover have "ce_from_json ?env json = Inr c" if "ce_to_json ?env c = Inr json" for c json
    using that by (simp add: sample_client_def split: if_splits)
  ultimately have "credentials_load ?env (cs_files st) = Ok sample_credentials"
    using new_account_is_kept [OF _ _ st] by blast
  with st show ?thesis by blast
qed

end
