(* ===== verification/Vm_Snark.thy ===== *)
theory Vm_Snark
  imports Transaction
begin

text \<open>
  \<open>src/lib/vm/snarkvm\<close>: the other VM backend, selected by a feature at compile time. Its
  transitions are bound to their proof: the fee, the inputs and the outputs are part of what
  the verifier checks. The types of the snarkVM crate and its cryptography are parameters.
\<close>

section \<open>What the module uses of the crate\<close>

datatype snark_group = SnarkGroup string
datatype snark_scalar = SnarkScalar string
datatype snark_record = SnarkRecord string
datatype snark_value = SnarkValue string
datatype register_types = RegisterTypes string

text \<open>The literals that the module matches on; the others share a constructor.\<close>

datatype snark_literal =
    LitU32 "32 word"
  | LitU64 u64
  | LitU128 u128
  | LitAddress aleo_address
  | LitOther string

text \<open>\<open>Stack\<close>: the program, the register types of its functions and the keys known so far.\<close>

record stack =
  st_program :: program
  st_register_types :: "(string \<times> register_types) list"
  st_proving_keys :: "(string \<times> proving_key) list"
  st_verifying_keys :: "(string \<times> verifying_key) list"

record ('f, 'er, 'tr, 'inp, 'out) snark_crate =
  sn_program_id :: "'tr \<Rightarrow> string"
  sn_function_name :: "'tr \<Rightarrow> string"
  sn_fee :: "'tr \<Rightarrow> i64"
  sn_id :: "'tr \<Rightarrow> 'f"
  sn_to_root :: "'tr \<Rightarrow> string + 'f"
  sn_inputs :: "'tr \<Rightarrow> 'inp list"
  sn_outputs :: "'tr \<Rightarrow> 'out list"
  sn_tcm :: "'tr \<Rightarrow> 'f"
  sn_tpk_coordinates :: "'tr \<Rightarrow> 'f \<times> 'f"
  sn_proof :: "'tr \<Rightarrow> string"
  sn_serial_numbers :: "'tr \<Rightarrow> 'f list"
  sn_output_records :: "'tr \<Rightarrow> ('f \<times> 'er) list"
  sn_max_inputs :: nat
  sn_one :: 'f
  sn_input_verify :: "'inp \<Rightarrow> 'f \<Rightarrow> nat \<Rightarrow> bool"
  sn_output_verify :: "'out \<Rightarrow> 'f \<Rightarrow> nat \<Rightarrow> bool"
  sn_input_verifier_inputs :: "'inp \<Rightarrow> 'f list"
  sn_output_verifier_inputs :: "'out \<Rightarrow> 'f list"
  sn_fee_to_field :: "i64 \<Rightarrow> string + 'f"
  sn_verify :: "verifying_key \<Rightarrow> string \<Rightarrow> 'f list \<Rightarrow> string \<Rightarrow> bool"
  sn_public_literal :: "'out \<Rightarrow> snark_literal option"
  sn_parse_program :: "string \<Rightarrow> string + program"
  sn_program_from_str :: "string \<Rightarrow> string + program"
  sn_is_coinbase :: "string \<Rightarrow> string \<Rightarrow> bool"
  sn_load_srs :: "string + unit"
  sn_register_types :: "stack \<Rightarrow> string \<Rightarrow> string + register_types"
  sn_synthesize_key :: "stack \<Rightarrow> string \<Rightarrow> string + stack"
  sn_insert_proving_key :: "stack \<Rightarrow> string \<Rightarrow> proving_key \<Rightarrow> string + stack"
  sn_execute :: "stack \<Rightarrow> string \<Rightarrow> snark_value list \<Rightarrow> private_key \<Rightarrow> string + 'tr list"
  sn_serial_number_domain :: 'f
  sn_hash_to_group :: "'f list \<Rightarrow> string + snark_group"
  sn_sk_sig :: "private_key \<Rightarrow> snark_scalar"
  sn_group_mul :: "snark_group \<Rightarrow> snark_scalar \<Rightarrow> snark_group"
  sn_cofactor_x :: "snark_group \<Rightarrow> 'f"
  sn_hash_to_scalar :: "'f list \<Rightarrow> string + snark_scalar"
  sn_commit :: "'f \<times> 'f \<Rightarrow> snark_scalar \<Rightarrow> string + 'f"
  sn_seeded_scalar :: "u64 \<Rightarrow> snark_scalar"
  sn_g_multiply :: "snark_scalar \<Rightarrow> snark_group"
  sn_record_from_plaintext :: "aleo_address \<Rightarrow> u64 \<Rightarrow> snark_group \<Rightarrow> string + snark_record"
  sn_parse_identifier :: "string \<Rightarrow> string + string"
  sn_parse_program_id :: "string \<Rightarrow> string + string"
  sn_to_commitment :: "snark_record \<Rightarrow> string \<Rightarrow> string \<Rightarrow> string + 'f"
  sn_encrypt :: "snark_record \<Rightarrow> snark_scalar \<Rightarrow> string + 'er"
  sn_record_gates :: "snark_record \<Rightarrow> u64"
  sn_parse_address :: "string \<Rightarrow> string + aleo_address"
  sn_parse_value :: "string \<Rightarrow> string + snark_value"
  sn_field_to_string :: "'f \<Rightarrow> string"
  sn_field_from_string :: "string \<Rightarrow> 'f option"
  sn_encrypted_to_string :: "'er \<Rightarrow> string"
  sn_encrypted_from_string :: "string \<Rightarrow> 'er option"


section \<open>Verification\<close>

definition snark_verify_deployment :: "program \<Rightarrow> vk_map \<Rightarrow> unit result" where
  "snark_verify_deployment prog verifying_keys =
     and_then (ensure (verifying_keys \<noteq> []) NoVerifyingKeys) (\<lambda>_.
     if length verifying_keys \<noteq> length (prog_functions prog) then Err KeyCountMismatch
     else check_function_names (prog_functions prog) (map fst verifying_keys))"

text \<open>The public inputs of the proof: the commitments, the ids of inputs and outputs, the fee.\<close>

definition verifier_inputs ::
  "('f, 'er, 'tr, 'inp, 'out) snark_crate \<Rightarrow> 'tr \<Rightarrow> 'f list result" where
  "verifier_inputs c transition =
     (case sn_tpk_coordinates c transition of (tpk_x, tpk_y) \<Rightarrow>
       map_ok (\<lambda>fee. [sn_one c, tpk_x, tpk_y, sn_tcm c transition]
           @ concat (map (sn_input_verifier_inputs c) (sn_inputs c transition))
           @ concat (map (sn_output_verifier_inputs c) (sn_outputs c transition)) @ [fee])
         (external (sn_fee_to_field c (sn_fee c transition))))"

definition snark_verify_execution ::
  "('f, 'er, 'tr, 'inp, 'out) snark_crate \<Rightarrow> 'tr \<Rightarrow> vk_map \<Rightarrow> unit result" where
  "snark_verify_execution c transition verifying_keys =
     and_then (ensure (0 \<le> sint (sn_fee c transition)) NegativeFee) (\<lambda>_.
     and_then (external (sn_to_root c transition)) (\<lambda>root.
     and_then (ensure (sn_id c transition = root) WrongTransitionId) (\<lambda>_.
     and_then (ensure (length (sn_inputs c transition) \<le> sn_max_inputs c) TooManyInputs) (\<lambda>_.
     and_then (ensure (length (sn_outputs c transition) \<le> sn_max_inputs c) TooManyOutputs) (\<lambda>_.
     if \<exists>(index, input) \<in> set (enumerate 0 (sn_inputs c transition)).
          \<not> sn_input_verify c input (sn_tcm c transition) index then Err BadInput
     else if \<exists>(index, output) \<in> set (enumerate 0 (sn_outputs c transition)).
          \<not> sn_output_verify c output (sn_tcm c transition) (length (sn_inputs c transition) + index)
       then Err BadOutput
     else
       and_then (verifier_inputs c transition) (\<lambda>inputs.
       and_then (ok_or MissingVerifyingKey (map_of verifying_keys (sn_function_name c transition))) (\<lambda>verifying_key.
       ensure (sn_verify c verifying_key (sn_function_name c transition) inputs (sn_proof c transition))
         InvalidProof)))))))"


section \<open>Stacks, keys and executions\<close>

text \<open>\<open>stack.rs\<close>: the functions of the program are added one by one.\<close>

fun add_functions ::
  "('f, 'er, 'tr, 'inp, 'out) snark_crate \<Rightarrow> (string \<times> string) list \<Rightarrow> stack \<Rightarrow> stack result" where
  "add_functions c [] stack = Ok stack"
| "add_functions c ((_, name) # functions) stack =
     and_then (ensure (map_of (st_register_types stack) name = None) (FunctionExists name)) (\<lambda>_.
     and_then (external (sn_register_types c stack name)) (\<lambda>types.
     add_functions c functions (stack\<lparr>st_register_types := st_register_types stack @ [(name, types)]\<rparr>)))"

definition new_init :: "('f, 'er, 'tr, 'inp, 'out) snark_crate \<Rightarrow> program \<Rightarrow> stack result" where
  "new_init c prog =
     and_then (ensure (prog_functions prog \<noteq> []) NoFunctions) (\<lambda>_.
     and_then (external (sn_load_srs c)) (\<lambda>_.
     add_functions c (prog_functions prog)
       \<lparr>st_program = prog, st_register_types = [], st_proving_keys = [], st_verifying_keys = []\<rparr>))"

definition synthesize_function_keys ::
  "('f, 'er, 'tr, 'inp, 'out) snark_crate \<Rightarrow> program \<Rightarrow> string \<Rightarrow> (proving_key \<times> verifying_key) result" where
  "synthesize_function_keys c prog function_name =
     and_then (new_init c prog) (\<lambda>stack.
     and_then (external (sn_synthesize_key c stack function_name)) (\<lambda>stack.
     and_then (ok_or KeyNotSynthesized (map_of (st_proving_keys stack) function_name)) (\<lambda>proving_key.
     and_then (ok_or KeyNotSynthesized (map_of (st_verifying_keys stack) function_name)) (\<lambda>verifying_key.
     Ok (proving_key, verifying_key)))))"

definition build_program ::
  "('f, 'er, 'tr, 'inp, 'out) snark_crate \<Rightarrow> string \<Rightarrow>
   (program \<times> (string \<times> proving_key \<times> verifying_key) list) result" where
  "build_program c program_string =
     and_then (external (sn_parse_program c program_string)) (\<lambda>prog.
     map_ok (\<lambda>keys. (prog, keys))
       (try_map (\<lambda>function_name. map_ok (\<lambda>keys. (function_name, keys))
         (synthesize_function_keys c prog function_name)) (map fst (prog_functions prog))))"

definition generate_program ::
  "('f, 'er, 'tr, 'inp, 'out) snark_crate \<Rightarrow> string \<Rightarrow> program result" where
  "generate_program c program_string = external (sn_program_from_str c program_string)"

text \<open>\<open>sn_execute\<close> stands for the authorization and the execution of the circuit.\<close>

definition snark_execution ::
  "('f, 'er, 'tr, 'inp, 'out) snark_crate \<Rightarrow> program \<Rightarrow> string \<Rightarrow> snark_value list \<Rightarrow> private_key \<Rightarrow>
   proving_key option \<Rightarrow> 'tr list result" where
  "snark_execution c prog function_name inputs private_key proving_key =
     and_then (ensure (\<not> sn_is_coinbase c (prog_id prog) function_name) CoinbaseCall) (\<lambda>_.
     and_then (ensure (function_name \<in> fst ` set (prog_functions prog)) (NoSuchFunction function_name)) (\<lambda>_.
     and_then (new_init c prog) (\<lambda>stack.
     and_then (case proving_key of Some v \<Rightarrow> Ok v
       | None \<Rightarrow> map_ok fst (synthesize_function_keys c prog function_name)) (\<lambda>key.
     and_then (external (sn_insert_proving_key c stack function_name key)) (\<lambda>stack.
     external (sn_execute c stack function_name inputs private_key))))))"


section \<open>Records and values\<close>

definition snark_gates :: "('f, 'er, 'tr, 'inp, 'out) snark_crate \<Rightarrow> snark_record \<Rightarrow> u64" where
  "snark_gates c record = sn_record_gates c record"

definition snark_serial_number ::
  "('f, 'er, 'tr, 'inp, 'out) snark_crate \<Rightarrow> private_key \<Rightarrow> 'f \<Rightarrow> 'f result" where
  "snark_serial_number c private_key commitment =
     and_then (external (sn_hash_to_group c [sn_serial_number_domain c, commitment])) (\<lambda>h.
     let gamma = sn_group_mul c h (sn_sk_sig c private_key) in
     and_then (external (sn_hash_to_scalar c [sn_serial_number_domain c, sn_cofactor_x c gamma])) (\<lambda>sn_nonce.
     external (sn_commit c (sn_serial_number_domain c, commitment) sn_nonce)))"

lemma snark_serial_number_no_panic [simp]: "snark_serial_number c key commitment \<noteq> Panic p"
  by (simp add: snark_serial_number_def Let_def result_panics)

definition snark_mint_record ::
  "('f, 'er, 'tr, 'inp, 'out) snark_crate \<Rightarrow> string \<Rightarrow> string \<Rightarrow> aleo_address \<Rightarrow> u64 \<Rightarrow> u64 \<Rightarrow>
   ('f \<times> 'er) result" where
  "snark_mint_record c program_id record_name owner_address amount seed =
     (let randomizer = sn_seeded_scalar c seed; nonce = sn_g_multiply c randomizer in
      and_then (external (sn_record_from_plaintext c owner_address amount nonce)) (\<lambda>public_record.
      and_then (external (sn_parse_identifier c record_name)) (\<lambda>record_name.
      and_then (external (sn_parse_program_id c program_id)) (\<lambda>program_id.
      and_then (external (sn_to_commitment c public_record program_id record_name)) (\<lambda>commitment.
      map_ok (\<lambda>encrypted_record. (commitment, encrypted_record))
        (external (sn_encrypt c public_record randomizer)))))))"

text \<open>Only public literals are read; another literal hits \<open>todo!()\<close>. The type asked for is \<open>u64\<close>.\<close>

fun literal_u128 :: "snark_literal \<Rightarrow> u128 result" where
  "literal_u128 (LitU32 v) = Ok (ucast v)"
| "literal_u128 (LitU64 v) = Ok (ucast v)"
| "literal_u128 (LitU128 v) = Ok v"
| "literal_u128 _ = Panic ''not yet implemented''"

definition snark_int_from_output ::
  "('f, 'er, 'tr, 'inp, 'out) snark_crate \<Rightarrow> 'out \<Rightarrow> u64 result" where
  "snark_int_from_output c output =
     (case sn_public_literal c output of
        Some literal \<Rightarrow> and_then (literal_u128 literal) (\<lambda>value.
          expect_some ''issue casting literal to desired type'' (u64_try_from value))
      | None \<Rightarrow> Err UnsupportedOutput)"

definition snark_address_from_output ::
  "('f, 'er, 'tr, 'inp, 'out) snark_crate \<Rightarrow> 'out \<Rightarrow> aleo_address result" where
  "snark_address_from_output c output =
     (case sn_public_literal c output of Some (LitAddress value) \<Rightarrow> Ok value | _ \<Rightarrow> Err UnsupportedOutput)"

definition snark_u64_to_value ::
  "('f, 'er, 'tr, 'inp, 'out) snark_crate \<Rightarrow> u64 \<Rightarrow> snark_value result" where
  "snark_u64_to_value c amount =
     expect_ok ''couldn't parse amount'' (external (sn_parse_value c (decimal (unat amount) @ ''u64'')))"

definition snark_u128_to_value ::
  "('f, 'er, 'tr, 'inp, 'out) snark_crate \<Rightarrow> u128 \<Rightarrow> snark_value result" where
  "snark_u128_to_value c amount =
     expect_ok ''couldn't parse amount'' (external (sn_parse_value c (decimal (unat amount) @ ''u128'')))"


section \<open>The backend as an instance of the interface\<close>

definition snark_backend ::
  "('f, 'er, 'tr, 'inp, 'out) snark_crate \<Rightarrow> ('f, 'er, 'tr, 'out) vm_backend" where
  "snark_backend c =
     \<lparr>vm_program_id = sn_program_id c, vm_function_name = sn_function_name c, vm_fee = sn_fee c,
      vm_outputs = sn_outputs c, vm_serial_numbers = sn_serial_numbers c,
      vm_output_records = sn_output_records c, vm_verify_deployment = snark_verify_deployment,
      vm_verify_execution = snark_verify_execution c, vm_int_from_output = snark_int_from_output c,
      vm_address_from_output = snark_address_from_output c,
      vm_parse_address = (\<lambda>text. external (sn_parse_address c text)), vm_mint_record = snark_mint_record c,
      vm_field_to_string = sn_field_to_string c, vm_field_from_string = sn_field_from_string c,
      vm_record_to_string = sn_encrypted_to_string c, vm_record_from_string = sn_encrypted_from_string c\<rparr>"

lemma snark_deployment_Ok_iff:
  "snark_verify_deployment prog ks = Ok () \<longleftrightarrow>
     ks \<noteq> [] \<and> map fst ks = map fst (prog_functions prog) \<and> map fst ks = map snd (prog_functions prog)"
  by (auto simp: snark_verify_deployment_def result_elims check_function_names_Ok_iff dest: map_eq_imp_length_eq)

lemma external_no_panic [simp]: "external r \<noteq> Panic p"
  by (cases r) auto

lemma snark_deployment_no_panic: "snark_verify_deployment prog ks \<noteq> Panic p"
  using check_function_names_no_panic [of "prog_functions prog" "map fst ks" p]
  by (auto simp: snark_verify_deployment_def result_panics)

lemma verifier_inputs_no_panic [simp]: "verifier_inputs c t \<noteq> Panic p"
  by (simp add: verifier_inputs_def result_panics split: prod.splits)

lemma snark_execution_no_panic: "snark_verify_execution c t ks \<noteq> Panic p"
  by (simp add: snark_verify_execution_def result_panics)

lemma any_enumerate:
  "(\<exists>(index, x) \<in> set (enumerate n xs). \<not> p x index) \<longleftrightarrow> (\<exists>i < length xs. \<not> p (xs ! i) (n + i))"
proof -
  have "(\<exists>e \<in> set (enumerate n xs). q e) \<longleftrightarrow> (\<exists>i < length xs. q (n + i, xs ! i))" for q
    by (force simp: in_set_conv_nth nth_enumerate_eq)
  from this [of "\<lambda>(index, x). \<not> p x index"] show ?thesis by simp
qed

lemma snark_execution_Ok_iff:
  "snark_verify_execution c t ks = Ok () \<longleftrightarrow>
     0 \<le> sint (sn_fee c t) \<and> sn_to_root c t = Inr (sn_id c t)
     \<and> length (sn_inputs c t) \<le> sn_max_inputs c \<and> length (sn_outputs c t) \<le> sn_max_inputs c
     \<and> (\<forall>i < length (sn_inputs c t). sn_input_verify c (sn_inputs c t ! i) (sn_tcm c t) i)
     \<and> (\<forall>i < length (sn_outputs c t).
          sn_output_verify c (sn_outputs c t ! i) (sn_tcm c t) (length (sn_inputs c t) + i))
     \<and> (\<exists>vk inputs. map_of ks (sn_function_name c t) = Some vk \<and> verifier_inputs c t = Ok inputs
          \<and> sn_verify c vk (sn_function_name c t) inputs (sn_proof c t))"
  unfolding snark_verify_execution_def any_enumerate
    any_enumerate [where p = "\<lambda>output index. sn_output_verify c output (sn_tcm c t) (length (sn_inputs c t) + index)"]
  by (cases "sn_to_root c t") (auto simp: result_elims)

interpretation snark_vm: vm_contract "snark_backend c"
  for c :: "('f, 'er, 'tr, 'inp, 'out) snark_crate"
  by unfold_locales
    (auto simp: snark_backend_def snark_execution_no_panic snark_deployment_Ok_iff snark_deployment_no_panic
      snark_execution_Ok_iff dest!: map_of_SomeD intro: rev_image_eqI)


section \<open>What a build produces\<close>

lemma add_functions_Ok:
  assumes "add_functions c fs st = Ok st'"
  shows "map fst (st_register_types st') = map fst (st_register_types st) @ map snd fs
    \<and> distinct (map snd fs) \<and> (\<forall>name \<in> set (map snd fs). map_of (st_register_types st) name = None)"
  using assms
proof (induction fs arbitrary: st)
  case (Cons f fs)
  obtain key name where f: "f = (key, name)" by force
  with Cons.prems obtain types where none: "map_of (st_register_types st) name = None"
    and rest: "add_functions c fs (st\<lparr>st_register_types := st_register_types st @ [(name, types)]\<rparr>) = Ok st'"
    by (auto simp: result_elims)
  from Cons.IH [OF rest] show ?case using none f by (auto split: option.splits if_splits)
qed simp

lemma new_init_Ok:
  "new_init c prog = Ok st \<Longrightarrow> prog_functions prog \<noteq> [] \<and> distinct (map snd (prog_functions prog))
     \<and> map fst (st_register_types st) = map snd (prog_functions prog)"
  using add_functions_Ok [of c "prog_functions prog"] by (force simp: new_init_def result_elims)

lemma try_map_keys:
  "try_map (\<lambda>x. map_ok (\<lambda>y. (x, y)) (f x)) xs = Ok ys \<Longrightarrow> map fst ys = xs \<and> (\<forall>(x, y) \<in> set ys. f x = Ok y)"
  by (induction xs arbitrary: ys) (auto simp: result_elims)


section \<open>Properties\<close>

text \<open>What the check of an execution in this backend guarantees, and nothing less: a fee that is
  not negative, the id of the transition, bounded numbers of inputs and outputs, each of them
  valid at its index, and a proof that verifies against the inputs, the outputs and the fee.\<close>
theorem snark_execution_check_exact:
  "snark_verify_execution c t ks = Ok () \<longleftrightarrow>
     0 \<le> sint (sn_fee c t) \<and> sn_to_root c t = Inr (sn_id c t)
     \<and> length (sn_inputs c t) \<le> sn_max_inputs c \<and> length (sn_outputs c t) \<le> sn_max_inputs c
     \<and> (\<forall>i < length (sn_inputs c t). sn_input_verify c (sn_inputs c t ! i) (sn_tcm c t) i)
     \<and> (\<forall>i < length (sn_outputs c t).
          sn_output_verify c (sn_outputs c t ! i) (sn_tcm c t) (length (sn_inputs c t) + i))
     \<and> (\<exists>vk fee. map_of ks (sn_function_name c t) = Some vk \<and> sn_fee_to_field c (sn_fee c t) = Inr fee
          \<and> sn_verify c vk (sn_function_name c t)
              ([sn_one c, fst (sn_tpk_coordinates c t), snd (sn_tpk_coordinates c t), sn_tcm c t]
               @ concat (map (sn_input_verifier_inputs c) (sn_inputs c t))
               @ concat (map (sn_output_verifier_inputs c) (sn_outputs c t)) @ [fee]) (sn_proof c t))"
proof -
  have inputs: "verifier_inputs c t = Ok inputs \<longleftrightarrow> (\<exists>fee. sn_fee_to_field c (sn_fee c t) = Inr fee
      \<and> inputs = [sn_one c, fst (sn_tpk_coordinates c t), snd (sn_tpk_coordinates c t), sn_tcm c t]
               @ concat (map (sn_input_verifier_inputs c) (sn_inputs c t))
               @ concat (map (sn_output_verifier_inputs c) (sn_outputs c t)) @ [fee])" for inputs
    by (cases "sn_fee_to_field c (sn_fee c t)") (auto simp: verifier_inputs_def split: prod.splits)
  have one_point: "(\<exists>vk y. P vk \<and> (\<exists>fee. F fee \<and> y = g fee) \<and> V vk y) \<longleftrightarrow> (\<exists>vk fee. P vk \<and> F fee \<and> V vk (g fee))"
    for P F V and g :: "'x \<Rightarrow> 'y" by blast
  show ?thesis by (simp only: snark_execution_Ok_iff inputs one_point)
qed

text \<open>C21. A node accepts what a builder builds: the deployment check passes for the program and the
  verifying keys of every build of a program with functions, whose functions are filed under
  their own names; the names are distinct then. A program without functions builds too, with
  no keys, and its deployment is refused.\<close>
theorem built_program_deploys:
  assumes "build_program c source = Ok (prog, build)"
    and "map snd (prog_functions prog) = map fst (prog_functions prog)"
  shows "if prog_functions prog = [] then build = [] \<and> snark_verify_deployment prog [] = Err NoVerifyingKeys
    else snark_verify_deployment prog (map (\<lambda>(i, keys). (i, snd keys)) build) = Ok ()
      \<and> distinct (map fst (prog_functions prog))
      \<and> (\<forall>(name, keys) \<in> set build. synthesize_function_keys c prog name = Ok keys)"
proof -
  from assms(1) have "try_map (\<lambda>name. map_ok (\<lambda>keys. (name, keys)) (synthesize_function_keys c prog name))
      (map fst (prog_functions prog)) = Ok build"
    by (auto simp: build_program_def result_elims)
  from try_map_keys [OF this] have names: "map fst build = map fst (prog_functions prog)"
    and keys: "\<forall>(name, keys) \<in> set build. synthesize_function_keys c prog name = Ok keys" by blast+
  have fst_map: "map fst (map (\<lambda>(i, keys). (i, snd keys)) build) = map fst build" by (induction build) auto
  show ?thesis
  proof (cases "prog_functions prog")
    case Nil
    then show ?thesis using names by (simp add: snark_verify_deployment_def)
  next
    case (Cons f fs)
    then obtain b bs where b: "build = b # bs" using names by (cases build) auto
    then have "synthesize_function_keys c prog (fst b) = Ok (snd b)" using keys by (cases b) auto
    then obtain st where "new_init c prog = Ok st" by (auto simp: synthesize_function_keys_def result_elims)
    from new_init_Ok [OF this] have "distinct (map fst (prog_functions prog))" using assms(2) by simp
    moreover have "snark_verify_deployment prog (map (\<lambda>(i, keys). (i, snd keys)) build) = Ok ()"
      unfolding snark_deployment_Ok_iff fst_map using names assms(2) b by simp
    ultimately show ?thesis using Cons keys by simp
  qed
qed

text \<open>Two functions with one name are refused when the stack is built, for every use of the program.\<close>

lemma duplicate_function_names:
  "\<not> distinct (map snd (prog_functions prog)) \<Longrightarrow> new_init c prog \<noteq> Ok st"
  using new_init_Ok by blast


section \<open>Witnesses\<close>

definition sample_snark :: "(string, string, string, string, string) snark_crate" where
  "sample_snark =
     \<lparr>sn_program_id = (\<lambda>t. ''credits.aleo''), sn_function_name = (\<lambda>t. ''fee''), sn_fee = (\<lambda>t. 0), sn_id = id,
      sn_to_root = Inr, sn_inputs = (\<lambda>t. [''in'']), sn_outputs = (\<lambda>t. [''out'']), sn_tcm = (\<lambda>t. ''m''),
      sn_tpk_coordinates = (\<lambda>t. (''x'', ''y'')), sn_proof = id, sn_serial_numbers = (\<lambda>t. []),
      sn_output_records = (\<lambda>t. []), sn_max_inputs = 8, sn_one = ''1'', sn_input_verify = (\<lambda>i m n. True),
      sn_output_verify = (\<lambda>i m n. True), sn_input_verifier_inputs = (\<lambda>i. [i]),
      sn_output_verifier_inputs = (\<lambda>i. [i]), sn_fee_to_field = (\<lambda>fee. Inr ''0''),
      sn_verify = (\<lambda>vk name inputs proof. vk = VerifyingKey proof), sn_public_literal = (\<lambda>out. None),
      sn_parse_program = (\<lambda>text. Inr fee_program), sn_program_from_str = (\<lambda>text. Inr fee_program),
      sn_is_coinbase = (\<lambda>p f. f = ''genesis''), sn_load_srs = Inr (),
      sn_register_types = (\<lambda>st name. Inr (RegisterTypes name)),
      sn_synthesize_key = (\<lambda>st name. Inr (st\<lparr>st_proving_keys := [(name, ProvingKey name)],
        st_verifying_keys := [(name, VerifyingKey name)]\<rparr>)),
      sn_insert_proving_key = (\<lambda>st name pk. Inr st), sn_execute = (\<lambda>st name ins key. Inr [name]),
      sn_serial_number_domain = ''d'', sn_hash_to_group = (\<lambda>fs. Inr (SnarkGroup (concat fs))),
      sn_sk_sig = (\<lambda>key. SnarkScalar ''sk''), sn_group_mul = (\<lambda>g s. g), sn_cofactor_x = (\<lambda>g. ''x''),
      sn_hash_to_scalar = (\<lambda>fs. Inr (SnarkScalar (concat fs))), sn_commit = (\<lambda>p s. Inr (snd p)),
      sn_seeded_scalar = (\<lambda>seed. SnarkScalar (decimal (unat seed))), sn_g_multiply = (\<lambda>s. SnarkGroup ''g''),
      sn_record_from_plaintext = (\<lambda>a g n. Inr (SnarkRecord ''r'')), sn_parse_identifier = Inr,
      sn_parse_program_id = Inr, sn_to_commitment = (\<lambda>r p n. Inr ''c''), sn_encrypt = (\<lambda>r s. Inr ''e''),
      sn_record_gates = (\<lambda>r. 0), sn_parse_address = (\<lambda>text. Inr (AleoAddress text)),
      sn_parse_value = (\<lambda>text. Inr (SnarkValue text)), sn_field_to_string = id, sn_field_from_string = Some,
      sn_encrypted_to_string = id, sn_encrypted_from_string = Some\<rparr>"

theorem snark_execution_check_exact_witness:
  "snark_verify_execution sample_snark ''t'' [(''fee'', VerifyingKey ''t'')] = Ok ()
    \<and> snark_verify_execution sample_snark ''t'' [(''fee'', VerifyingKey ''u'')] \<noteq> Ok ()"
  unfolding snark_execution_check_exact by (simp add: sample_snark_def)

theorem built_program_deploys_witness:
  "\<exists>build. build_program sample_snark ''source'' = Ok (fee_program, build)
    \<and> snark_verify_deployment fee_program (map (\<lambda>(i, keys). (i, snd keys)) build) = Ok ()"
proof -
  have fs: "prog_functions fee_program = [(''fee'', ''fee'')]" by (simp add: fee_program_def)
  obtain build where b: "build_program sample_snark ''source'' = Ok (fee_program, build)"
    by (simp add: build_program_def fs synthesize_function_keys_def new_init_def sample_snark_def)
  from built_program_deploys [OF b] show ?thesis using b by (simp add: fs)
qed

end
