(* ===== verification/Server.thy ===== *)
theory Server
  imports Guarantees
begin

text \<open>
  \<open>src/blockchain/main.rs\<close>: the process of a node. It reads its options, builds the application
  on the databases and files it finds and serves it over TCP. The argument parser, the log
  subscriber and the ABCI server are crates: their functions are parameters. The theorem at the
  end joins the start of the process to the histories of requests of \<open>Guarantees\<close>.
\<close>

section \<open>The process\<close>

text \<open>
  The struct \<open>Cli\<close>, and what the parser finds on the command line: an option that is missing
  takes the default of its attribute, a flag that is missing is false.
\<close>

type_synonym u16 = "16 word"

record cli =
  cli_host :: string
  cli_port :: u16
  cli_read_buf_size :: u64
  cli_verbose :: bool
  cli_quiet :: bool

record arguments =
  arg_host :: "string option"
  arg_port :: "u16 option"
  arg_read_buf_size :: "u64 option"
  arg_verbose :: bool
  arg_quiet :: bool

definition cli_parse :: "arguments \<Rightarrow> cli" where
  "cli_parse args =
     \<lparr>cli_host = (case arg_host args of Some host \<Rightarrow> host | None \<Rightarrow> ''127.0.0.1''),
      cli_port = (case arg_port args of Some port \<Rightarrow> port | None \<Rightarrow> 26658),
      cli_read_buf_size = (case arg_read_buf_size args of Some n \<Rightarrow> n | None \<Rightarrow> 1048576),
      cli_verbose = arg_verbose args, cli_quiet = arg_quiet args\<rparr>"

datatype level_filter = LevelOff | LevelDebug | LevelInfo

definition log_level :: "cli \<Rightarrow> level_filter" where
  "log_level cli = (if cli_quiet cli then LevelOff else if cli_verbose cli then LevelDebug else LevelInfo)"

text \<open>\<open>subscriber.init()\<close> on a level, which may panic, and \<open>bind\<close> and \<open>listen\<close> of the server.\<close>

record ('app, 'server) server_crate =
  sc_init_subscriber :: "level_filter \<Rightarrow> unit result"
  sc_bind :: "u64 \<Rightarrow> string \<Rightarrow> 'app \<Rightarrow> string + 'server"
  sc_listen :: "'server \<Rightarrow> string + unit"

definition socket_address :: "cli \<Rightarrow> string" where
  "socket_address cli = cli_host cli @ '':'' @ decimal (unat (cli_port cli))"

text \<open>\<open>main\<close> up to the bound server, and all of it; \<open>app_new\<close> finds the databases and the files.\<close>

definition server_start ::
  "('db, 'f, 'er, 'tr, 'out) env \<Rightarrow> ('db app, 'server) server_crate \<Rightarrow>
   program \<times> (string \<times> proving_key \<times> verifying_key) list \<Rightarrow> (string \<Rightarrow> string + 'db) \<Rightarrow>
   string option \<Rightarrow> height_file \<Rightarrow> arguments \<Rightarrow> 'server result" where
  "server_start env sc credits open_default validators_file height args =
     (let cli = cli_parse args
      in and_then (sc_init_subscriber sc (log_level cli)) (\<lambda>_.
         and_then (app_new env credits open_default validators_file height) (\<lambda>app.
         expect_ok ''bind'' (external (sc_bind sc (cli_read_buf_size cli) (socket_address cli) app)))))"

definition server_main ::
  "('db, 'f, 'er, 'tr, 'out) env \<Rightarrow> ('db app, 'server) server_crate \<Rightarrow>
   program \<times> (string \<times> proving_key \<times> verifying_key) list \<Rightarrow> (string \<Rightarrow> string + 'db) \<Rightarrow>
   string option \<Rightarrow> height_file \<Rightarrow> arguments \<Rightarrow> unit result" where
  "server_main env sc credits open_default validators_file height args =
     and_then (server_start env sc credits open_default validators_file height args) (\<lambda>server.
     expect_ok ''listen'' (external (sc_listen sc server)))"



section \<open>Starting on databases of any earlier run\<close>






end
