(* ===== verification/Mempool.thy ===== *)
theory Mempool
  imports Guarantees
begin

text \<open>
  The mempool and query connections: their requests leave no trace in the node, so its state
  depends only on the requests of the consensus connection, except for a transaction whose
  outputs make \<open>stake_updates\<close> panic while the lock of the validator set is held.
\<close>

section \<open>Stored serial numbers parse\<close>

definition spent_parse ::
  "('f, 'er, 'tr, 'out) vm_backend \<Rightarrow> ('db \<Rightarrow> string \<Rightarrow> string option) \<Rightarrow> 'db record_store \<Rightarrow> bool" where
  "spent_parse vm contents s \<longleftrightarrow> (\<forall>k \<in> spent_keys contents s. vm_field_from_string vm k \<noteq> None)"

interpretation spent_form: store_relation "carries (\<lambda>s. spent_parse vm contents (app_records s))"
  for vm :: "('f, 'er, 'tr, 'out) vm_backend" and contents :: "'db \<Rightarrow> string \<Rightarrow> string option"
  by unfold_locales (auto simp: carries_def)

lemma scan_spent_keys_parse:
  assumes "kv_laws ops contents" and "spent_parse vm contents s"
  shows "\<exists>keys. scan_spent_keys ops (vm_field_from_string vm) s = Ok keys"
proof -
  let ?f = "\<lambda>(key, _). map_ok (\<lambda>_. key) (expect_some ''parse serial number'' (vm_field_from_string vm key))"
  have items: "Inr kv \<in> set items" if "kv \<in> set (ok_items items)" for kv and items :: "('x + 'y) list"
    using that by (induction items rule: ok_items.induct) auto
  have "\<exists>y. ?f kv = Ok y" if "kv \<in> set (ok_items (kv_iterator ops (rs_db_spent s) None))" for kv
  proof -
    obtain k v where kv: "kv = (k, v)" by force
    with items [OF that] have "contents (rs_db_spent s) k = Some v" by (simp add: kv_iterator_sound [OF assms(1)])
    then have "vm_field_from_string vm k \<noteq> None" using assms(2) by (auto simp: spent_parse_def spent_keys_def)
    then show ?thesis using kv by auto
  qed
  from try_map_total [of "ok_items (kv_iterator ops (rs_db_spent s) None)" ?f, OF this] show ?thesis unfolding scan_spent_keys_def by blast
qed

lemma serve_spent_parse:
  assumes "kv_laws ops contents" and "spent_parse vm contents s"
    and "\<And>k. c = SpendCommand k \<Longrightarrow> vm_field_from_string vm k \<noteq> None"
  shows "spent_parse vm contents (snd (serve ops (vm_field_from_string vm) c s))"
proof (cases c)
  case CommitCommand
  have "spent_keys contents (handle_commit ops s) \<subseteq> spent_keys contents s"
    by (force simp: spent_keys_def handle_commit_def kv_write_contents [OF assms(1)] map_add_def
        split: if_splits option.splits dest!: map_of_SomeD)
  then show ?thesis using CommitCommand assms(2) by (auto simp: serve_def spent_parse_def)
next
  case ScanSpentRecordsCommand
  with scan_spent_keys_parse [OF assms(1,2)] assms(2) show ?thesis by (auto simp: serve_def)
qed (use assms(2,3) in \<open>auto simp: serve_def handle_add_def handle_spend_def spent_parse_def spent_keys_def
      split: prod.splits\<close>)


lemma request_spent_parse:
  fixes env :: "('db, 'f, 'er, 'tr, 'out) env" and s :: "'db app"
  assumes "kv_laws (e_kv env) contents"
    and "text_codec (vm_field_to_string (e_vm env)) (vm_field_from_string (e_vm env))"
    and "spent_parse (e_vm env) contents (app_records s)"
  shows "spent_parse (e_vm env) contents (app_records (snd (handle_request env r s)))"
proof -
  let ?I = "spent_parse (e_vm env) contents" and ?P = "carries (\<lambda>s. spent_parse (e_vm env) contents (app_records s))"
  let ?serve = "serve (e_kv env) (vm_field_from_string (e_vm env))"
  have lift: "carries ?I (app_records s) rs \<Longrightarrow> ?P s (s\<lparr>app_records := rs\<rparr>)" for s :: "'db app" and rs
    by (simp add: carries_def)
  note printed = text_codec.round_trip [OF assms(2)]
  have step: "carries ?I s (snd (?serve c s))"
    if "\<And>k. c = SpendCommand k \<Longrightarrow> vm_field_from_string (e_vm env) k \<noteq> None" for c and s :: "'db record_store"
    using serve_spent_parse [OF assms(1) _ that] by (simp add: carries_def)
  have lifted: "keeps (carries ?I) m \<Longrightarrow> keeps ?P (on_records m)" for m :: "('db record_store, 'x) action"
    by (erule keeps_on_records) (rule lift)
  have calls: "keeps (carries ?I) (is_unspent (e_kv env) (e_vm env) n)" "keeps (carries ?I) (spend (e_kv env) (e_vm env) n)"
    "keeps (carries ?I) (add (e_kv env) (e_vm env) cm q)" for n cm q
    by (simp_all only: keeps_def is_unspent_def spend_def add_def snd_map_prod id_apply)
      (intro allI step, simp add: printed)+
  have scans: "keeps (carries ?I) (scan (e_kv env) (e_vm env) k l)" "keeps (carries ?I) (scan_spent (e_kv env) (e_vm env))"
    for k l
    using step [of "ScanRecordsCommand (map_option (vm_field_to_string (e_vm env)) k) l"] step [of ScanSpentRecordsCommand]
    by (auto simp: keeps_def scan_def scan_spent_def split: prod.splits reply.splits) (metis snd_conv)+
  have programs: "keeps ?P (on_programs m)" for m :: "('db program_store, 'x) action"
    by (simp add: keeps_def on_programs_def carries_def case_prod_unfold)
  note store = lifted [OF calls(1)] lifted [OF calls(2)] lifted [OF calls(3)] lifted [OF scans(1)] lifted [OF scans(2)]
  have "?P s (snd (handle_request env r s))"
  proof (cases "r = Commit")
    case True
    have "?P s (s\<lparr>app_records := snd (commit (e_kv env) (e_vm env) (app_records s))\<rparr>)"
      using step [of CommitCommand "app_records s"] by (simp add: commit_def carries_def)
    then have "?P s (snd (app_commit env s))"
      by (rule spent_form.commit_respects) (rule store)
    then show ?thesis by (simp add: True)
  next
    case False
    then show ?thesis
      by (intro spent_form.request_respects store programs spent_form.keeps_update_validators
          spent_form.keeps_begin_block spent_form.keeps_init keeps_store_program)
        (simp_all add: carries_def)
  qed
  with assms(3) show ?thesis by (simp add: carries_def)
qed


section \<open>Queries and checks leave no trace\<close>

lemma query_unchanged:
  assumes "kv_laws (e_kv env) contents" and "ps_inv (e_bincode env) contents (app_programs s)"
    and "spent_parse (e_vm env) contents (app_records s)"
  shows "snd (query env q s) = s"
proof (cases q)
  case (Some a)
  show ?thesis
  proof (cases a)
    case GetRecords
    have "snd (scan (e_kv env) (e_vm env) None None (app_records s)) = app_records s"
      by (auto simp: scan_def serve_def split: prod.splits reply.splits)
    then show ?thesis using Some GetRecords
      by (auto simp: answer_def on_records_def split: prod.splits result.splits)
  next
    case GetSpentSerialNumbers
    from scan_spent_keys_parse [OF assms(1,3)] obtain keys where
      "scan_spent_keys (e_kv env) (vm_field_from_string (e_vm env)) (app_records s) = Ok keys" by blast
    then have "snd (scan_spent (e_kv env) (e_vm env) (app_records s)) = app_records s"
      by (auto simp: scan_spent_def serve_def)
    then show ?thesis using Some GetSpentSerialNumbers
      by (auto simp: answer_def on_records_def split: prod.splits result.splits)
  next
    case (GetProgram k)
    with Some get_program_inv [OF assms(1,2), of k] show ?thesis
      by (auto simp: answer_def on_programs_def)
  qed
qed simp

text \<open>A check panics only where the updates of a transaction are extracted.\<close>

lemma verify_transition_no_panic:
  assumes "kv_laws (e_kv env) contents" and "ps_inv (e_bincode env) contents (app_programs s)" and "vm_contract (e_vm env)"
  shows "verify_transition env tr s \<noteq> (Panic p, t)"
  using get_program_inv [OF assms(1,2), of "vm_program_id (e_vm env) tr"] vm_contract.execution_no_panic [OF assms(3)]
  by (auto simp: verify_transition_def on_programs_def act_then_def split: option.splits)


lemma act_each_no_panic:
  assumes "\<And>x t. x \<in> set xs \<Longrightarrow> f x s \<noteq> (Panic p, t)" and "\<And>x. x \<in> set xs \<Longrightarrow> snd (f x s) = s"
  shows "act_each f xs s \<noteq> (Panic p, t)"
  using assms
proof (induction xs)
  case (Cons x xs)
  obtain r u where m: "f x s = (r, u)" by force
  with Cons.prems(2) [of x] have "u = s" by simp
  with m Cons.prems(1) [of x s] Cons show ?case by (cases r) (auto simp: act_then_def)
qed simp

lemma validate_contents_no_panic:
  assumes laws: "kv_laws (e_kv env) contents" "ps_inv (e_bincode env) contents (app_programs s)"
    and "vm_contract (e_vm env)" and "\<not> app_poisoned s"
    and "\<And>p. stake_updates (e_vm env) (e_crypto env) tx \<noteq> Panic p"
  shows "validate_contents env tx s \<noteq> (Panic p, t)"
proof (cases tx)
  case (Deployment i prog ks fee)
  have one: "program_exists (e_kv env) (prog_id prog) (app_programs s) \<noteq> Panic q" for q
    using laws(2) by (simp add: program_exists_def ps_inv_def)
  have two: "(case fee of Some tr \<Rightarrow> verify_transition env tr | None \<Rightarrow> pure_action (\<lambda>_. Ok ())) s \<noteq> (Panic q, u)" for q u
    using verify_transition_no_panic [OF laws assms(3)] by (cases fee) auto
  show ?thesis
    unfolding Deployment validate_contents.simps
    by (rule notI, (erule act_then_no_panic)+)
      (use one two vm_contract.deployment_no_panic [OF assms(3)] in \<open>auto simp: act_then_def ensure_def split: prod.splits result.splits\<close>)
next
  case (Execution i ts)
  have each: "act_each (verify_transition env) ts s \<noteq> (Panic q, u)" for q u
    using verify_transition_no_panic [OF laws assms(3)] verify_transition_unchanged [OF laws]
    by (intro act_each_no_panic)
  show ?thesis
    using assms(4,5) each
    by (auto simp: Execution act_then_def locked_def ensure_def simp del: stake_updates.simps
        split: prod.splits result.splits if_splits)
qed


lemma run_checks_no_panic:
  assumes "kv_laws (e_kv env) contents" and "ps_inv (e_bincode env) contents (app_programs s)"
    and "vm_contract (e_vm env)" and "\<not> app_poisoned s"
    and "\<And>p. stake_updates (e_vm env) (e_crypto env) tx \<noteq> Panic p"
  shows "run_checks env tx s \<noteq> (Panic p, t)"
proof
  assume run: "run_checks env tx s = (Panic p, t)"
  have dup: "check_no_duplicate_records (e_vm env) tx \<noteq> Panic q" for q
    by (simp add: check_no_duplicate_records_def split: option.splits)
  have inputs: "check_inputs_are_unspent env tx s \<noteq> (Panic q, u)" for q u
    unfolding check_inputs_are_unspent_def by (rule act_each_no_panic) (simp_all add: check_unspent_eq)
  have same: "check_inputs_are_unspent env tx s = (r, u) \<Longrightarrow> u = s" for r u
    using check_inputs_unchanged [of env tx s] by simp
  show False
    using run dup inputs validate_contents_no_panic [OF assms]
    by (auto simp: run_checks_def validate_transaction_def act_then_def dest!: same
        split: prod.splits result.splits)
qed

lemma check_tx_unchanged:
  assumes "kv_laws (e_kv env) contents" and "ps_inv (e_bincode env) contents (app_programs s)"
    and "vm_contract (e_vm env)"
    and "\<And>tx p. request = Some tx \<Longrightarrow> stake_updates (e_vm env) (e_crypto env) tx \<noteq> Panic p"
  shows "snd (check_tx env request s) = s"
proof (cases request)
  case (Some tx)
  obtain r t where run: "run_checks env tx s = (r, t)" by force
  have "t = s"
  proof (cases "app_poisoned s")
    case True
    then have "s\<lparr>app_poisoned := True\<rparr> = s" by simp
    with run_checks_state [OF assms(1,2) run] show ?thesis by (auto simp: poison_if_panic_def)
  next
    case False
    from run_checks_no_panic [OF assms(1-3) this assms(4) [OF Some]] run
    have "r \<noteq> Panic p" for p by metis
    with run_checks_state [OF assms(1,2) run] show ?thesis by (auto simp: poison_if_panic_def)
  qed
  with run show ?thesis by (simp add: Some check_tx_def split: result.splits)
qed (simp add: check_tx_def)


section \<open>Histories with and without a mempool\<close>

text \<open>The requests of the consensus connection, and of the handshake at start-up.\<close>

fun consensus_request :: "('f, 'er, 'tr) request \<Rightarrow> bool" where
  "consensus_request (CheckTx r) = False"
| "consensus_request (Query q) = False"
| "consensus_request _ = True"

text \<open>A check of a transaction whose staking updates can be extracted, or fail with an error.\<close>

fun harmless_check :: "('db, 'f, 'er, 'tr, 'out) env \<Rightarrow> ('f, 'er, 'tr) request \<Rightarrow> bool" where
  "harmless_check env (CheckTx (Some tx)) =
     (case stake_updates (e_vm env) (e_crypto env) tx of Panic p \<Rightarrow> False | _ \<Rightarrow> True)"
| "harmless_check env _ = True"

definition node_form ::
  "('db, 'f, 'er, 'tr, 'out) env \<Rightarrow> ('db \<Rightarrow> string \<Rightarrow> string option) \<Rightarrow> 'db app \<Rightarrow> bool" where
  "node_form env contents s \<longleftrightarrow> ps_inv (e_bincode env) contents (app_programs s)
     \<and> spent_parse (e_vm env) contents (app_records s)"

lemma request_node_form:
  assumes "kv_laws (e_kv env) contents" and "kv_available (e_kv env)" and "bincode_law (e_bincode env)"
    and "text_codec (vm_field_to_string (e_vm env)) (vm_field_from_string (e_vm env))"
    and "deployment_encodable (e_bincode env) r" and "node_form env contents s"
  shows "node_form env contents (snd (handle_request env r s))"
  using request_programs_grow [OF assms(1-3,5), of s] request_spent_parse [OF assms(1,4), of s r] assms(6)
  by (simp add: node_form_def programs_grow_def)

lemma invisible_request:
  assumes "kv_laws (e_kv env) contents" and "vm_contract (e_vm env)" and "node_form env contents s"
    and "harmless_check env r" and "\<not> consensus_request r"
  shows "handle_request env r s = ([], s)"
proof (cases r)
  case (CheckTx request)
  have "stake_updates (e_vm env) (e_crypto env) tx \<noteq> Panic p" if "request = Some tx" for tx p
    using assms(4) CheckTx that by auto
  with check_tx_unchanged [OF assms(1) _ assms(2), of s request] assms(3) show ?thesis
    by (simp add: CheckTx node_form_def)
next
  case (Query q)
  then show ?thesis using query_unchanged [OF assms(1), of s q] assms(3) by (simp add: node_form_def)
qed (use assms(5) in simp_all)

lemma mempool_history:
  assumes "kv_laws (e_kv env) contents" and "kv_available (e_kv env)" and "bincode_law (e_bincode env)"
    and "text_codec (vm_field_to_string (e_vm env)) (vm_field_from_string (e_vm env))" and "vm_contract (e_vm env)"
    and "node_form env contents s"
    and "list_all (deployment_encodable (e_bincode env)) rs" and "list_all (harmless_check env) rs"
  shows "run_requests env rs s = run_requests env (filter consensus_request rs) s"
  using assms(6-8)
proof (induction rs arbitrary: s)
  case (Cons r rs)
  obtain txs t where rt: "handle_request env r s = (txs, t)" by force
  have "node_form env contents t"
    using request_node_form [OF assms(1-4), of r s] Cons.prems rt by simp
  with Cons have ih: "run_requests env rs t = run_requests env (filter consensus_request rs) t" by simp
  show ?case
  proof (cases "consensus_request r")
    case True
    then show ?thesis by (simp add: run_requests_Cons [OF rt] ih)
  next
    case False
    with invisible_request [OF assms(1,5) Cons.prems(1)] Cons.prems(3) have "handle_request env r s = ([], s)" by simp
    then show ?thesis using rt ih False by (simp add: run_requests_Cons [OF rt])
  qed
qed simp


section \<open>A poisoned lock\<close>

interpretation poison: store_relation "carries app_poisoned"
  by unfold_locales (auto simp: carries_def)

lemma request_stays_poisoned:
  fixes env :: "('db, 'f, 'er, 'tr, 'out) env"
  assumes "app_poisoned s"
  shows "app_poisoned (snd (handle_request env r s))"
proof -
  have frames: "keeps (carries app_poisoned) (on_records m)" "keeps (carries app_poisoned) (on_programs n)"
    for m :: "('db record_store, 'x) action" and n :: "('db program_store, 'y) action"
    by (simp_all add: keeps_def on_records_def on_programs_def carries_def case_prod_unfold)
  have "carries app_poisoned s (snd (handle_request env r s))"
  proof (cases "r = Commit")
    case True
    have "carries app_poisoned s (snd (app_commit env s))"
      by (rule poison.commit_respects) (simp_all add: carries_def frames)
    then show ?thesis by (simp add: True)
  next
    case False
    then show ?thesis
      by (intro poison.request_respects frames poison.keeps_update_validators poison.keeps_begin_block
          poison.keeps_init keeps_store_program) (simp_all add: carries_def)
  qed
  with assms show ?thesis by (simp add: carries_def)
qed

lemma poisoned_delivers_nothing:
  assumes "app_poisoned s"
  shows "fst (handle_request env r s) = []"
proof (cases r)
  case (DeliverTx request)
  have "deliver_tx env request s \<noteq> (Ok (Delivered i), t)" for i t
  proof
    assume "deliver_tx env request s = (Ok (Delivered i), t)"
    then obtain tx u where checks: "run_checks env tx s = (Ok (), u)" and app: "apply_transaction env tx u = (Ok (), t)"
      by (auto simp: deliver_Delivered_iff)
    have "keeps (carries app_poisoned) (run_checks env tx)"
      by (intro poison.keeps_checks) (simp_all add: keeps_def on_records_def on_programs_def carries_def case_prod_unfold)
    from keepsD [OF this checks] have "app_poisoned u" using assms by (simp add: carries_def)
    with app show False
      by (auto simp: apply_transaction_def act_then_Ok_iff ignore_error_def update_validators_def locked_def)
  qed
  then show ?thesis by (auto simp: DeliverTx split: prod.splits result.splits deliver_response.splits)
qed simp_all

lemma poisoned_history:
  assumes "app_poisoned s"
  shows "fst (run_requests env rs s) = [] \<and> app_poisoned (snd (run_requests env rs s))"
  using assms
proof (induction rs arbitrary: s)
  case (Cons r rs)
  from Cons.IH [OF request_stays_poisoned [OF Cons.prems]] show ?case
    by (simp add: run_requests.simps(2) case_prod_unfold poisoned_delivers_nothing [OF Cons.prems])
qed simp


section \<open>Properties\<close>

text \<open>C4. The mempool and the queries leave no trace: as long as the lookups of the database answer,
  the deployments can be encoded and the staking updates of every transaction that is checked
  can be extracted without a panic, a history of requests delivers
  the same transactions and ends in the same state when all checks and queries are left out.\<close>
theorem mempool_invisible:
  assumes "kv_laws (e_kv env) contents" and "kv_available (e_kv env)" and "bincode_law (e_bincode env)"
    and "text_codec (vm_field_to_string (e_vm env)) (vm_field_from_string (e_vm env))" and "vm_contract (e_vm env)"
    and "node_form env contents s"
    and "list_all (deployment_encodable (e_bincode env)) rs" and "list_all (harmless_check env) rs"
  shows "run_requests env rs s = run_requests env (filter consensus_request rs) s"
  by (rule mempool_history [OF assms])

text \<open>C23. A transaction in the mempool can stop a node: \<open>check_tx\<close> extracts the staking updates
  before it verifies any proof, with the lock of the validator set held, so an execution under
  its own hash whose outputs make the extraction panic poisons the lock. From then on the node
  delivers nothing, and every block begin and block end panics.\<close>
theorem mempool_check_stops_node:
  assumes "verify (e_tx env) (Execution i ts) = Ok ()" and "ts \<noteq> []"
    and "distinct (record_serial_numbers (e_vm env) (Execution i ts))"
    and "\<forall>n \<in> set (record_serial_numbers (e_vm env) (Execution i ts)).
      unspent_key (e_kv env) (app_records s) (vm_field_to_string (e_vm env) n)"
    and "stake_updates (e_vm env) (e_crypto env) (Execution i ts) = Panic msg"
    and "\<not> app_poisoned s"
  shows "\<exists>t. check_tx env (Some (Execution i ts)) s = (Panic msg, t)
    \<and> (\<forall>rs. fst (run_requests env rs t) = []
        \<and> (\<forall>header votes. fst (app_begin_block (Some header) votes (snd (run_requests env rs t))) = Panic ''poisoned lock'')
        \<and> fst (end_block (snd (run_requests env rs t))) = Panic ''poisoned lock'')"
proof -
  let ?tx = "Execution i ts" and ?t = "s\<lparr>app_poisoned := True\<rparr>"
  have inputs: "check_inputs_are_unspent env ?tx s = (Ok (), s)"
    using assms(4) by (simp add: check_inputs_Ok_iff)
  have "validate_contents env ?tx s = (Panic msg, ?t)"
    using assms(2,5,6) by (simp add: act_then_def locked_def ensure_def del: stake_updates.simps)
  then have "run_checks env ?tx s = (Panic msg, ?t)"
    using assms(1,3) inputs
    by (simp add: run_checks_def validate_transaction_def act_then_def check_no_duplicates_Ok_iff [THEN iffD2]
        del: validate_contents.simps)
  then have check: "check_tx env (Some ?tx) s = (Panic msg, ?t)" by (simp add: check_tx_def)
  have "fst (run_requests env rs ?t) = []
      \<and> (\<forall>header votes. fst (app_begin_block (Some header) votes (snd (run_requests env rs ?t))) = Panic ''poisoned lock'')
      \<and> fst (end_block (snd (run_requests env rs ?t))) = Panic ''poisoned lock''" for rs
    using poisoned_history [of ?t env rs]
    by (auto simp: app_begin_block_def end_block_def locked_def)
  with check show ?thesis by blast
qed


section \<open>Witnesses\<close>

lemma sample_node_form: "node_form sample_env map_of sample_app"
  using sample_app_laws by (simp add: node_form_def spent_parse_def lambda_backend_def)

lemma sample_field_codec: "text_codec (vm_field_to_string sample_vm) (vm_field_from_string sample_vm)"
  by unfold_locales (simp add: lambda_backend_def)

lemma staking_bincode_law: "bincode_law staking_bincode"
  by (simp add: bincode_law_def staking_bincode_def)

theorem mempool_invisible_witness:
  "run_requests sample_env [CheckTx (Some (sample_calls [fee_call])), Query (Some GetRecords),
       DeliverTx (Some (sample_calls [fee_call])), Query (Some GetSpentSerialNumbers), EndBlock] sample_app
   = run_requests sample_env [DeliverTx (Some (sample_calls [fee_call])), EndBlock] sample_app"
proof -
  let ?rs = "[CheckTx (Some (sample_calls [fee_call])), Query (Some GetRecords),
       DeliverTx (Some (sample_calls [fee_call])), Query (Some GetSpentSerialNumbers), EndBlock]"
  have "run_requests sample_env ?rs sample_app = run_requests sample_env (filter consensus_request ?rs) sample_app"
    by (rule mempool_invisible [where contents = map_of])
      (use sample_app_laws(1) sample_node_form sample_field_codec staking_bincode_law memory_kv_available
        lambda_vm.vm_contract_axioms sample_updates(1) in \<open>simp_all add: sample_calls_def sample_tx_def del: stake_updates.simps\<close>)
  then show ?thesis by simp
qed

text \<open>A staking call whose amount is an address, under the hash of its transaction.\<close>

abbreviation bad_stake :: "string \<times> string \<times> variable_type list" where
  "bad_stake \<equiv> (''s1'', ''stake'', [OtherVariable ''c1'', OtherVariable ''c2'', Public (AddressValue ''aleo1'')])"

theorem mempool_check_stops_node_witness:
  "\<exists>t. check_tx sample_env (Some (sample_calls [bad_stake])) sample_app = (Panic ''not yet implemented'', t)
    \<and> fst (run_requests sample_env [DeliverTx (Some (sample_calls [fee_call])), Commit] t) = []"
proof -
  obtain i ts where tx: "sample_calls [bad_stake] = Execution i ts" and ts: "ts \<noteq> []"
    by (simp add: sample_calls_def sample_tx_def)
  have "stake_updates sample_vm sample_crypto (sample_calls [bad_stake]) = Panic ''not yet implemented''"
    by (simp add: sample_calls_def sample_tx_def sample_stake_update_spending)
      (simp add: stake_update_def int_output_def extract_output_def lambda_backend_def sample_transition_def)
  moreover have "verify sample_tx_crate (sample_calls [bad_stake]) = Ok ()"
    unfolding sample_calls_def by (rule sample_verify)
  moreover have "record_serial_numbers sample_vm (sample_calls [bad_stake]) = [''s1'']"
    unfolding sample_calls_def by (subst sample_serial_numbers) simp
  ultimately show ?thesis
    using mempool_check_stops_node [of sample_env i ts sample_app "''not yet implemented''"] ts sample_unspent
    unfolding tx by (fastforce simp: lambda_backend_def)
qed

end
