(* ===== verification/Replication.thy ===== *)
theory Replication
  imports Mempool
begin

text \<open>
  State machine replication: nodes that agree and handle the same requests of the consensus
  connection agree afterwards, whatever the iteration orders of their hash maps and whatever
  harmless checks and queries they answer in between, as long as \<open>key_may_exist\<close> answers both
  alike for the programs they are asked to deploy. Agreement compares the maps a node stores, not the order
  of their entries, and leaves out the validators file, whose text lists them in any order.
\<close>

section \<open>Runs that agree\<close>

text \<open>
  Two results agree when both are values that \<open>Q\<close> relates, the same error, or both panics:
  which of several panics comes first may depend on an iteration order.
\<close>

fun outcome_rel :: "('a \<Rightarrow> 'b \<Rightarrow> bool) \<Rightarrow> 'a result \<Rightarrow> 'b result \<Rightarrow> bool" where
  "outcome_rel Q (Ok a) (Ok b) = Q a b"
| "outcome_rel Q (Err e) (Err e') = (e = e')"
| "outcome_rel Q (Panic p) (Panic q) = True"
| "outcome_rel Q _ _ = False"

definition agree ::
  "('s \<Rightarrow> 't \<Rightarrow> bool) \<Rightarrow> ('a \<Rightarrow> 'b \<Rightarrow> bool) \<Rightarrow> ('s, 'a) action \<Rightarrow> ('t, 'b) action \<Rightarrow> bool" where
  "agree R Q m n \<longleftrightarrow> (\<forall>s t. R s t \<longrightarrow> outcome_rel Q (fst (m s)) (fst (n t)) \<and> R (snd (m s)) (snd (n t)))"

lemma outcome_eq_refl [simp]: "outcome_rel (=) r r"
  by (cases r) simp_all

lemma outcome_cases:
  assumes "outcome_rel Q r r'"
  obtains (Ok) a b where "r = Ok a" "r' = Ok b" "Q a b"
    | (Err) e where "r = Err e" "r' = Err e"
    | (Panic) p q where "r = Panic p" "r' = Panic q"
  using assms by (cases r; cases r') auto

lemma agreeD:
  "agree R Q m n \<Longrightarrow> R s t \<Longrightarrow> outcome_rel Q (fst (m s)) (fst (n t)) \<and> R (snd (m s)) (snd (n t))"
  by (simp add: agree_def)

lemma agree_pure: "(\<And>s t. R s t \<Longrightarrow> outcome_rel Q (f s) (g t)) \<Longrightarrow> agree R Q (pure_action f) (pure_action g)"
  by (simp add: agree_def)

lemma agree_pure_const [simp]: "agree R (=) (pure_action (\<lambda>_. r)) (pure_action (\<lambda>_. r))"
  by (simp add: agree_def)

lemma agree_then:
  assumes "agree R Q m n" and "\<And>a b. Q a b \<Longrightarrow> agree R Q' (f a) (g b)"
  shows "agree R Q' (act_then m f) (act_then n g)"
  unfolding agree_def
proof (intro allI impI)
  fix s t
  assume "R s t"
  from agreeD [OF assms(1) this] obtain r s' r' t' where runs: "m s = (r, s')" "n t = (r', t')"
    and out: "outcome_rel Q r r'" and st: "R s' t'" by (metis prod.collapse)
  from out show "outcome_rel Q' (fst (act_then m f s)) (fst (act_then n g t))
      \<and> R (snd (act_then m f s)) (snd (act_then n g t))"
  proof (cases rule: outcome_cases)
    case (Ok a b)
    with agreeD [OF assms(2) [OF Ok(3)] st] runs show ?thesis by (simp add: act_then_def)
  qed (use runs st in \<open>simp_all add: act_then_def\<close>)
qed

lemma agree_then_eq:
  "agree R (=) m n \<Longrightarrow> (\<And>a. agree R Q (f a) (g a)) \<Longrightarrow> agree R Q (act_then m f) (act_then n g)"
  by (erule agree_then) simp

lemma agree_each:
  "(\<And>x. x \<in> set xs \<Longrightarrow> agree R (=) (f x) (g x)) \<Longrightarrow> agree R (=) (act_each f xs) (act_each g xs)"
proof (induction xs)
  case Nil
  then show ?case by (simp add: agree_def)
next
  case (Cons x xs)
  then have "agree R (=) (act_then (f x) (\<lambda>_. act_each f xs)) (act_then (g x) (\<lambda>_. act_each g xs))"
    by (intro agree_then) auto
  then show ?case by (simp only: agree_def act_each.simps)
qed

lemma agree_ignore: "agree R (=) m n \<Longrightarrow> agree R (=) (ignore_error m) (ignore_error n)"
  unfolding agree_def
proof (intro allI impI)
  fix s t
  assume all: "\<forall>s t. R s t \<longrightarrow> outcome_rel (=) (fst (m s)) (fst (n t)) \<and> R (snd (m s)) (snd (n t))" and "R s t"
  then obtain r s' r' t' where runs: "m s = (r, s')" "n t = (r', t')"
    and out: "outcome_rel (=) r r'" and st: "R s' t'" by (metis prod.collapse)
  from out show "outcome_rel (=) (fst (ignore_error m s)) (fst (ignore_error n t))
      \<and> R (snd (ignore_error m s)) (snd (ignore_error n t))"
    by (cases rule: outcome_cases) (use runs st in \<open>simp_all add: ignore_error_def\<close>)
qed

text \<open>\<open>expect\<close> leaves no error.\<close>

lemma and_then_Err_iff: "and_then r f = Err e \<longleftrightarrow> r = Err e \<or> (\<exists>a. r = Ok a \<and> f a = Err e)"
  by (cases r) auto

lemma expect_not_Err [simp]: "expect_ok msg r \<noteq> Err e" "expect_some msg x \<noteq> Err e"
  by (cases r; simp) (cases x; simp)

text \<open>Loops with \<open>?\<close> over the same elements in another order, when no body returns an error.\<close>

lemma try_map_reordered:
  assumes "mset xs = mset ys" and "\<And>x e. x \<in> set xs \<Longrightarrow> f x \<noteq> Err e"
  shows "outcome_rel (\<lambda>as bs. mset as = mset bs) (try_map f xs) (try_map f ys)"
proof (cases "\<forall>x \<in> set xs. \<exists>y. f x = Ok y")
  case True
  then obtain as where as: "try_map f xs = Ok as" using try_map_total [of xs f] by blast
  then obtain bs where "try_map f ys = Ok bs" "mset bs = mset as"
    using try_map_perm [of f xs as ys] assms(1) by metis
  with as show ?thesis by simp
next
  case False
  then obtain x where x: "x \<in> set xs" "\<forall>y. f x \<noteq> Ok y" by blast
  then obtain p where p: "f x = Panic p" using assms(2) by (cases "f x") auto
  have sets: "set xs = set ys" using assms(1) by (rule mset_eq_setD)
  obtain p1 where "try_map f xs = Panic p1" using try_map_panics [of xs f x p] assms(2) x(1) p by blast
  moreover obtain p2 where "try_map f ys = Panic p2"
    using try_map_panics [of ys f x p] assms(2) x(1) p sets by metis
  ultimately show ?thesis by simp
qed


section \<open>Stores that agree\<close>

definition rs_agree ::
  "('db \<Rightarrow> string \<Rightarrow> string option) \<Rightarrow> 'db record_store \<Rightarrow> 'db record_store \<Rightarrow> bool" where
  "rs_agree contents s t \<longleftrightarrow> rs_alive s = rs_alive t
     \<and> contents (rs_db_records s) = contents (rs_db_records t) \<and> contents (rs_db_spent s) = contents (rs_db_spent t)
     \<and> map_of (rs_record_buffer s) = map_of (rs_record_buffer t)
     \<and> map_of (rs_spent_buffer s) = map_of (rs_spent_buffer t) \<and> rs_inv s \<and> rs_inv t"

definition ps_agree ::
  "('db \<Rightarrow> string \<Rightarrow> string option) \<Rightarrow> 'db program_store \<Rightarrow> 'db program_store \<Rightarrow> bool" where
  "ps_agree contents s t \<longleftrightarrow> ps_alive s = ps_alive t \<and> contents (ps_db s) = contents (ps_db t)"

definition vs_agree :: "validator_set \<Rightarrow> validator_set \<Rightarrow> bool" where
  "vs_agree vs ws \<longleftrightarrow> map_of (vs_validators vs) = map_of (vs_validators ws) \<and> vs_fees vs = vs_fees ws
     \<and> vs_current_proposer vs = vs_current_proposer ws \<and> vs_current_height vs = vs_current_height ws
     \<and> map_of (vs_current_votes vs) = map_of (vs_current_votes ws)
     \<and> hm_ok (vs_current_votes vs) \<and> hm_ok (vs_current_votes ws)
     \<and> set (vs_updated_validators vs) = set (vs_updated_validators ws)
     \<and> distinct (vs_updated_validators vs) \<and> distinct (vs_updated_validators ws)"

definition app_agree :: "('db \<Rightarrow> string \<Rightarrow> string option) \<Rightarrow> 'db app \<Rightarrow> 'db app \<Rightarrow> bool" where
  "app_agree contents s t \<longleftrightarrow> rs_agree contents (app_records s) (app_records t)
     \<and> ps_agree contents (app_programs s) (app_programs t) \<and> vs_agree (app_validators s) (app_validators t)
     \<and> app_poisoned s = app_poisoned t \<and> app_height_file s = app_height_file t"

text \<open>The commands of the record store that the consensus requests send.\<close>

lemma buffered_agree: "rs_agree contents s t \<Longrightarrow> hm_contains (rs_record_buffer s) k = hm_contains (rs_record_buffer t) k"
  and spent_agree: "rs_agree contents s t \<Longrightarrow> hm_contains (rs_spent_buffer s) k = hm_contains (rs_spent_buffer t) k"
  by (simp_all add: rs_agree_def hm_contains_def)

lemma exists_agree:
  assumes "kv_working ops contents" and "rs_agree contents s t"
  shows "key_exists_or_fails ops (rs_db_records s) k = key_exists_or_fails ops (rs_db_records t) k"
    and "key_exists_or_fails ops (rs_db_spent s) k = key_exists_or_fails ops (rs_db_spent t) k"
  using assms by (simp_all add: working_exists rs_agree_def)

lemma agree_add_text:
  assumes "kv_working ops contents"
  shows "agree (rs_agree contents) (=) (add_text ops field k r) (add_text ops field k r)"
  unfolding agree_def
proof (intro allI impI)
  fix s t
  assume st: "rs_agree contents s t"
  then show "outcome_rel (=) (fst (add_text ops field k r s)) (fst (add_text ops field k r t))
      \<and> rs_agree contents (snd (add_text ops field k r s)) (snd (add_text ops field k r t))"
    using exists_agree(1) [OF assms st, of k] buffered_agree [OF st, of k]
    by (auto simp: add_text_eq handle_add_def rs_agree_def rs_inv_def)
qed

lemma unspent_agree:
  "kv_working ops contents \<Longrightarrow> rs_agree contents s t \<Longrightarrow> unspent_key ops s k = unspent_key ops t k"
  by (simp add: unspent_key_def handle_is_unspent_def exists_agree spent_agree) (simp add: rs_agree_def)

lemma agree_spend_key:
  assumes "kv_working ops contents"
  shows "agree (rs_agree contents) (=) (spend_key ops field k) (spend_key ops field k)"
  unfolding agree_def
proof (intro allI impI)
  fix s t
  assume st: "rs_agree contents s t"
  then show "outcome_rel (=) (fst (spend_key ops field k s)) (fst (spend_key ops field k t))
      \<and> rs_agree contents (snd (spend_key ops field k s)) (snd (spend_key ops field k t))"
    using unspent_agree [OF assms st, of k] by (auto simp: spend_key_eq rs_agree_def rs_inv_def)
qed

lemma agree_commit:
  assumes "kv_working ops contents"
  shows "agree (rs_agree contents) (=) (commit ops vm) (commit ops vm)"
  unfolding agree_def
proof (intro allI impI)
  fix s t
  assume st: "rs_agree contents s t"
  show "outcome_rel (=) (fst (commit ops vm s)) (fst (commit ops vm t))
      \<and> rs_agree contents (snd (commit ops vm s)) (snd (commit ops vm t))"
  proof (cases "rs_alive s")
    case True
    then have alive: "rs_alive s" "rs_alive t" using st by (simp_all add: rs_agree_def)
    have "rs_agree contents (handle_commit ops s) (handle_commit ops t)"
      using st by (simp add: rs_agree_def handle_commit_def working_write [OF assms] rs_inv_def map_of_rev_ok)
    then show ?thesis using alive by (simp add: commit_eq)
  next
    case False
    then show ?thesis using st by (simp add: commit_def rs_agree_def)
  qed
qed


text \<open>The program store and the validator set.\<close>

lemma agree_get_program:
  assumes "kv_working ops contents"
  shows "agree (ps_agree contents) (=) (get_program ops bc k) (get_program ops bc k)"
  unfolding agree_def
proof (intro allI impI)
  fix s t
  assume st: "ps_agree contents s t"
  then have "stored_bytes ops k s = stored_bytes ops k t"
    by (simp add: stored_bytes_def working_get [OF assms] ps_agree_def)
  with st show "outcome_rel (=) (fst (get_program ops bc k s)) (fst (get_program ops bc k t))
      \<and> ps_agree contents (snd (get_program ops bc k s)) (snd (get_program ops bc k t))"
    by (auto simp: get_program_def handle_get_program_def ps_agree_def split: option.splits)
qed

lemma agree_add_program:
  assumes "kv_working ops contents"
  shows "agree (ps_agree contents) (=) (add_program ops bc k p ks) (add_program ops bc k p ks)"
  unfolding agree_def
proof (intro allI impI)
  fix s t
  assume st: "ps_agree contents s t"
  then have "stored_bytes ops k s = stored_bytes ops k t"
    by (simp add: stored_bytes_def working_get [OF assms] ps_agree_def)
  with st show "outcome_rel (=) (fst (add_program ops bc k p ks s)) (fst (add_program ops bc k p ks t))
      \<and> ps_agree contents (snd (add_program ops bc k p ks s)) (snd (add_program ops bc k p ks t))"
    by (auto simp: add_program_def handle_add_program_def ps_agree_def working_write [OF assms] split: option.splits)
qed

lemma agree_apply_update: "agree vs_agree (=) (apply_update c u) (apply_update c u)"
  unfolding agree_def
proof (intro allI impI)
  fix vs ws
  assume st: "vs_agree vs ws"
  then have same: "updated_validator c vs u = updated_validator c ws u"
    by (intro updated_validator_cong) (simp add: vs_agree_def)
  have "vs_agree (marked c u vs) (marked c u ws)" using st by (simp add: vs_agree_def marked_def)
  then show "outcome_rel (=) (fst (apply_update c u vs)) (fst (apply_update c u ws))
      \<and> vs_agree (snd (apply_update c u vs)) (snd (apply_update c u ws))"
    using st by (simp add: apply_update_eq same vs_agree_def split: result.splits)
qed

lemma vs_agree_frames:
  assumes "vs_agree vs ws"
  shows "vs_agree (collect fee vs) (collect fee ws)"
    and "hm_ok votes \<Longrightarrow> vs_agree (begin_block p votes h vs) (begin_block p votes h ws)"
    and "vs_agree (replace c l vs) (replace c l ws)"
    and "validate c vs u = validate c ws u"
  using assms by (simp_all add: vs_agree_def collect_def begin_block_def replace_def validate_def)

lemma pending_updates_agree:
  assumes "vs_agree vs ws"
  shows "outcome_rel (\<lambda>as bs. mset as = mset bs) (pending_updates vs) (pending_updates ws)"
proof -
  have "mset (vs_updated_validators vs) = mset (vs_updated_validators ws)"
    using assms unfolding vs_agree_def by (metis set_eq_iff_mset_eq_distinct)
  moreover have "map_of (vs_validators vs) = map_of (vs_validators ws)" using assms by (simp add: vs_agree_def)
  ultimately show ?thesis
    unfolding pending_updates_def by (simp add: try_map_reordered)
qed

lemma block_rewards_agree:
  assumes "vs_agree vs ws" and "any_order order" and "any_order order'"
  shows "outcome_rel (\<lambda>as bs. mset as = mset bs) (block_rewards vm order vs) (block_rewards vm order' ws)"
proof (cases "vs_current_proposer vs")
  case None
  with assms(1) show ?thesis by (simp add: block_rewards_def vs_agree_def)
next
  case (Some proposer)
  let ?votes = "vs_current_votes vs" and ?votes' = "vs_current_votes ws"
  have ok: "hm_ok ?votes" "hm_ok ?votes'" "map_of ?votes = map_of ?votes'"
    and other: "vs_current_proposer ws = Some proposer" "vs_fees ws = vs_fees vs"
    using assms(1) Some by (simp_all add: vs_agree_def)
  have votes: "mset ?votes = mset ?votes'" using ok by (rule hm_same_entries)
  then have zero: "?votes = [] \<longleftrightarrow> ?votes' = []" "total_voting_power ?votes = total_voting_power ?votes'"
    by (auto dest: total_voting_power_perm)
  let ?r = "order (full_rewards (vs_fees vs) proposer ?votes)" and ?r' = "order' (full_rewards (vs_fees vs) proposer ?votes')"
  have rewards: "mset ?r = mset ?r'"
    using assms(2,3) full_rewards_perm [OF ok] by (simp add: any_order_def)
  have rec_eq: "reward_record vm vs = reward_record vm ws"
    using assms(1) by (simp add: vs_agree_def reward_record_def fun_eq_iff)
  have no_err: "reward_record vm vs e \<noteq> Err err" for e err
    by (simp add: reward_record_def and_then_Err_iff split: prod.splits)
  have same: "outcome_rel (\<lambda>as bs. mset as = mset bs) (try_map (reward_record vm vs) ?r) (try_map (reward_record vm ws) ?r')"
    unfolding rec_eq [symmetric] by (rule try_map_reordered [OF rewards no_err])
  show ?thesis
  proof (cases "?votes' \<noteq> [] \<and> total_voting_power ?votes' = 0")
    case True
    then show ?thesis by (simp add: block_rewards_def Some other reward_map_eq ok(1,2) zero)
  next
    case False
    moreover from this have "\<not> (?votes \<noteq> [] \<and> total_voting_power ?votes = 0)" using zero by simp
    ultimately show ?thesis
      using same by (simp only: block_rewards_def Some other option.case reward_map_eq ok(1,2) if_False and_then.simps)
  qed
qed


section \<open>Handlers that agree\<close>

lemma agree_on_records:
  "agree (rs_agree contents) Q m n \<Longrightarrow> agree (app_agree contents) Q (on_records m) (on_records n)"
  by (fastforce simp: agree_def on_records_def app_agree_def case_prod_unfold)

lemma agree_on_programs:
  "agree (ps_agree contents) Q m n \<Longrightarrow> agree (app_agree contents) Q (on_programs m) (on_programs n)"
  by (fastforce simp: agree_def on_programs_def app_agree_def case_prod_unfold)

lemma agree_on_validators:
  "agree vs_agree Q m n \<Longrightarrow> agree (app_agree contents) Q (on_validators m) (on_validators n)"
  by (fastforce simp: agree_def on_validators_def app_agree_def case_prod_unfold)

lemma agree_locked:
  assumes "agree (app_agree contents) Q m n"
  shows "agree (app_agree contents) Q (locked m) (locked n)"
  unfolding agree_def
proof (intro allI impI)
  fix s t
  assume st: "app_agree contents s t"
  from agreeD [OF assms this] obtain r s' r' t' where runs: "m s = (r, s')" "n t = (r', t')"
    and out: "outcome_rel Q r r'" and st': "app_agree contents s' t'" by (metis prod.collapse)
  have poisoned: "app_agree contents (s'\<lparr>app_poisoned := True\<rparr>) (t'\<lparr>app_poisoned := True\<rparr>)"
    using st' by (simp add: app_agree_def)
  have lock: "app_poisoned t = app_poisoned s" using st by (simp add: app_agree_def)
  from out show "outcome_rel Q (fst (locked m s)) (fst (locked n t))
      \<and> app_agree contents (snd (locked m s)) (snd (locked n t))"
    by (cases rule: outcome_cases) (use runs st st' poisoned lock in \<open>simp_all add: locked_def\<close>)
qed

lemma agree_check_inputs:
  assumes "kv_working (e_kv env) contents"
  shows "agree (app_agree contents) (=) (check_inputs_are_unspent env tx) (check_inputs_are_unspent env tx)"
  unfolding check_inputs_are_unspent_def
proof (rule agree_each)
  fix n
  show "agree (app_agree contents) (=) (check_unspent env n) (check_unspent env n)"
    using unspent_agree [OF assms] by (auto simp: agree_def check_unspent_eq app_agree_def rs_agree_def)
qed

lemma agree_verify_transition:
  assumes "kv_working (e_kv env) contents"
  shows "agree (app_agree contents) (=) (verify_transition env tr) (verify_transition env tr)"
  unfolding verify_transition_def
  by (intro agree_then_eq [OF agree_on_programs [OF agree_get_program [OF assms]]] agree_pure_const)

text \<open>
  The checks of a deployment ask \<open>key_may_exist\<close>, whose answer may differ on nodes that store the
  same programs. \<open>checks_given\<close> are the checks with that answer as an argument: they agree when
  the answers do.
\<close>

fun asked :: "('db, 'f, 'er, 'tr, 'out) env \<Rightarrow> 'tr transaction \<Rightarrow> 'db app \<Rightarrow> bool result" where
  "asked env (Deployment i prog verifying_keys fee) s = program_exists (e_kv env) (prog_id prog) (app_programs s)"
| "asked env (Execution i ts) s = Ok False"

fun contents_given ::
  "('db, 'f, 'er, 'tr, 'out) env \<Rightarrow> bool result \<Rightarrow> 'tr transaction \<Rightarrow> ('db app, unit) action" where
  "contents_given env told (Deployment i prog verifying_keys fee) =
     act_then (pure_action (\<lambda>_. told)) (\<lambda>found.
     act_then (pure_action (\<lambda>_. ensure (\<not> found) (ProgramExists (prog_id prog)))) (\<lambda>_.
     act_then (case fee of Some transition \<Rightarrow> verify_transition env transition
               | None \<Rightarrow> pure_action (\<lambda>_. Ok ())) (\<lambda>_.
     pure_action (\<lambda>_. vm_verify_deployment (e_vm env) prog verifying_keys))))"
| "contents_given env told (Execution i ts) = validate_contents env (Execution i ts)"

definition checks_given ::
  "('db, 'f, 'er, 'tr, 'out) env \<Rightarrow> bool result \<Rightarrow> 'tr transaction \<Rightarrow> ('db app, unit) action" where
  "checks_given env told tx =
     act_then (pure_action (\<lambda>_. check_no_duplicate_records (e_vm env) tx)) (\<lambda>_.
     act_then (check_inputs_are_unspent env tx) (\<lambda>_.
     act_then (pure_action (\<lambda>_. verify (e_tx env) tx)) (\<lambda>_. contents_given env told tx)))"

lemma run_checks_given: "run_checks env tx s = checks_given env (asked env tx s) tx s"
proof -
  have "validate_contents env tx s = contents_given env (asked env tx s) tx s"
    by (cases tx) (simp_all add: act_then_def)
  then show ?thesis
    using check_inputs_unchanged [of env tx s]
    by (auto simp: run_checks_def checks_given_def validate_transaction_def act_then_def split: prod.splits result.splits)
qed

lemma agree_contents_given:
  assumes "kv_working (e_kv env) contents"
  shows "agree (app_agree contents) (=) (contents_given env told tx) (contents_given env told tx)"
proof (cases tx)
  case (Deployment i prog ks fee)
  have fee: "agree (app_agree contents) (=)
      (case fee of Some tr \<Rightarrow> verify_transition env tr | None \<Rightarrow> pure_action (\<lambda>_. Ok ()))
      (case fee of Some tr \<Rightarrow> verify_transition env tr | None \<Rightarrow> pure_action (\<lambda>_. Ok ()))"
    using agree_verify_transition [OF assms] by (cases fee) simp_all
  show ?thesis
    unfolding Deployment contents_given.simps
    by (intro agree_then_eq [OF agree_pure_const] agree_then_eq [OF fee] agree_pure_const)
next
  case (Execution i ts)
  have valid: "agree (app_agree contents) (=)
      (pure_action (\<lambda>s. try_each (validate (e_crypto env) (app_validators s)) us))
      (pure_action (\<lambda>s. try_each (validate (e_crypto env) (app_validators s)) us))" for us
  proof (intro agree_pure)
    fix s t
    assume "app_agree contents s t"
    then have "validate (e_crypto env) (app_validators s) = validate (e_crypto env) (app_validators t)"
      by (intro ext vs_agree_frames(4)) (simp add: app_agree_def)
    then show "outcome_rel (=) (try_each (validate (e_crypto env) (app_validators s)) us)
        (try_each (validate (e_crypto env) (app_validators t)) us)" by simp
  qed
  show ?thesis
    unfolding Execution contents_given.simps validate_contents.simps
    by (intro agree_then_eq [OF agree_pure_const] agree_locked agree_then_eq [OF valid] agree_each
        agree_verify_transition assms)
qed

lemma agree_checks_given:
  assumes "kv_working (e_kv env) contents"
  shows "agree (app_agree contents) (=) (checks_given env told tx) (checks_given env told tx)"
  unfolding checks_given_def
  by (intro agree_then_eq [OF agree_pure_const] agree_then_eq [OF agree_check_inputs [OF assms]] agree_contents_given assms)

lemma agree_apply_transaction:
  assumes "kv_working (e_kv env) contents"
  shows "agree (app_agree contents) (=) (apply_transaction env tx) (apply_transaction env tx)"
proof -
  have fee: "agree vs_agree (=) (\<lambda>vs. (Ok (), collect x vs)) (\<lambda>vs. (Ok (), collect x vs))" for x
    by (simp add: agree_def vs_agree_frames)
  have each: "agree vs_agree (=) (act_each (apply_update c) us) (act_each (apply_update c) us)" for c us
    by (intro agree_each agree_apply_update)
  have updates: "agree (app_agree contents) (=) (update_validators env tx) (update_validators env tx)"
    unfolding update_validators_def
    by (intro agree_locked agree_on_validators agree_then_eq [OF fee] agree_then_eq [OF agree_pure_const] each)
  have spends: "agree (app_agree contents) (=) (spend_input_records env tx) (spend_input_records env tx)"
    unfolding spend_input_records_def spend_as_key
    by (intro agree_each agree_on_records agree_spend_key assms)
  have adds: "agree (app_agree contents) (=) (add_output_records env tx) (add_output_records env tx)"
    unfolding add_output_records_def add_as_text
    by (intro agree_each) (auto intro: agree_on_records agree_add_text assms split: prod.splits)
  have "agree (app_agree contents) (=) (store_program env tx) (store_program env tx)"
    by (cases tx) (simp_all add: agree_on_programs agree_add_program assms)
  then show ?thesis
    unfolding apply_transaction_def
    by (intro agree_then_eq [OF agree_ignore [OF updates]] agree_then_eq [OF spends] agree_then_eq [OF adds])
qed

lemma agree_deliver:
  assumes "kv_working (e_kv env) contents" and "app_agree contents s t"
    and "\<And>tx. request = Some tx \<Longrightarrow> asked env tx s = asked env tx t"
  shows "outcome_rel (=) (fst (deliver_tx env request s)) (fst (deliver_tx env request t))
    \<and> app_agree contents (snd (deliver_tx env request s)) (snd (deliver_tx env request t))"
proof (cases request)
  case None
  then show ?thesis using assms(2) by (simp add: deliver_tx_def)
next
  case (Some tx)
  let ?both = "act_then (checks_given env (asked env tx s) tx) (\<lambda>_. apply_transaction env tx)"
  have given: "act_then (run_checks env tx) (\<lambda>_. apply_transaction env tx) u = ?both u"
    if "asked env tx u = asked env tx s" for u
    using run_checks_given [of env tx u] that by (simp add: act_then_def)
  have "agree (app_agree contents) (=) ?both ?both"
    by (intro agree_then_eq [OF agree_checks_given] agree_apply_transaction assms(1))
  from agreeD [OF this assms(2)] obtain r s' r' t' where
    runs: "?both s = (r, s')" "?both t = (r', t')"
    and out: "outcome_rel (=) r r'" and st: "app_agree contents s' t'" by (metis prod.collapse)
  have "act_then (run_checks env tx) (\<lambda>_. apply_transaction env tx) s = (r, s')"
    and "act_then (run_checks env tx) (\<lambda>_. apply_transaction env tx) t = (r', t')"
    using given [OF refl] given [OF assms(3) [OF Some, symmetric]] runs by simp_all
  then show ?thesis
    using out st Some by (cases rule: outcome_cases [OF out]) (simp_all add: deliver_tx_def)
qed


text \<open>The other handlers of the consensus connection.\<close>

lemma agree_begin_block: "agree (app_agree contents) (=) (app_begin_block header votes) (app_begin_block header votes)"
proof -
  have "agree vs_agree (=) (\<lambda>vs. (Ok (), begin_block p (hm_collect vts) h vs)) (\<lambda>vs. (Ok (), begin_block p (hm_collect vts) h vs))"
    for p h vts
    by (simp add: agree_def vs_agree_frames)
  then show ?thesis
    unfolding app_begin_block_def case_prod_unfold
    by (intro agree_then_eq [OF agree_pure_const] agree_locked agree_on_validators)
qed

lemma outcome_map_ok:
  "outcome_rel Q r r' \<Longrightarrow> (\<And>a b. Q a b \<Longrightarrow> Q' (f a) (g b)) \<Longrightarrow> outcome_rel Q' (map_ok f r) (map_ok g r')"
  by (erule outcome_cases) simp_all

lemma agree_end_block: "agree (app_agree contents) (\<lambda>as bs. mset as = mset bs) end_block end_block"
  unfolding end_block_def
proof (intro agree_locked agree_pure)
  fix s t
  assume "app_agree contents s t"
  then have "vs_agree (app_validators s) (app_validators t)" by (simp add: app_agree_def)
  from pending_updates_agree [OF this]
  show "outcome_rel (\<lambda>as bs. mset as = mset bs)
      (map_ok (map (\<lambda>v. (v_pub_key v, v_voting_power v))) (pending_updates (app_validators s)))
      (map_ok (map (\<lambda>v. (v_pub_key v, v_voting_power v))) (pending_updates (app_validators t)))"
    by (rule outcome_map_ok) simp
qed

lemma agree_info: "agree (app_agree contents) (=) (info env) (info env)"
  by (auto simp: agree_def info_def height_read_or_create_def app_agree_def split: height_file.splits)

lemma agree_height_increment: "agree (app_agree contents) (=) (height_increment env) (height_increment env)"
  by (auto simp: agree_def height_increment_def app_agree_def split: height_file.splits)

lemma agree_save_validators:
  "agree (app_agree contents) (=) (ignore_error (save_validators env)) (ignore_error (save_validators env'))"
  by (auto simp: agree_def ignore_error_def save_validators_def commit_validators_def app_agree_def Let_def
      split: prod.splits)

lemma agree_init_chain:
  assumes "kv_working (e_kv env) contents"
  shows "agree (app_agree contents) (=) (init_chain env request) (init_chain env request)"
proof -
  have expect: "outcome_rel (=) (expect_ok msg r) (expect_ok msg r')" if "outcome_rel (=) r r'" for msg and r r' :: "unit result"
    using that by (cases rule: outcome_cases) simp_all
  have "agree (app_agree contents) (=) (on_records (add (e_kv env) (e_vm env) cm r)) (on_records (add (e_kv env) (e_vm env) cm r))"
    for cm r
    unfolding add_as_text by (intro agree_on_records agree_add_text assms)
  then have one: "agree (app_agree contents) (=)
      (\<lambda>s. case on_records (add (e_kv env) (e_vm env) cm r) s of (q, t) \<Rightarrow> (expect_ok ''failure adding genesis records'' q, t))
      (\<lambda>s. case on_records (add (e_kv env) (e_vm env) cm r) s of (q, t) \<Rightarrow> (expect_ok ''failure adding genesis records'' q, t))"
    for cm r
    unfolding agree_def by (simp add: case_prod_unfold expect)
  have "agree vs_agree (=) (\<lambda>vs. (Ok (), replace c l vs)) (\<lambda>vs. (Ok (), replace c l vs))" for c l
    by (simp add: agree_def vs_agree_frames)
  then show ?thesis
    unfolding init_chain_def case_prod_unfold
    by (intro agree_then_eq [OF agree_pure_const] agree_then_eq agree_each agree_locked agree_on_validators
        one [unfolded case_prod_unfold])
qed


section \<open>The rewards of a commit\<close>

text \<open>
  The order in which the rewards are added matters only when two records share a commitment,
  which a binding commitment scheme excludes.
\<close>

definition mint_binding :: "('f, 'er, 'tr, 'out) vm_backend \<Rightarrow> bool" where
  "mint_binding vm \<longleftrightarrow> (\<forall>a m b n seed ca ra cb rb.
     vm_mint_record vm ''credits.aleo'' ''credits'' a m seed = Ok (ca, ra) \<and>
     vm_mint_record vm ''credits.aleo'' ''credits'' b n seed = Ok (cb, rb) \<and>
     vm_field_to_string vm ca = vm_field_to_string vm cb \<longrightarrow>
     vm_record_to_string vm ra = vm_record_to_string vm rb)"

lemma mint_bindingD:
  assumes "mint_binding vm"
    and "vm_mint_record vm ''credits.aleo'' ''credits'' a m seed = Ok (ca, ra)"
    and "vm_mint_record vm ''credits.aleo'' ''credits'' b n seed = Ok (cb, rb)"
    and "vm_field_to_string vm ca = vm_field_to_string vm cb"
  shows "vm_record_to_string vm ra = vm_record_to_string vm rb"
  using assms unfolding mint_binding_def by blast

definition one_text :: "(string \<times> string) list \<Rightarrow> bool" where
  "one_text krs \<longleftrightarrow> (\<forall>k r r'. (k, r) \<in> set krs \<and> (k, r') \<in> set krs \<longrightarrow> r = r')"

lemma one_text_map_of:
  assumes "one_text krs" and "set krs' = set krs"
  shows "map_of krs' = map_of krs"
proof
  fix k
  show "map_of krs' k = map_of krs k"
  proof (cases "map_of krs k")
    case None
    then have "k \<notin> fst ` set krs'" using assms(2) by (simp add: map_of_eq_None_iff)
    with None show ?thesis by (metis map_of_eq_None_iff)
  next
    case (Some r)
    then have "(k, r) \<in> set krs'" using map_of_SomeD assms(2) by metis
    then obtain r' where "map_of krs' k = Some r'" by (metis weak_map_of_SomeI)
    with Some assms show ?thesis unfolding one_text_def by (metis map_of_SomeD)
  qed
qed

abbreviation reward_texts ::
  "('f, 'er, 'tr, 'out) vm_backend \<Rightarrow> ('f \<times> 'er) list \<Rightarrow> (string \<times> string) list" where
  "reward_texts vm \<equiv> map (\<lambda>(cm, r). (vm_field_to_string vm cm, vm_record_to_string vm r))"

lemma block_rewards_one_text:
  assumes "mint_binding vm" and "block_rewards vm order vs = Ok rewards"
  shows "one_text (reward_texts vm rewards)"
proof -
  have minted: "\<exists>a m. vm_mint_record vm ''credits.aleo'' ''credits'' a m (vs_current_height vs) = Ok x"
    if elem: "x \<in> set rewards" for x
  proof -
    from assms(2) elem obtain es where "try_map (reward_record vm vs) es = Ok rewards"
      by (auto simp: block_rewards_def and_then_Ok_iff split: option.splits)
    then have "list_all2 (\<lambda>e y. reward_record vm vs e = Ok y) es rewards" by (simp add: try_map_Ok_iff)
    moreover obtain i where "i < length rewards" "x = rewards ! i" using elem by (metis in_set_conv_nth)
    ultimately have "reward_record vm vs (es ! i) = Ok x" by (auto dest: list_all2_nthD2)
    then show ?thesis
      by (auto simp: reward_record_def and_then_Ok_iff expect_ok_Ok_iff split: prod.splits)
  qed
  show ?thesis
    unfolding one_text_def
  proof (intro allI impI, elim conjE)
    fix k r r'
    assume "(k, r) \<in> set (reward_texts vm rewards)" and "(k, r') \<in> set (reward_texts vm rewards)"
    then obtain ca ra cb rb where x: "(ca, ra) \<in> set rewards" "(cb, rb) \<in> set rewards"
      and texts: "vm_field_to_string vm ca = k" "vm_field_to_string vm cb = k"
        "r = vm_record_to_string vm ra" "r' = vm_record_to_string vm rb"
      by auto
    from minted [OF x(1)] minted [OF x(2)] obtain a m b n where
      "vm_mint_record vm ''credits.aleo'' ''credits'' a m (vs_current_height vs) = Ok (ca, ra)"
      "vm_mint_record vm ''credits.aleo'' ''credits'' b n (vs_current_height vs) = Ok (cb, rb)" by blast
    from mint_bindingD [OF assms(1) this] texts show "r = r'" by simp
  qed
qed

text \<open>The buffer after the rewards are added: what was there, and the new keys.\<close>

lemma add_rewards_effect:
  assumes "rs_alive s"
  shows "\<exists>buffer. act_each (\<lambda>(k, r). ignore_error (add_text ops field k r)) krs s
      = (Ok (), s\<lparr>rs_record_buffer := buffer\<rparr>)
    \<and> map_of buffer = (\<lambda>k. if map_of (rs_record_buffer s) k = None \<and> \<not> key_exists_or_fails ops (rs_db_records s) k
        then map_of krs k else map_of (rs_record_buffer s) k)
    \<and> (hm_ok (rs_record_buffer s) \<longrightarrow> hm_ok buffer)"
  using assms
proof (induction krs arbitrary: s)
  case Nil
  show ?case by (intro exI [of _ "rs_record_buffer s"]) (auto simp: fun_eq_iff)
next
  case (Cons kr krs)
  obtain k r where kr: "kr = (k, r)" by force
  let ?known = "hm_contains (rs_record_buffer s) k \<or> key_exists_or_fails ops (rs_db_records s) k"
  define b where "b = (if ?known then rs_record_buffer s else hm_insert k r (rs_record_buffer s))"
  have one: "ignore_error (add_text ops field k r) s = (Ok (), s\<lparr>rs_record_buffer := b\<rparr>)"
    using Cons.prems by (simp add: ignore_error_def add_text_eq handle_add_def b_def)
  from Cons.IH [of "s\<lparr>rs_record_buffer := b\<rparr>"] Cons.prems obtain buffer where
    rest: "act_each (\<lambda>(k, r). ignore_error (add_text ops field k r)) krs (s\<lparr>rs_record_buffer := b\<rparr>)
      = (Ok (), s\<lparr>rs_record_buffer := buffer\<rparr>)"
    and buf: "map_of buffer = (\<lambda>x. if map_of b x = None \<and> \<not> key_exists_or_fails ops (rs_db_records s) x
        then map_of krs x else map_of b x)"
    and ok: "hm_ok b \<longrightarrow> hm_ok buffer"
    by (auto cong: if_cong)
  have "map_of buffer = (\<lambda>x. if map_of (rs_record_buffer s) x = None \<and> \<not> key_exists_or_fails ops (rs_db_records s) x
        then map_of (kr # krs) x else map_of (rs_record_buffer s) x)"
    using buf kr by (auto simp: fun_eq_iff hm_contains_def b_def)
  moreover have "act_each (\<lambda>(k, r). ignore_error (add_text ops field k r)) (kr # krs) s
      = (Ok (), s\<lparr>rs_record_buffer := buffer\<rparr>)"
    using one rest kr by (simp add: act_then_def)
  moreover have "hm_ok (rs_record_buffer s) \<longrightarrow> hm_ok buffer" using ok by (simp add: b_def)
  ultimately show ?case by blast
qed

lemma add_rewards_dead:
  "\<not> rs_alive s \<Longrightarrow> act_each (\<lambda>(k, r). ignore_error (add_text ops field k r)) krs s = (Ok (), s)"
  by (induction krs) (auto simp: act_then_def ignore_error_def add_text_eq)

lemma agree_add_rewards:
  assumes "kv_working (e_kv env) contents"
    and "mset rewards = mset rewards'" and "one_text (reward_texts (e_vm env) rewards)"
  shows "agree (app_agree contents) (=)
    (act_each (\<lambda>(cm, r). ignore_error (on_records (add (e_kv env) (e_vm env) cm r))) rewards)
    (act_each (\<lambda>(cm, r). ignore_error (on_records (add (e_kv env) (e_vm env) cm r))) rewards')"
  unfolding ext [OF rewards_as_texts]
proof (rule agree_on_records, unfold agree_def, intro allI impI)
  fix s t
  assume st: "rs_agree contents s t"
  let ?run = "\<lambda>krs. act_each (\<lambda>(k, r). ignore_error (add_text (e_kv env) (vm_field_from_string (e_vm env)) k r)) krs"
  have "set rewards' = set rewards" using assms(2) by (metis mset_eq_setD)
  then have same: "map_of (reward_texts (e_vm env) rewards') = map_of (reward_texts (e_vm env) rewards)"
    by (intro one_text_map_of assms) simp
  show "outcome_rel (=) (fst (?run (reward_texts (e_vm env) rewards) s)) (fst (?run (reward_texts (e_vm env) rewards') t))
    \<and> rs_agree contents (snd (?run (reward_texts (e_vm env) rewards) s)) (snd (?run (reward_texts (e_vm env) rewards') t))"
  proof (cases "rs_alive s")
    case True
    then have "rs_alive t" using st by (simp add: rs_agree_def)
    from add_rewards_effect [OF True, of "e_kv env" "vm_field_from_string (e_vm env)" "reward_texts (e_vm env) rewards"]
      add_rewards_effect [OF this, of "e_kv env" "vm_field_from_string (e_vm env)" "reward_texts (e_vm env) rewards'"]
    show ?thesis
      using st same exists_agree(1) [OF assms(1) st] by (auto simp: rs_agree_def rs_inv_def)
  next
    case False
    with st show ?thesis by (simp add: add_rewards_dead rs_agree_def)
  qed
qed


section \<open>Histories of replicas\<close>

text \<open>
  Two environments of the same program: the iteration orders of the reward maps may differ, and
  so may the disks on which the validators file is kept.
\<close>

definition replica :: "('db, 'f, 'er, 'tr, 'out) env \<Rightarrow> ('db, 'f, 'er, 'tr, 'out) env \<Rightarrow> bool" where
  "replica env env' \<longleftrightarrow> any_order (e_order env) \<and> any_order (e_order env')
     \<and> env' = env\<lparr>e_order := e_order env', e_io := e_io env'\<rparr>"

lemma replica_same:
  assumes "replica env env'"
  shows "e_vm env' = e_vm env" "e_crypto env' = e_crypto env" "e_tx env' = e_tx env" "e_kv env' = e_kv env"
    "e_bincode env' = e_bincode env" "e_height_writable env' = e_height_writable env"
proof -
  have eq: "env' = env\<lparr>e_order := e_order env', e_io := e_io env'\<rparr>" using assms by (simp add: replica_def)
  show "e_vm env' = e_vm env" "e_crypto env' = e_crypto env" "e_tx env' = e_tx env" "e_kv env' = e_kv env"
    "e_bincode env' = e_bincode env" "e_height_writable env' = e_height_writable env"
    by (subst eq, simp)+
qed

lemma agree_app_commit:
  assumes "kv_working (e_kv env) contents" and "mint_binding (e_vm env)" and "replica env env'"
  shows "agree (app_agree contents) (=) (app_commit env) (app_commit env')"
proof -
  let ?Q = "\<lambda>as bs. mset as = mset bs \<and> one_text (reward_texts (e_vm env) as)"
  have rewards: "agree (app_agree contents) ?Q
      (pure_action (\<lambda>s. block_rewards (e_vm env) (e_order env) (app_validators s)))
      (pure_action (\<lambda>s. block_rewards (e_vm env) (e_order env') (app_validators s)))"
  proof (rule agree_pure)
    fix s t
    assume "app_agree contents s t"
    then have "vs_agree (app_validators s) (app_validators t)" by (simp add: app_agree_def)
    from block_rewards_agree [OF this, of "e_order env" "e_order env'" "e_vm env"] assms(3)
    show "outcome_rel ?Q (block_rewards (e_vm env) (e_order env) (app_validators s))
        (block_rewards (e_vm env) (e_order env') (app_validators t))"
      using block_rewards_one_text [OF assms(2), of "e_order env" "app_validators s"]
      by (auto simp: replica_def elim!: outcome_cases)
  qed
  have height: "height_increment env' = height_increment env"
    by (rule ext) (simp add: height_increment_def replica_same [OF assms(3)] split: height_file.splits)
  show ?thesis
    unfolding app_commit_def replica_same [OF assms(3)] height
    by (intro agree_then_eq [OF agree_ignore [OF agree_on_records [OF agree_commit [OF assms(1)]]]]
        agree_then_eq [OF agree_height_increment] agree_locked agree_then [OF rewards])
      (intro agree_then_eq agree_add_rewards agree_save_validators agree_pure_const assms(1), auto)
qed


text \<open>Only a commit looks at what replicas may differ in.\<close>

lemma replica_run_checks:
  assumes "replica env env'"
  shows "run_checks env' = run_checks env"
proof -
  note same = replica_same [OF assms]
  have ver: "verify_transition env' = verify_transition env"
    by (rule ext) (simp only: verify_transition_def same)
  have unspent: "check_unspent env' = check_unspent env"
    by (intro ext) (simp only: check_unspent_def same)
  have "validate_contents env' tx = validate_contents env tx" for tx
    by (cases tx) (simp_all only: validate_contents.simps ver same)
  then show ?thesis
    by (intro ext) (simp only: run_checks_def check_inputs_are_unspent_def validate_transaction_def unspent same)
qed

lemma replica_deliver:
  assumes "replica env env'"
  shows "deliver_tx env' = deliver_tx env"
proof -
  note same = replica_same [OF assms]
  have "store_program env' tx = store_program env tx" for tx by (cases tx) (simp_all add: same)
  then have store: "store_program env' = store_program env" by (rule ext)
  have "apply_transaction env' = apply_transaction env"
    by (rule ext) (simp only: apply_transaction_def update_validators_def spend_input_records_def
        add_output_records_def same store)
  then show ?thesis by (intro ext) (simp only: deliver_tx_def replica_run_checks [OF assms] same)
qed

lemma replica_frame:
  assumes "replica env env'"
  shows "init_chain env' = init_chain env" and "info env' = info env"
  by (simp_all add: fun_eq_iff init_chain_def info_def height_read_or_create_def replica_same [OF assms]
      split: height_file.splits)

text \<open>
  The one answer that nodes in agreeing states may get differently: whether the program of a
  delivered deployment may exist.
\<close>

fun same_answer :: "('db, 'f, 'er, 'tr, 'out) env \<Rightarrow> ('f, 'er, 'tr) request \<Rightarrow> 'db app \<Rightarrow> 'db app \<Rightarrow> bool" where
  "same_answer env (DeliverTx (Some (Deployment i prog verifying_keys fee))) s t \<longleftrightarrow>
     kv_may_exist (e_kv env) (ps_db (app_programs s)) (prog_id prog)
       = kv_may_exist (e_kv env) (ps_db (app_programs t)) (prog_id prog)"
| "same_answer env _ s t \<longleftrightarrow> True"

fun same_answers ::
  "('db, 'f, 'er, 'tr, 'out) env \<Rightarrow> ('db, 'f, 'er, 'tr, 'out) env \<Rightarrow> ('f, 'er, 'tr) request list \<Rightarrow>
   'db app \<Rightarrow> 'db app \<Rightarrow> bool" where
  "same_answers env env' [] s t \<longleftrightarrow> True"
| "same_answers env env' (r # rs) s t \<longleftrightarrow> same_answer env r s t
     \<and> same_answers env env' rs (snd (handle_request env r s)) (snd (handle_request env' r t))"

lemma same_answer_asked:
  assumes "app_agree contents s t" and "same_answer env (DeliverTx (Some tx)) s t"
  shows "asked env tx s = asked env tx t"
  using assms by (cases tx) (simp_all add: program_exists_def app_agree_def ps_agree_def)

lemma replica_request:
  assumes "kv_working (e_kv env) contents" and "mint_binding (e_vm env)" and "replica env env'"
    and "app_agree contents s t" and "consensus_request r" and "same_answer env r s t"
  shows "fst (handle_request env r s) = fst (handle_request env' r t)
    \<and> app_agree contents (snd (handle_request env r s)) (snd (handle_request env' r t))"
proof (cases r)
  case (DeliverTx request)
  have answers: "asked env tx s = asked env tx t" if "request = Some tx" for tx
    using same_answer_asked [OF assms(4)] assms(6) that DeliverTx by simp
  from agree_deliver [OF assms(1,4), of request, OF answers] show ?thesis
    unfolding DeliverTx handle_request.simps replica_deliver [OF assms(3)]
    by (auto simp: case_prod_unfold elim!: outcome_cases split: result.splits deliver_response.splits)
next
  case Commit
  then show ?thesis using agreeD [OF agree_app_commit [OF assms(1-3)] assms(4)] by simp
next
  case (BeginBlock header votes)
  then show ?thesis using agreeD [OF agree_begin_block assms(4)] by simp
next
  case EndBlock
  then show ?thesis using agreeD [OF agree_end_block assms(4)] by simp
next
  case Info
  then show ?thesis using agreeD [OF agree_info [where env = env] assms(4)] by (simp add: replica_frame [OF assms(3)])
next
  case (InitChain g)
  then show ?thesis
    using agreeD [OF agree_init_chain [OF assms(1)] assms(4), of g] by (simp add: replica_frame [OF assms(3)])
qed (use assms(5) in simp_all)

lemma replica_history:
  assumes "kv_working (e_kv env) contents" and "mint_binding (e_vm env)" and "replica env env'"
    and "app_agree contents s t" and "list_all consensus_request rs" and "same_answers env env' rs s t"
  shows "fst (run_requests env rs s) = fst (run_requests env' rs t)
    \<and> app_agree contents (snd (run_requests env rs s)) (snd (run_requests env' rs t))"
  using assms(4-6)
proof (induction rs arbitrary: s t)
  case (Cons r rs)
  then have "consensus_request r" "same_answer env r s t" by simp_all
  note step = replica_request [OF assms(1-3) Cons.prems(1) this]
  with Cons.IH [of "snd (handle_request env r s)" "snd (handle_request env' r t)"] Cons.prems(2,3)
  show ?case by (simp add: run_requests.simps(2) case_prod_unfold)
qed simp


section \<open>Properties\<close>

text \<open>C2. Replicas agree: two nodes in agreeing states whose consensus connections carry the same
  requests deliver the same transactions, end in agreeing states and report the same validator
  updates up to their order, whatever the iteration orders of their hash maps and whether or not
  they manage to write the validators file. What their mempools and queries carry is free, as
  long as no checked transaction makes the extraction of its staking updates panic and the
  deployments can be encoded. The databases are on disks that work and commitments are binding;
  \<open>key_may_exist\<close> may have false positives, as long as both nodes get the same answer for the
  program of each deployment that is delivered.\<close>
theorem replicas_agree:
  assumes "kv_working (e_kv env) contents" and "bincode_law (e_bincode env)"
    and "text_codec (vm_field_to_string (e_vm env)) (vm_field_from_string (e_vm env))"
    and "vm_contract (e_vm env)" and "mint_binding (e_vm env)" and "replica env env'"
    and "app_agree contents s t" and "node_form env contents s" and "node_form env contents t"
    and "list_all (deployment_encodable (e_bincode env)) rs" and "list_all (harmless_check env) rs"
    and "list_all (deployment_encodable (e_bincode env)) qs" and "list_all (harmless_check env) qs"
    and "filter consensus_request rs = filter consensus_request qs"
    and "same_answers env env' (filter consensus_request rs) s t"
  shows "fst (run_requests env rs s) = fst (run_requests env' qs t)
    \<and> app_agree contents (snd (run_requests env rs s)) (snd (run_requests env' qs t))
    \<and> outcome_rel (\<lambda>ups ups'. mset ups = mset ups')
        (fst (end_block (snd (run_requests env rs s)))) (fst (end_block (snd (run_requests env' qs t))))"
proof -
  note laws = working_laws [OF assms(1)] working_available [OF assms(1)] assms(2-4)
  note same = replica_same [OF assms(6)]
  have "node_form env' contents t" using assms(9) by (simp add: node_form_def same)
  moreover have "list_all (harmless_check env') qs"
    by (rule list.pred_mono_strong [OF assms(13)]) (auto simp: same elim!: harmless_check.elims)
  ultimately have "run_requests env' qs t = run_requests env' (filter consensus_request qs) t"
    using mempool_history [of env' contents t qs] laws assms(12) by (simp add: same)
  moreover have "run_requests env rs s = run_requests env (filter consensus_request rs) s"
    by (rule mempool_history [OF laws assms(8,10,11)])
  moreover have "list_all consensus_request (filter consensus_request qs)" by (simp add: list_all_iff)
  note both = replica_history [OF assms(1,5,6,7) this assms(15) [unfolded assms(14)]]
  moreover note agreeD [OF agree_end_block conjunct2 [OF both]]
  ultimately show ?thesis using assms(14) by simp
qed

text \<open>C24. Nodes can disagree on a deployment: whether a program exists is asked with
  \<open>key_may_exist\<close>, which may say yes for a key that is absent, depending on how the node laid
  out its files. Of two nodes in agreeing states the one with a false positive rejects the
  deployment that the other one delivers, and their program stores are different from then on.\<close>
theorem may_exist_forks:
  assumes "kv_laws (e_kv env) contents" and "kv_available (e_kv env)" and "app_agree contents s t"
    and "ps_alive (app_programs s)" and "\<not> app_poisoned s"
    and "contents (ps_db (app_programs s)) (prog_id prog) = None"
    and "\<not> kv_may_exist (e_kv env) (ps_db (app_programs s)) (prog_id prog)"
    and "kv_may_exist (e_kv env) (ps_db (app_programs t)) (prog_id prog)"
    and "verify (e_tx env) (Deployment i prog ks None) = Ok ()" and "vm_verify_deployment (e_vm env) prog ks = Ok ()"
    and "bc_serialize (e_bincode env) (prog, ks) = Some raw"
    and "fst (kv_write (e_kv env) (ps_db (app_programs s)) [(prog_id prog, raw)])"
  shows "\<exists>s'. deliver_tx env (Some (Deployment i prog ks None)) s = (Ok (Delivered i), s')
    \<and> deliver_tx env (Some (Deployment i prog ks None)) t = (Ok (DeliverFailed (ProgramExists (prog_id prog))), t)
    \<and> \<not> app_agree contents s' t"
proof -
  let ?tx = "Deployment i prog ks None"
  let ?vs = "collect 0 (app_validators s)"
  let ?ps = "app_programs s\<lparr>ps_db := snd (kv_write (e_kv env) (ps_db (app_programs s)) [(prog_id prog, raw)])\<rparr>"
  have alive: "ps_alive (app_programs t)" "contents (ps_db (app_programs t)) (prog_id prog) = None"
    using assms(3,4,6) by (simp_all add: app_agree_def ps_agree_def)
  have none: "record_serial_numbers (e_vm env) ?tx = []" "output_records (e_vm env) ?tx = []"
    by (simp_all add: record_serial_numbers_def output_records_def)
  have inputs: "check_no_duplicate_records (e_vm env) ?tx = Ok ()" "check_inputs_are_unspent env ?tx u = (Ok (), u)" for u
    by (simp_all add: check_no_duplicates_Ok_iff check_inputs_Ok_iff none)
  have checks: "run_checks env ?tx s = (Ok (), s)"
    "run_checks env ?tx t = (Err (ProgramExists (prog_id prog)), t)"
    using assms(4,7-10) alive inputs
    by (simp_all add: run_checks_def validate_transaction_def act_then_def program_exists_def ensure_def)
  have upd: "ignore_error (update_validators env ?tx) s = (Ok (), s\<lparr>app_validators := ?vs\<rparr>)"
    using update_validators_eq [of env ?tx "[]" s] assms(5) by (simp add: ignore_error_def)
  have put: "add_program (e_kv env) (e_bincode env) (prog_id prog) prog ks (app_programs s) = (Ok (), ?ps)"
    using add_program_outcome [OF assms(1,2,4,11)] assms(6) by simp
  let ?s = "s\<lparr>app_validators := ?vs, app_programs := ?ps\<rparr>"
  have "apply_transaction env ?tx s = (Ok (), ?s)"
    using upd put by (simp add: apply_transaction_def act_then_def spend_input_records_def add_output_records_def
        none on_programs_def)
  then have "deliver_tx env (Some ?tx) s = (Ok (Delivered i), ?s)"
    and "deliver_tx env (Some ?tx) t = (Ok (DeliverFailed (ProgramExists (prog_id prog))), t)"
    using checks by (simp_all add: deliver_tx_def act_then_def)
  moreover have "contents (ps_db ?ps) (prog_id prog) = Some raw"
    using put_contents [OF assms(1)] assms(12) by simp
  then have "\<not> app_agree contents ?s t" using alive(2) by (auto simp: app_agree_def ps_agree_def)
  ultimately show ?thesis by blast
qed


section \<open>Witnesses\<close>

text \<open>A second node: the validators in another order, another iteration order, a full disk.\<close>

definition other_node :: "(string \<times> string) list app" where
  "other_node = sample_app\<lparr>app_validators := sample_set\<lparr>vs_validators := rev (vs_validators sample_set)\<rparr>\<rparr>"

definition other_env ::
  "((string \<times> string) list, string, string, lambda_transition, variable_type) env" where
  "other_env = sample_env\<lparr>e_order := rev, e_io := sample_io\<lparr>io_write := (\<lambda>file json. (False, file))\<rparr>\<rparr>"

lemma sample_mint_binding: "mint_binding sample_vm"
  by (auto simp: mint_binding_def lambda_backend_def Vm_Lambda.mint_record_def sample_crate_def)

lemma sample_replica: "replica sample_env other_env"
  by (simp add: replica_def other_env_def any_order_def)

lemma sample_nodes_agree: "app_agree map_of sample_app other_node"
  by (auto simp: app_agree_def rs_agree_def ps_agree_def vs_agree_def other_node_def rs_inv_def sample_set_def
      hm_ok_def fun_eq_iff sample_app_def sample_store_def new_record_store_def)

theorem replicas_agree_witness:
  "fst (run_requests sample_env [CheckTx (Some (sample_calls [fee_call])), BeginBlock (Some (sample_address 1, 7)) None,
       DeliverTx (Some (sample_calls [fee_call])), EndBlock, Commit] sample_app)
   = fst (run_requests other_env [BeginBlock (Some (sample_address 1, 7)) None, Query (Some GetRecords),
       DeliverTx (Some (sample_calls [fee_call])), EndBlock, Commit] other_node)"
proof -
  let ?rs = "[CheckTx (Some (sample_calls [fee_call])), BeginBlock (Some (sample_address 1, 7)) None,
       DeliverTx (Some (sample_calls [fee_call])), EndBlock, Commit]"
  let ?qs = "[BeginBlock (Some (sample_address 1, 7)) None, Query (Some GetRecords),
       DeliverTx (Some (sample_calls [fee_call])), EndBlock, Commit]"
  have encodable: "list_all (deployment_encodable (e_bincode sample_env)) ?rs"
    "list_all (deployment_encodable (e_bincode sample_env)) ?qs"
    by (simp_all add: sample_calls_def sample_tx_def)
  have harmless: "list_all (harmless_check sample_env) ?rs" "list_all (harmless_check sample_env) ?qs"
    using sample_updates(1) by simp_all
  have alike: "same_answers sample_env other_env (filter consensus_request ?rs) sample_app other_node"
    by (simp add: sample_calls_def sample_tx_def)
  have form: "node_form sample_env map_of other_node"
    using sample_node_form by (simp add: node_form_def other_node_def)
  have "bincode_law (e_bincode sample_env)" "mint_binding (e_vm sample_env)" "vm_contract (e_vm sample_env)"
    using staking_bincode_law sample_mint_binding lambda_vm.vm_contract_axioms by simp_all
  moreover have "kv_working (e_kv sample_env) map_of"
    "text_codec (vm_field_to_string (e_vm sample_env)) (vm_field_from_string (e_vm sample_env))"
    using memory_kv_working sample_field_codec by simp_all
  ultimately show ?thesis
    using replicas_agree [OF _ _ _ _ _ sample_replica sample_nodes_agree sample_node_form form encodable(1)
        harmless(1) encodable(2) harmless(2)] alike by simp
qed

text \<open>A database whose filter has false positives once two entries were written.\<close>

definition filter_kv :: "(string \<times> string) list kv_ops" where
  "filter_kv = memory_kv\<lparr>kv_may_exist := (\<lambda>db k. map_of db k \<noteq> None \<or> 1 < length db)\<rparr>"

lemma filter_kv_laws: "kv_laws filter_kv map_of"
  by (auto simp: kv_laws_def kv_get_law_def kv_write_law_def kv_iterator_law_def kv_may_exist_law_def
      filter_kv_def memory_kv_def clearjunk_entry image_iff)

definition forked_env ::
  "((string \<times> string) list, string, string, lambda_transition, variable_type) env" where
  "forked_env = sample_env\<lparr>e_kv := filter_kv, e_bincode := sample_bincode\<lparr>bc_serialize := (\<lambda>p. Some ''p'')\<rparr>\<rparr>"

definition node_with_programs :: "(string \<times> string) list \<Rightarrow> (string \<times> string) list app" where
  "node_with_programs db = sample_app\<lparr>app_programs := \<lparr>ps_alive = True, ps_db = db\<rparr>\<rparr>"

theorem may_exist_forks_witness:
  "\<exists>i s'. deliver_tx forked_env (Some (Deployment i fee_program [(''fee'', VerifyingKey ''vk'')] None))
      (node_with_programs [(''a'', ''p'')]) = (Ok (Delivered i), s')
    \<and> deliver_tx forked_env (Some (Deployment i fee_program [(''fee'', VerifyingKey ''vk'')] None))
      (node_with_programs [(''a'', ''p''), (''a'', ''p'')])
      = (Ok (DeliverFailed (ProgramExists ''credits.aleo'')), node_with_programs [(''a'', ''p''), (''a'', ''p'')])
    \<and> \<not> app_agree map_of s' (node_with_programs [(''a'', ''p''), (''a'', ''p'')])"
proof -
  let ?ks = "[(''fee'', VerifyingKey ''vk'')]"
  obtain i where i: "tx_hash sample_tx_crate (Deployment ''x'' fee_program ?ks None) = Ok i"
    by (simp add: tx_hash_def sample_tx_crate_def)
  have agree: "app_agree map_of (node_with_programs [(''a'', ''p'')]) (node_with_programs [(''a'', ''p''), (''a'', ''p'')])"
    using sample_nodes_agree
    by (auto simp: app_agree_def ps_agree_def rs_agree_def vs_agree_def fun_eq_iff node_with_programs_def)
  have "verify sample_tx_crate (Deployment i fee_program ?ks None) = Ok ()"
    using i by (simp add: verify_def tx_hash_def)
  moreover have "verify_deployment fee_program ?ks = Ok ()"
    by (simp add: verify_deployment_def fee_program_def)
  moreover have "kv_available filter_kv" by (simp add: filter_kv_def kv_available_def)
  ultimately have "\<exists>s'. deliver_tx forked_env (Some (Deployment i fee_program ?ks None))
        (node_with_programs [(''a'', ''p'')]) = (Ok (Delivered i), s')
      \<and> deliver_tx forked_env (Some (Deployment i fee_program ?ks None)) (node_with_programs [(''a'', ''p''), (''a'', ''p'')])
        = (Ok (DeliverFailed (ProgramExists (prog_id fee_program))), node_with_programs [(''a'', ''p''), (''a'', ''p'')])
      \<and> \<not> app_agree map_of s' (node_with_programs [(''a'', ''p''), (''a'', ''p'')])"
    using filter_kv_laws
    by (intro may_exist_forks [OF _ _ agree, where raw = "''p''"])
      (simp_all add: fee_program_def filter_kv_def lambda_backend_def forked_env_def node_with_programs_def)
  then show ?thesis by (auto simp: fee_program_def)
qed

end
