(* ===== verification/Test_Harness.thy ===== *)
theory Test_Harness
  imports Prelude
begin

text \<open>
  What the unit tests of the program are made of: the macros of the standard library, straight
  line bodies, and a rule of total correctness for such bodies. A test passes when it returns:
  every failed assertion and every \<open>unwrap\<close> of an error is a panic.
\<close>

section \<open>Assertions\<close>

text \<open>\<open>assert!\<close>, \<open>assert_eq!\<close> and \<open>assert_ne!\<close>.\<close>

definition assert_that :: "bool \<Rightarrow> unit result" where
  "assert_that b = (if b then Ok () else Panic ''assertion failed'')"

definition assert_eq :: "'a \<Rightarrow> 'a \<Rightarrow> unit result" where
  "assert_eq a b = assert_that (a = b)"

definition assert_ne :: "'a \<Rightarrow> 'a \<Rightarrow> unit result" where
  "assert_ne a b = assert_that (a \<noteq> b)"

text \<open>\<open>unwrap\<close> and \<open>unwrap_err\<close>.\<close>

abbreviation unwrap :: "'a result \<Rightarrow> 'a result" where
  "unwrap \<equiv> expect_ok ''called unwrap on an error''"

fun unwrap_err :: "'a result \<Rightarrow> error result" where
  "unwrap_err (Ok a) = Panic ''called unwrap_err on a value''"
| "unwrap_err (Err e) = Ok e"
| "unwrap_err (Panic p) = Panic p"

lemma assert_simps [simp]:
  "assert_that True = Ok ()" "assert_that False = Panic ''assertion failed''"
  "assert_eq a a = Ok ()" "a \<noteq> b \<Longrightarrow> assert_ne a b = Ok ()"
  by (simp_all add: assert_that_def assert_eq_def assert_ne_def)

lemma assert_that_Ok_iff [result_elims]: "assert_that b = Ok u \<longleftrightarrow> b"
  by (simp add: assert_that_def)

lemma assert_eq_Ok_iff [result_elims]: "assert_eq a b = Ok u \<longleftrightarrow> a = b"
  by (simp add: assert_eq_def assert_that_Ok_iff)


section \<open>Statements\<close>

text \<open>The same on a method call: its outcome goes through \<open>f\<close>, its effect stays.\<close>

definition outcome :: "('a result \<Rightarrow> 'b result) \<Rightarrow> ('s, 'a) action \<Rightarrow> ('s, 'b) action" where
  "outcome f m s = (case m s of (r, t) \<Rightarrow> (f r, t))"

text \<open>\<open>m.unwrap();\<close>, an assertion on the value of a call, and on the error of a call.\<close>

abbreviation unwrapped :: "('s, 'a) action \<Rightarrow> ('s, unit) action" where
  "unwrapped \<equiv> outcome (\<lambda>r. and_then (unwrap r) (\<lambda>_. Ok ()))"

abbreviation asserting :: "('a \<Rightarrow> bool) \<Rightarrow> ('s, 'a) action \<Rightarrow> ('s, unit) action" where
  "asserting P \<equiv> outcome (\<lambda>r. and_then (unwrap r) (\<lambda>a. assert_that (P a)))"

abbreviation failing_with :: "error \<Rightarrow> ('s, 'a) action \<Rightarrow> ('s, unit) action" where
  "failing_with e \<equiv> outcome (\<lambda>r. and_then (unwrap_err r) (assert_eq e))"

definition statements :: "('s, unit) action list \<Rightarrow> ('s, unit) action" where
  "statements = act_each (\<lambda>statement. statement)"

lemma statements_simps [simp]:
  "statements [] s = (Ok (), s)"
  "statements (m # ms) s = act_then m (\<lambda>_. statements ms) s"
  by (simp_all add: statements_def)


section \<open>Passing\<close>

text \<open>From every state with \<open>P\<close> the body returns, in a state with \<open>Q\<close>.\<close>

definition passes :: "('s \<Rightarrow> bool) \<Rightarrow> ('s, unit) action \<Rightarrow> ('s \<Rightarrow> bool) \<Rightarrow> bool" where
  "passes P m Q \<longleftrightarrow> (\<forall>s. P s \<longrightarrow> (\<exists>t. m s = (Ok (), t) \<and> Q t))"

lemma passesD: "passes P m Q \<Longrightarrow> P s \<Longrightarrow> fst (m s) = Ok ()"
  unfolding passes_def by fastforce

lemma passes_outcome:
  "(\<And>s. P s \<Longrightarrow> \<exists>r t. m s = (r, t) \<and> f r = Ok () \<and> Q t) \<Longrightarrow> passes P (outcome f m) Q"
  unfolding passes_def outcome_def by fastforce

lemma passes_Nil: "passes P (statements []) P"
  by (simp add: passes_def)

lemma passes_Cons: "passes P m Q \<Longrightarrow> passes Q (statements ms) R \<Longrightarrow> passes P (statements (m # ms)) R"
  unfolding passes_def by (fastforce simp: act_then_def)

lemma passes_then: "passes P m Q \<Longrightarrow> passes Q n R \<Longrightarrow> passes P (act_then m (\<lambda>_. n)) R"
  unfolding passes_def by (fastforce simp: act_then_def)

lemma passes_let:
  "(\<And>s. P s \<Longrightarrow> g s = Ok a) \<Longrightarrow> passes P (f a) Q \<Longrightarrow> passes P (act_then (pure_action g) f) Q"
  unfolding passes_def by simp

end
