(* ===== verification/Tests_Record_Store.thy ===== *)
theory Tests_Record_Store
  imports Record_Store Test_Harness
begin

text \<open>
  The unit tests of \<open>src/blockchain/record_store.rs\<close> as definitions, and that they pass: on
  every database that starts empty on a disk that works, for every VM, and for any fresh records whose
  commitments and serial numbers are different. The model behind the proof is a pair of sets,
  the commitments that are known and the serial numbers that are spent.
\<close>

section \<open>The tests\<close>

text \<open>
  The databases of a test are opened under a path of its own in a directory that \<open>init\<close>
  removes when the test binary starts.
\<close>

definition db_path :: "string \<Rightarrow> string" where
  "db_path suffix = ''.db_test/'' @ suffix"

text \<open>
  \<open>new_record\<close> of the default backend, with the crate and the random values it draws as
  parameters; the constructor of a record draws a nonce of its own, and encrypting a record may
  change it.
\<close>

record ('rec, 'rng, 'f, 'er) record_crate =
  rc_new_from_aleo_address :: "'rng \<Rightarrow> string \<Rightarrow> u64 \<Rightarrow> 'rec"
  rc_encrypt :: "'rec \<Rightarrow> 'rng \<Rightarrow> (string + 'er) \<times> 'rec"
  rc_commitment :: "'rec \<Rightarrow> string + 'f"
  rc_private_key :: "'rng \<Rightarrow> string + private_key"
  rc_compute_serial_number :: "private_key \<Rightarrow> 'f \<Rightarrow> string + 'f"

definition new_record ::
  "('rec, 'rng, 'f, 'er) record_crate \<Rightarrow> 'rng \<Rightarrow> 'rng \<Rightarrow> 'rng \<Rightarrow> ('er \<times> 'f \<times> 'f) result" where
  "new_record c nonce key_seed randomizer =
     (let address = ''aleo1330ghze6tqvc0s9vd43mnetxlnyfypgf6rw597gn4723lp2wt5gqfk09ry'';
          record = rc_new_from_aleo_address c nonce address 5
      in and_then (unwrap (external (rc_private_key c key_seed))) (\<lambda>private_key.
         case rc_encrypt c record randomizer of (encrypted, record) \<Rightarrow>
         and_then (unwrap (external encrypted)) (\<lambda>record_ciphertext.
         and_then (unwrap (external (rc_commitment c record))) (\<lambda>commitment.
         and_then (unwrap (external (rc_compute_serial_number c private_key commitment))) (\<lambda>serial_number.
         Ok (record_ciphertext, commitment, serial_number))))))"

text \<open>The same of the other backend: the nonce is computed from the randomizer of the encryption.\<close>

record ('rec, 'rng, 'pid, 'name, 'f, 'er) snark_record_crate =
  sr_g_scalar_multiply :: "'rng \<Rightarrow> string"
  sr_record_from_str :: "string \<Rightarrow> string + 'rec"
  sr_program_id :: "string \<Rightarrow> string + 'pid"
  sr_identifier :: "string \<Rightarrow> string + 'name"
  sr_to_commitment :: "'rec \<Rightarrow> 'pid \<Rightarrow> 'name \<Rightarrow> string + 'f"
  sr_encrypt :: "'rec \<Rightarrow> 'rng \<Rightarrow> string + 'er"
  sr_private_key :: "string \<Rightarrow> string + private_key"
  sr_compute_serial_number :: "private_key \<Rightarrow> 'f \<Rightarrow> string + 'f"

definition snark_new_record ::
  "('rec, 'rng, 'pid, 'name, 'f, 'er) snark_record_crate \<Rightarrow> 'rng \<Rightarrow> ('er \<times> 'f \<times> 'f) result" where
  "snark_new_record c randomizer =
     (let nonce = sr_g_scalar_multiply c randomizer;
          record_text = ''{ owner: aleo1330ghze6tqvc0s9vd43mnetxlnyfypgf6rw597gn4723lp2wt5gqfk09ry.private, gates: 5u64.private, token_amount: 100u64.private, _nonce: '' @ nonce @ ''.public }''
      in and_then (unwrap (external (sr_record_from_str c record_text))) (\<lambda>record.
         and_then (unwrap (external (sr_program_id c ''foo.aleo''))) (\<lambda>program_id.
         and_then (unwrap (external (sr_identifier c ''bar''))) (\<lambda>name.
         and_then (unwrap (external (sr_to_commitment c record program_id name))) (\<lambda>commitment.
         and_then (unwrap (external (sr_encrypt c record randomizer))) (\<lambda>record_ciphertext.
         and_then (unwrap (external (sr_private_key c ''APrivateKey1zkpCT3zCj49nmVoeBXa21EGLjTUc7AKAcMNKLXzP7kc4cgx''))) (\<lambda>pk.
         and_then (unwrap (external (sr_compute_serial_number c pk commitment))) (\<lambda>serial_number.
         Ok (record_ciphertext, commitment, serial_number)))))))))"

text \<open>A body on the store that a test opens; \<open>fresh i\<close> is the outcome of its i-th \<open>new_record\<close>.\<close>

definition with_store ::
  "(string \<Rightarrow> string + 'db) \<Rightarrow> string \<Rightarrow> ('db record_store, unit) action \<Rightarrow> unit result" where
  "with_store open_default path body =
     and_then (unwrap (record_store_new open_default (db_path path))) (\<lambda>store. fst (body store))"

definition let_record ::
  "('er \<times> 'f \<times> 'f) result \<Rightarrow> ('er \<Rightarrow> 'f \<Rightarrow> 'f \<Rightarrow> ('s, unit) action) \<Rightarrow> ('s, unit) action" where
  "let_record fresh body =
     act_then (pure_action (\<lambda>_. fresh)) (\<lambda>(record, commitment, serial_number). body record commitment serial_number)"

definition add_and_spend_record ::
  "'db kv_ops \<Rightarrow> ('f, 'er, 'tr, 'out) vm_backend \<Rightarrow> (string \<Rightarrow> string + 'db) \<Rightarrow>
   (nat \<Rightarrow> ('er \<times> 'f \<times> 'f) result) \<Rightarrow> unit result" where
  "add_and_spend_record ops vm open_default fresh =
     with_store open_default ''records1''
       (let_record (fresh 0) (\<lambda>record commitment serial_number. statements
         [unwrapped (add ops vm commitment record),
          asserting (\<lambda>unspent. unspent) (is_unspent ops vm serial_number),
          unwrapped (commit ops vm),
          asserting (\<lambda>unspent. unspent) (is_unspent ops vm serial_number),
          unwrapped (spend ops vm serial_number),
          asserting (\<lambda>unspent. \<not> unspent) (is_unspent ops vm serial_number),
          unwrapped (commit ops vm),
          asserting (\<lambda>unspent. \<not> unspent) (is_unspent ops vm serial_number),
          failing_with RecordAlreadySpent (spend ops vm serial_number)]))"

definition no_double_add_record ::
  "'db kv_ops \<Rightarrow> ('f, 'er, 'tr, 'out) vm_backend \<Rightarrow> (string \<Rightarrow> string + 'db) \<Rightarrow>
   (nat \<Rightarrow> ('er \<times> 'f \<times> 'f) result) \<Rightarrow> unit result" where
  "no_double_add_record ops vm open_default fresh =
     with_store open_default ''records2''
       (act_then (let_record (fresh 0) (\<lambda>record commitment _. statements
         [unwrapped (add ops vm commitment record),
          failing_with (RecordExists (vm_field_to_string vm commitment)) (add ops vm commitment record),
          unwrapped (commit ops vm)])) (\<lambda>_.
        let_record (fresh 1) (\<lambda>record commitment _. statements
         [unwrapped (add ops vm commitment record),
          unwrapped (commit ops vm),
          failing_with (RecordExists (vm_field_to_string vm commitment)) (add ops vm commitment record)])))"

definition spend_before_commit ::
  "'db kv_ops \<Rightarrow> ('f, 'er, 'tr, 'out) vm_backend \<Rightarrow> (string \<Rightarrow> string + 'db) \<Rightarrow>
   (nat \<Rightarrow> ('er \<times> 'f \<times> 'f) result) \<Rightarrow> unit result" where
  "spend_before_commit ops vm open_default fresh =
     with_store open_default ''records3''
       (let_record (fresh 0) (\<lambda>record commitment serial_number. statements
         [unwrapped (add ops vm commitment record),
          asserting (\<lambda>unspent. unspent) (is_unspent ops vm serial_number),
          unwrapped (spend ops vm serial_number),
          asserting (\<lambda>unspent. \<not> unspent) (is_unspent ops vm serial_number),
          unwrapped (commit ops vm),
          asserting (\<lambda>unspent. \<not> unspent) (is_unspent ops vm serial_number)]))"

definition no_double_spend_record ::
  "'db kv_ops \<Rightarrow> ('f, 'er, 'tr, 'out) vm_backend \<Rightarrow> (string \<Rightarrow> string + 'db) \<Rightarrow>
   (nat \<Rightarrow> ('er \<times> 'f \<times> 'f) result) \<Rightarrow> unit result" where
  "no_double_spend_record ops vm open_default fresh =
     with_store open_default ''records4''
       (act_then (let_record (fresh 0) (\<lambda>record commitment serial_number. statements
         [unwrapped (add ops vm commitment record),
          unwrapped (commit ops vm),
          asserting (\<lambda>unspent. unspent) (is_unspent ops vm serial_number),
          unwrapped (spend ops vm serial_number),
          unwrapped (commit ops vm),
          asserting (\<lambda>unspent. \<not> unspent) (is_unspent ops vm serial_number),
          failing_with RecordAlreadySpent (spend ops vm serial_number)])) (\<lambda>_.
        act_then (let_record (fresh 1) (\<lambda>record commitment serial_number. statements
         [unwrapped (add ops vm commitment record),
          unwrapped (commit ops vm),
          asserting (\<lambda>unspent. unspent) (is_unspent ops vm serial_number),
          unwrapped (spend ops vm serial_number),
          failing_with RecordAlreadySpent (spend ops vm serial_number),
          unwrapped (commit ops vm),
          asserting (\<lambda>unspent. \<not> unspent) (is_unspent ops vm serial_number),
          failing_with RecordAlreadySpent (spend ops vm serial_number)])) (\<lambda>_.
        let_record (fresh 2) (\<lambda>record commitment serial_number. statements
         [unwrapped (add ops vm commitment record),
          unwrapped (spend ops vm serial_number),
          failing_with RecordAlreadySpent (spend ops vm serial_number),
          unwrapped (commit ops vm),
          asserting (\<lambda>unspent. \<not> unspent) (is_unspent ops vm serial_number)]))))"


section \<open>The store as two sets\<close>

definition record_keys :: "('db \<Rightarrow> string \<Rightarrow> string option) \<Rightarrow> 'db record_store \<Rightarrow> string set" where
  "record_keys contents s = dom (contents (rs_db_records s)) \<union> fst ` set (rs_record_buffer s)"

definition store_sets ::
  "('db \<Rightarrow> string \<Rightarrow> string option) \<Rightarrow> string set \<Rightarrow> string set \<Rightarrow> 'db record_store \<Rightarrow> bool" where
  "store_sets contents K S s \<longleftrightarrow> rs_alive s \<and> record_keys contents s = K \<and> spent_keys contents s = S"

lemma unspent_set:
  "kv_working ops contents \<Longrightarrow> rs_alive s \<Longrightarrow> unspent_key ops s k \<longleftrightarrow> k \<notin> spent_keys contents s"
  by (auto simp: unspent_key_def handle_is_unspent_def spent_keys_def hm_contains_iff working_exists)

lemma known_set:
  "kv_working ops contents \<Longrightarrow>
   hm_contains (rs_record_buffer s) k \<or> key_exists_or_fails ops (rs_db_records s) k \<longleftrightarrow> k \<in> record_keys contents s"
  by (auto simp: record_keys_def hm_contains_iff working_exists)

lemma add_passes:
  "kv_working ops contents \<Longrightarrow> vm_field_to_string vm cm \<notin> K \<Longrightarrow>
   passes (store_sets contents K S) (unwrapped (add ops vm cm r)) (store_sets contents (insert (vm_field_to_string vm cm) K) S)"
  using known_set [of ops contents]
  by (intro passes_outcome)
    (auto simp: add_as_text add_text_eq handle_add_def store_sets_def record_keys_def spent_keys_def)

lemma add_known:
  "kv_working ops contents \<Longrightarrow> vm_field_to_string vm cm \<in> K \<Longrightarrow> passes (store_sets contents K S)
     (failing_with (RecordExists (vm_field_to_string vm cm)) (add ops vm cm r)) (store_sets contents K S)"
  using known_set [of ops contents]
  by (intro passes_outcome) (auto simp: add_as_text add_text_eq handle_add_def store_sets_def)

lemma spend_passes:
  "kv_working ops contents \<Longrightarrow> vm_field_to_string vm n \<notin> S \<Longrightarrow>
   passes (store_sets contents K S) (unwrapped (spend ops vm n)) (store_sets contents K (insert (vm_field_to_string vm n) S))"
  using unspent_set [of ops contents]
  by (intro passes_outcome) (auto simp: spend_as_key spend_key_eq store_sets_def record_keys_def spent_keys_def)

lemma spend_spent:
  "kv_working ops contents \<Longrightarrow> vm_field_to_string vm n \<in> S \<Longrightarrow> passes (store_sets contents K S)
     (failing_with RecordAlreadySpent (spend ops vm n)) (store_sets contents K S)"
  using unspent_set [of ops contents]
  by (intro passes_outcome) (auto simp: spend_as_key spend_key_eq store_sets_def)

lemma unspent_passes:
  "kv_working ops contents \<Longrightarrow> vm_field_to_string vm n \<notin> S \<Longrightarrow> passes (store_sets contents K S)
     (asserting (\<lambda>unspent. unspent) (is_unspent ops vm n)) (store_sets contents K S)"
  using unspent_set [of ops contents] by (intro passes_outcome) (auto simp: is_unspent_eq store_sets_def)

lemma spent_passes:
  "kv_working ops contents \<Longrightarrow> vm_field_to_string vm n \<in> S \<Longrightarrow> passes (store_sets contents K S)
     (asserting (\<lambda>unspent. \<not> unspent) (is_unspent ops vm n)) (store_sets contents K S)"
  using unspent_set [of ops contents] by (intro passes_outcome) (auto simp: is_unspent_eq store_sets_def)

lemma commit_passes:
  assumes "kv_working ops contents"
  shows "passes (store_sets contents K S) (unwrapped (commit ops vm)) (store_sets contents K S)"
proof (intro passes_outcome)
  fix s
  assume s: "store_sets contents K S s"
  then have "store_sets contents K S (handle_commit ops s)"
    by (auto simp: store_sets_def record_keys_def spent_keys_def handle_commit_def working_write [OF assms]
        dom_map_add_rev simp del: dom_map_add)
  with s show "\<exists>r t. commit ops vm s = (r, t) \<and> and_then (unwrap r) (\<lambda>_. Ok ()) = Ok () \<and> store_sets contents K S t"
    by (simp add: commit_eq store_sets_def)
qed

lemma passes_let_record:
  "fresh = Ok (r, cm, n) \<Longrightarrow> passes P (body r cm n) Q \<Longrightarrow> passes P (let_record fresh body) Q"
  unfolding let_record_def by (rule passes_let [where a = "(r, cm, n)"]) simp_all

lemmas store_passes = passes_Cons add_passes add_known spend_passes spend_spent unspent_passes
  spent_passes commit_passes passes_Nil

lemma with_store_passes:
  assumes "\<And>path. \<exists>db. open_default path = Inr db \<and> contents db = Map.empty"
    and "passes (store_sets contents {} {}) body Q"
  shows "with_store open_default path body = Ok ()"
proof -
  obtain d e where "open_default (db_path path @ ''.records.db'') = Inr d" "open_default (db_path path @ ''.spent.db'') = Inr e"
    and empty: "contents d = Map.empty" "contents e = Map.empty" using assms(1) by metis
  then have "record_store_new open_default (db_path path) = Ok (new_record_store d e)"
    by (simp add: record_store_new_def)
  moreover have "store_sets contents {} {} (new_record_store d e)"
    using empty by (simp add: store_sets_def record_keys_def spent_keys_def new_record_store_def)
  ultimately show ?thesis using passesD [OF assms(2)] by (simp add: with_store_def)
qed


section \<open>The tests pass\<close>

text \<open>C40. The unit tests of the record store pass on every database that starts empty on a disk
  that works, with every VM: adding, committing and spending records in the orders of the tests returns
  what they assert, for records with different commitments and serial numbers.\<close>
theorem record_store_tests_pass:
  assumes "kv_working ops contents" and "\<And>path. \<exists>db. open_default path = Inr db \<and> contents db = Map.empty"
    and "fresh = (\<lambda>i. new_record c (nonces i) (key_seeds i) (randomizers i))
      \<or> fresh = (\<lambda>i. snark_new_record c' (seeds i))"
    and "fresh 0 = Ok (r0, c0, n0)" and "fresh 1 = Ok (r1, c1, n1)" and "fresh 2 = Ok (r2, c2, n2)"
    and "distinct (map (vm_field_to_string vm) [c0, c1, c2])" and "distinct (map (vm_field_to_string vm) [n0, n1, n2])"
  shows "add_and_spend_record ops vm open_default fresh = Ok ()
    \<and> no_double_add_record ops vm open_default fresh = Ok ()
    \<and> spend_before_commit ops vm open_default fresh = Ok ()
    \<and> no_double_spend_record ops vm open_default fresh = Ok ()"
proof -
  note empty = with_store_passes [where open_default = open_default and contents = contents, OF assms(2)]
  note records = passes_let_record [OF assms(4)] passes_let_record [OF assms(5)] passes_let_record [OF assms(6)]
  have diff: "vm_field_to_string vm c1 \<noteq> vm_field_to_string vm c0" "vm_field_to_string vm c2 \<noteq> vm_field_to_string vm c1"
    "vm_field_to_string vm c2 \<noteq> vm_field_to_string vm c0" "vm_field_to_string vm n1 \<noteq> vm_field_to_string vm n0"
    "vm_field_to_string vm n2 \<noteq> vm_field_to_string vm n1" "vm_field_to_string vm n2 \<noteq> vm_field_to_string vm n0"
    using assms(7,8) by auto
  have "add_and_spend_record ops vm open_default fresh = Ok ()"
    unfolding add_and_spend_record_def
    by (rule empty) (rule records, (rule store_passes assms(1) | simp)+)
  moreover have "spend_before_commit ops vm open_default fresh = Ok ()"
    unfolding spend_before_commit_def
    by (rule empty) (rule records, (rule store_passes assms(1) | simp)+)
  moreover have "no_double_add_record ops vm open_default fresh = Ok ()"
    unfolding no_double_add_record_def
    by (rule empty) (rule passes_then records | rule store_passes assms(1) | simp add: diff)+
  moreover have "no_double_spend_record ops vm open_default fresh = Ok ()"
    unfolding no_double_spend_record_def
    by (rule empty) (rule passes_then records | rule store_passes assms(1) | simp add: diff)+
  ultimately show ?thesis by simp
qed


section \<open>Witness\<close>

definition sample_record_crate :: "(string, string, string, string) record_crate" where
  "sample_record_crate =
     \<lparr>rc_new_from_aleo_address = (\<lambda>nonce address gates. nonce),
      rc_encrypt = (\<lambda>record randomizer. (Inr record, record)),
      rc_commitment = (\<lambda>record. Inr record),
      rc_private_key = (\<lambda>seed. Inr (PrivateKey seed)),
      rc_compute_serial_number = (\<lambda>key commitment. Inr (''n'' @ commitment))\<rparr>"

abbreviation sample_nonces :: "nat \<Rightarrow> string" where
  "sample_nonces i \<equiv> replicate i CHR ''c''"

theorem record_store_tests_pass_witness:
  "no_double_spend_record memory_kv sample_vm (\<lambda>path. Inr [])
     (\<lambda>i. new_record sample_record_crate (sample_nonces i) ''key'' ''r'') = Ok ()"
proof -
  let ?fresh = "\<lambda>i. new_record sample_record_crate (sample_nonces i) ''key'' ''r''"
  have fresh: "?fresh i = Ok (sample_nonces i, sample_nonces i, ''n'' @ sample_nonces i)" for i
    by (simp add: new_record_def sample_record_crate_def Let_def)
  have "\<exists>db. (\<lambda>path. Inr []) path = Inr db \<and> map_of db = Map.empty" for path :: string by simp
  from record_store_tests_pass [OF memory_kv_working this disjI1 [OF refl] fresh fresh fresh, of sample_vm] show ?thesis
    by (simp add: lambda_backend_def numeral_2_eq_2)
qed

end
