(* ===== verification/Tests_Program_Store.thy ===== *)
theory Tests_Program_Store
  imports Program_Store Test_Harness
begin

text \<open>
  The unit tests of \<open>src/blockchain/program_store.rs\<close> as definitions, and that they pass on
  every reliable database that starts empty.
\<close>

section \<open>The tests\<close>

text \<open>
  What the tests use of the file system and of the VM: the text of a file of the repository, the
  parser of programs, \<open>Program::credits\<close> and \<open>vm::build_program\<close>, which parses the text and
  generates the keys of every function.
\<close>

record program_test =
  pt_read_file :: "string \<Rightarrow> string + string"
  pt_from_str :: "string \<Rightarrow> string + program"
  pt_credits :: "string + program"
  pt_build_program :: "string \<Rightarrow> (program \<times> (string \<times> proving_key \<times> verifying_key) list) result"

definition program_db_path :: "string \<Rightarrow> string" where
  "program_db_path suffix = ''.db_test/'' @ suffix"

definition store_program_file ::
  "'db kv_ops \<Rightarrow> bincode \<Rightarrow> program_test \<Rightarrow> string \<Rightarrow> ('db program_store, program) action" where
  "store_program_file ops bc t path =
     act_then (pure_action (\<lambda>_. unwrap (external (pt_read_file t path)))) (\<lambda>program_string.
     act_then (pure_action (\<lambda>_. pt_build_program t program_string)) (\<lambda>(prog, program_build).
     act_then (add_program ops bc (prog_id prog) prog (map (\<lambda>(i, _, verifying_key). (i, verifying_key)) program_build)) (\<lambda>_.
     pure_action (\<lambda>_. Ok prog))))"

definition add_program_test ::
  "'db kv_ops \<Rightarrow> bincode \<Rightarrow> program \<times> (string \<times> proving_key \<times> verifying_key) list \<Rightarrow>
   (string \<Rightarrow> string + 'db) \<Rightarrow> program_test \<Rightarrow> unit result" where
  "add_program_test ops bc credits open_default t =
     and_then (unwrap (program_store_new ops bc credits open_default (program_db_path ''program''))) (\<lambda>store.
     and_then (unwrap (external (pt_read_file t ''/aleo/hello.aleo''))) (\<lambda>program_string.
     and_then (unwrap (external (pt_from_str t program_string))) (\<lambda>prog.
     fst (statements
       [asserting (\<lambda>found. found = None) (get_program ops bc (prog_id prog)),
        act_then (outcome Ok (store_program_file ops bc t ''/aleo/hello.aleo'')) (\<lambda>storage_attempt.
          case storage_attempt of
            Ok stored \<Rightarrow> act_then (pure_action (program_exists ops (prog_id stored)))
              (\<lambda>found. pure_action (\<lambda>_. assert_that found))
          | Err e \<Rightarrow> pure_action (\<lambda>_. assert_that False)
          | Panic p \<Rightarrow> pure_action (\<lambda>_. Panic p))] store))))"

text \<open>The database that is searched first is another one than the store opens.\<close>

definition credits_loaded ::
  "'db kv_ops \<Rightarrow> bincode \<Rightarrow> program \<times> (string \<times> proving_key \<times> verifying_key) list \<Rightarrow>
   (string \<Rightarrow> string + 'db) \<Rightarrow> program_test \<Rightarrow> unit result" where
  "credits_loaded ops bc credits open_default t =
     and_then (expect_ok ''Problem loading Credits'' (external (pt_credits t))) (\<lambda>prog.
     and_then (unwrap (external (open_default (program_db_path ''credits'')))) (\<lambda>db.
     and_then (unwrap (external (kv_get ops db (prog_id prog)))) (\<lambda>found.
     and_then (assert_that (found = None)) (\<lambda>_.
     and_then (unwrap (program_store_new ops bc credits open_default (program_db_path ''credits''))) (\<lambda>store.
     and_then (program_exists ops (prog_id prog) store) assert_that)))))"


section \<open>The tests pass\<close>

lemma put_program:
  assumes "kv_reliable ops contents" and "ps_alive s" and "contents (ps_db s) k = None"
    and "bc_serialize bc (prog, ks) = Some raw"
  shows "\<exists>t. add_program ops bc k prog ks s = (Ok (), t) \<and> ps_alive t \<and> contents (ps_db t) = (contents (ps_db s))(k \<mapsto> raw)"
  using add_program_outcome [OF reliable_laws [OF assms(1)] reliable_available [OF assms(1)] assms(2,4), of k] assms(2,3)
  by (simp add: reliable_write [OF assms(1)])

lemma new_program_store:
  assumes "kv_reliable ops contents" and "open_default (path @ ''.deployed.db'') = Inr db" and "contents db = Map.empty"
    and "bc_serialize bc (prog, map (\<lambda>(i, _, verifying_key). (i, verifying_key)) keys) = Some raw"
  shows "\<exists>s. program_store_new ops bc (prog, keys) open_default path = Ok s \<and> ps_alive s
    \<and> contents (ps_db s) = [prog_id prog \<mapsto> raw]"
proof -
  let ?s = "\<lparr>ps_alive = True, ps_db = db\<rparr>"
  from put_program [OF assms(1) _ _ assms(4), of ?s "prog_id prog"] assms(3) obtain t where
    "add_program ops bc (prog_id prog) prog (map (\<lambda>(i, _, verifying_key). (i, verifying_key)) keys) ?s = (Ok (), t)"
    "ps_alive t" "contents (ps_db t) = [prog_id prog \<mapsto> raw]" by auto
  then show ?thesis
    by (simp add: program_store_new_def assms(2) load_credits_def program_exists_def reliable_may_exist [OF assms(1)] assms(3))
qed

text \<open>The unit tests of the program store pass on every reliable database that starts empty:
  the credits program is there after start-up, and a program that is absent can be stored and
  is found afterwards.\<close>
theorem program_store_tests_pass:
  assumes "kv_reliable ops contents" and "\<And>path. \<exists>db. open_default path = Inr db \<and> contents db = Map.empty"
    and "bc_serialize bc (credits, map (\<lambda>(i, _, verifying_key). (i, verifying_key)) keys) = Some raw"
    and "pt_credits t = Inr credits" and "pt_read_file t ''/aleo/hello.aleo'' = Inr source"
    and "pt_from_str t source = Inr hello" and "pt_build_program t source = Ok (hello, build)"
    and "prog_id hello \<noteq> prog_id credits"
    and "bc_serialize bc (hello, map (\<lambda>(i, _, verifying_key). (i, verifying_key)) build) = Some bytes"
  shows "add_program_test ops bc (credits, keys) open_default t = Ok ()
    \<and> credits_loaded ops bc (credits, keys) open_default t = Ok ()"
proof
  note exists = reliable_may_exist [OF assms(1)]
  from assms(2) obtain db1 where "open_default (program_db_path ''program'' @ ''.deployed.db'') = Inr db1"
    "contents db1 = Map.empty" by blast
  from new_program_store [where open_default = open_default and path = "program_db_path ''program''", OF assms(1) this assms(3)] obtain s where
    s: "program_store_new ops bc (credits, keys) open_default (program_db_path ''program'') = Ok s" "ps_alive s"
      "contents (ps_db s) = [prog_id credits \<mapsto> raw]" by blast
  have absent: "contents (ps_db s) (prog_id hello) = None" using s(3) assms(8) by simp
  then have get: "get_program ops bc (prog_id hello) s = (Ok None, s)"
    using s(2) by (simp add: get_program_def handle_get_program_def stored_bytes_def reliable_get [OF assms(1)])
  from put_program [OF assms(1) s(2) absent assms(9)] obtain u where
    "add_program ops bc (prog_id hello) hello (map (\<lambda>(i, _, verifying_key). (i, verifying_key)) build) s = (Ok (), u)"
    "ps_alive u" "contents (ps_db u) (prog_id hello) = Some bytes" by auto
  then show "add_program_test ops bc (credits, keys) open_default t = Ok ()"
    using s(1) get assms(5-7)
    by (simp add: add_program_test_def outcome_def act_then_def store_program_file_def program_exists_def exists)
next
  note exists = reliable_may_exist [OF assms(1)]
  from assms(2) obtain db2 where "open_default (program_db_path ''credits'' @ ''.deployed.db'') = Inr db2"
    "contents db2 = Map.empty" by blast
  from new_program_store [where open_default = open_default and path = "program_db_path ''credits''", OF assms(1) this assms(3)] obtain s where
    s: "program_store_new ops bc (credits, keys) open_default (program_db_path ''credits'') = Ok s" "ps_alive s"
      "contents (ps_db s) = [prog_id credits \<mapsto> raw]" by blast
  from assms(2) obtain db where "open_default (program_db_path ''credits'') = Inr db" "contents db = Map.empty" by blast
  then show "credits_loaded ops bc (credits, keys) open_default t = Ok ()"
    using s assms(4) by (simp add: credits_loaded_def reliable_get [OF assms(1)] program_exists_def exists)
qed


section \<open>Witness\<close>

definition hello_program :: program where
  "hello_program = \<lparr>prog_id = ''hello.aleo'', prog_functions = [(''hello'', ''hello'')], prog_source = ''hello''\<rparr>"

definition hello_test :: program_test where
  "hello_test = \<lparr>pt_read_file = (\<lambda>path. Inr ''source''), pt_from_str = (\<lambda>text. Inr hello_program),
     pt_credits = Inr credits_sample, pt_build_program = (\<lambda>source. Ok (hello_program, []))\<rparr>"

theorem program_store_tests_pass_witness:
  "add_program_test memory_kv (sample_bincode\<lparr>bc_serialize := (\<lambda>p. Some (prog_id (fst p)))\<rparr>)
     (credits_sample, []) (\<lambda>path. Inr []) hello_test = Ok ()"
proof -
  have "\<exists>db. (\<lambda>path. Inr []) path = Inr db \<and> map_of db = Map.empty" for path :: string by simp
  from program_store_tests_pass [OF memory_kv_reliable this, of _ credits_sample "[]" _ hello_test "''source''" hello_program "[]"]
  show ?thesis by (simp add: hello_test_def hello_program_def credits_sample_def)
qed

end
