(* ===== verification/Tests_Validator_Set.thy ===== *)
theory Tests_Validator_Set
  imports Rewards Test_Harness
begin

text \<open>
  The unit tests of \<open>src/blockchain/validator_set.rs\<close> as definitions, and that they pass for
  every VM whose minted records can be decrypted by their owner and by nobody else, for any
  random accounts that are different, and for every iteration order of the hash maps.
\<close>

section \<open>Accounts and what the tests share\<close>

text \<open>The VM functions that only the tests use: accounts, and reading an encrypted record.\<close>

record ('rng, 'vk, 'er, 'rec) account_crate =
  ac_private_key :: "'rng \<Rightarrow> string + private_key"
  ac_view_key :: "private_key \<Rightarrow> string + 'vk"
  ac_address :: "'vk \<Rightarrow> string + aleo_address"
  ac_address_to_string :: "aleo_address \<Rightarrow> string"
  ac_is_owner :: "'er \<Rightarrow> aleo_address \<Rightarrow> 'vk \<Rightarrow> bool"
  ac_decrypt :: "'er \<Rightarrow> 'vk \<Rightarrow> string + 'rec"
  ac_gates :: "'rec \<Rightarrow> u64"

text \<open>
  The random values of the accounts a test creates, the iteration order of the hash maps of a
  validator set, by number, and the order of fields, given by the rank of a field.
\<close>

record ('f, 'er, 'tr, 'out, 'rng, 'vk, 'rec) set_test =
  st_vm :: "('f, 'er, 'tr, 'out) vm_backend"
  st_crypto :: tendermint_crate
  st_io :: validators_io
  st_accounts :: "('rng, 'vk, 'er, 'rec) account_crate"
  st_rng :: "nat \<Rightarrow> 'rng"
  st_order :: "nat \<Rightarrow> (address, u64) hash_map \<Rightarrow> (address \<times> u64) list"
  st_field_rank :: "'f \<Rightarrow> int"

definition account_keys ::
  "('f, 'er, 'tr, 'out, 'rng, 'vk, 'rec) set_test \<Rightarrow> nat \<Rightarrow> ('vk \<times> aleo_address) result" where
  "account_keys e i =
     and_then (unwrap (external (ac_private_key (st_accounts e) (st_rng e i)))) (\<lambda>private_key.
     and_then (unwrap (external (ac_view_key (st_accounts e) private_key))) (\<lambda>view_key.
     and_then (unwrap (external (ac_address (st_accounts e) view_key))) (\<lambda>address.
     Ok (view_key, address))))"

definition decrypt_rewards ::
  "('f, 'er, 'tr, 'out, 'rng, 'vk, 'rec) set_test \<Rightarrow> 'vk \<times> aleo_address \<Rightarrow> ('f \<times> 'er) list \<Rightarrow> u64 result" where
  "decrypt_rewards e owner rewards =
     map_ok (\<lambda>gates. fold (\<lambda>g acc. acc + g) gates 0)
       (try_map (\<lambda>(_, record). map_ok (ac_gates (st_accounts e)) (unwrap (external (ac_decrypt (st_accounts e) record (fst owner)))))
          (filter (\<lambda>(_, record). ac_is_owner (st_accounts e) record (snd owner) (fst owner)) rewards))"

definition tmint1 :: string where "tmint1 = ''vM+mkdPMvplfxO7wM57z4FXy0TlBC2Onb+MaqcXE8ig=''"
definition tmint2 :: string where "tmint2 = ''2HWbuGk04WQm/CrI/0HxoEtjGY0DXp8oMY6RsyrWwbU=''"
definition tmint3 :: string where "tmint3 = ''TtJ9B7yGXANFIJqH2LJO8JN6M2WOn2w7sRN0HHi14UE=''"
definition tmint4 :: string where "tmint4 = ''uHC9buPyVi5GT8dohO1OQ+HlfKQ1HwUHAyv3AjKKsZQ=''"

text \<open>\<open>Validator::from_str(tmint, &aleo.1.to_string(), power).unwrap()\<close>.\<close>

definition test_validator ::
  "('f, 'er, 'tr, 'out, 'rng, 'vk, 'rec) set_test \<Rightarrow> string \<Rightarrow> 'vk \<times> aleo_address \<Rightarrow> u64 \<Rightarrow> validator result" where
  "test_validator e tmint aleo voting_power =
     unwrap (validator_from_str (st_vm e) (st_crypto e) tmint
       (ac_address_to_string (st_accounts e) (snd aleo)) voting_power)"

text \<open>\<open>set.apply(stake)\<close>, and \<open>set.commit().unwrap()\<close> with the file it leaves.\<close>

definition applied :: "tendermint_crate \<Rightarrow> stake \<Rightarrow> validator_set \<Rightarrow> validator_set result" where
  "applied c stake vs = (case apply_update c stake vs of (r, vs') \<Rightarrow> map_ok (\<lambda>_. vs') r)"

definition committed :: "validators_io \<Rightarrow> validator_set \<Rightarrow> string option \<Rightarrow> string option result" where
  "committed io vs file = (case commit_validators io vs file of (r, file') \<Rightarrow> map_ok (\<lambda>_. file') (unwrap r))"

text \<open>The assertions of a stretch of a test, in order.\<close>

definition all_of :: "unit result list \<Rightarrow> unit result" where
  "all_of checks = try_each (\<lambda>r. r) checks"


section \<open>The tests of the rewards\<close>

definition generate_rewards :: "('f, 'er, 'tr, 'out, 'rng, 'vk, 'rec) set_test \<Rightarrow> unit result" where
  "generate_rewards e =
     and_then (account_keys e 0) (\<lambda>aleo1. and_then (account_keys e 1) (\<lambda>aleo2.
     and_then (account_keys e 2) (\<lambda>aleo3. and_then (account_keys e 3) (\<lambda>aleo4.
     and_then (test_validator e tmint1 aleo1 1) (\<lambda>validator1.
     and_then (test_validator e tmint2 aleo2 1) (\<lambda>validator2.
     and_then (test_validator e tmint3 aleo3 1) (\<lambda>validator3.
     and_then (test_validator e tmint4 aleo4 1) (\<lambda>validator4.
     and_then (load_or_create (st_crypto e) (st_io e) None) (\<lambda>set.
     let address = validator_address (st_crypto e);
         set = replace (st_crypto e) [validator1, validator2, validator3, validator4] set;
         votes = hm_insert (address validator3) 25 (hm_insert (address validator2) 15 (hm_insert (address validator1) 10 []));
         voting_power = 10 + 15 + 25;
         set = begin_block (address validator1) (st_order e 0 votes) 1 set;
         set = collect 35 (collect 20 set);
         fees = 20 + 35
     in and_then (block_rewards (st_vm e) (st_order e 0) set) (\<lambda>records.
     and_then (decrypt_rewards e aleo1 records) (\<lambda>rewards1. and_then (decrypt_rewards e aleo2 records) (\<lambda>rewards2.
     and_then (decrypt_rewards e aleo3 records) (\<lambda>rewards3. and_then (decrypt_rewards e aleo4 records) (\<lambda>rewards4.
     let total_rewards = BASELINE_BLOCK_REWARD + fees;
         voter_rewards = total_rewards * PROPOSER_REWARD_PERCENTAGE div 100
     in and_then (all_of
          [assert_eq total_rewards (rewards1 + rewards2 + rewards3),
           assert_eq (voter_rewards * 15 div voting_power) rewards2,
           assert_eq (voter_rewards * 25 div voting_power) rewards3,
           assert_eq 0 rewards4,
           assert_eq (total_rewards - rewards2 - rewards3) rewards1]) (\<lambda>_.
     let votes = hm_insert (address validator4) 10 [];
         set = begin_block (address validator4) (st_order e 1 votes) 2 set;
         set = collect 10 set
     in and_then (block_rewards (st_vm e) (st_order e 0) set) (\<lambda>records.
     and_then (decrypt_rewards e aleo1 records) (\<lambda>rewards1. and_then (decrypt_rewards e aleo2 records) (\<lambda>rewards2.
     and_then (decrypt_rewards e aleo3 records) (\<lambda>rewards3. and_then (decrypt_rewards e aleo4 records) (\<lambda>rewards4.
     all_of [assert_eq 0 rewards1, assert_eq 0 rewards2, assert_eq 0 rewards3,
             assert_eq (BASELINE_BLOCK_REWARD + 10) rewards4]))))))))))))))))))))"

definition current_proposer_hadnt_vote :: "('f, 'er, 'tr, 'out, 'rng, 'vk, 'rec) set_test \<Rightarrow> unit result" where
  "current_proposer_hadnt_vote e =
     and_then (account_keys e 0) (\<lambda>aleo1. and_then (account_keys e 1) (\<lambda>aleo2.
     and_then (test_validator e tmint1 aleo1 1) (\<lambda>validator1.
     and_then (test_validator e tmint2 aleo2 1) (\<lambda>validator2.
     and_then (load_or_create (st_crypto e) (st_io e) None) (\<lambda>set.
     let address = validator_address (st_crypto e);
         set = replace (st_crypto e) [validator1, validator2] set;
         votes = hm_insert (address validator2) 15 [];
         voting_power = 15;
         set = begin_block (address validator1) (st_order e 0 votes) 1 set;
         set = collect 35 set;
         fees = 35
     in and_then (block_rewards (st_vm e) (st_order e 0) set) (\<lambda>records.
     and_then (decrypt_rewards e aleo1 records) (\<lambda>rewards1. and_then (decrypt_rewards e aleo2 records) (\<lambda>rewards2.
     let total_rewards = BASELINE_BLOCK_REWARD + fees;
         voter_rewards = total_rewards * PROPOSER_REWARD_PERCENTAGE div 100
     in all_of
          [assert_eq total_rewards (rewards1 + rewards2),
           assert_eq (voter_rewards * 15 div voting_power) rewards2,
           assert_eq (total_rewards - rewards2) rewards1]))))))))"

definition genesis_rewards :: "('f, 'er, 'tr, 'out, 'rng, 'vk, 'rec) set_test \<Rightarrow> unit result" where
  "genesis_rewards e =
     and_then (account_keys e 0) (\<lambda>aleo1. and_then (account_keys e 1) (\<lambda>aleo2.
     and_then (test_validator e tmint1 aleo1 1) (\<lambda>validator1.
     and_then (test_validator e tmint2 aleo2 1) (\<lambda>validator2.
     and_then (load_or_create (st_crypto e) (st_io e) None) (\<lambda>set.
     let set = replace (st_crypto e) [validator1, validator2] set;
         set = begin_block (validator_address (st_crypto e) validator1) (st_order e 0 []) 1 set;
         set = collect 35 (collect 20 set);
         fees = 20 + 35
     in and_then (block_rewards (st_vm e) (st_order e 0) set) (\<lambda>records.
     and_then (decrypt_rewards e aleo1 records) (\<lambda>rewards1. and_then (decrypt_rewards e aleo2 records) (\<lambda>rewards2.
     let total_rewards = BASELINE_BLOCK_REWARD + fees
     in all_of [assert_eq total_rewards rewards1, assert_eq 0 rewards2]))))))))"


text \<open>\<open>records.sort_by_key(|k| k.0.clone())\<close>.\<close>

definition sort_records ::
  "('f, 'er, 'tr, 'out, 'rng, 'vk, 'rec) set_test \<Rightarrow> ('f \<times> 'er) list \<Rightarrow> ('f \<times> 'er) list" where
  "sort_records e records = sort_key (\<lambda>k. st_field_rank e (fst k)) records"

definition rewards_are_deterministic :: "('f, 'er, 'tr, 'out, 'rng, 'vk, 'rec) set_test \<Rightarrow> unit result" where
  "rewards_are_deterministic e =
     and_then (account_keys e 0) (\<lambda>aleo1. and_then (account_keys e 1) (\<lambda>aleo2.
     and_then (test_validator e tmint1 aleo1 1) (\<lambda>validator1.
     and_then (test_validator e tmint2 aleo2 1) (\<lambda>validator2.
     and_then (load_or_create (st_crypto e) (st_io e) None) (\<lambda>set1.
     and_then (load_or_create (st_crypto e) (st_io e) None) (\<lambda>set2.
     let address = validator_address (st_crypto e);
         validators = [validator1, validator2];
         set1 = replace (st_crypto e) validators set1;
         set2 = replace (st_crypto e) validators set2;
         votes = hm_insert (address validator2) 15 (hm_insert (address validator1) 10 []);
         set1 = collect 100 (begin_block (address validator1) (st_order e 0 votes) 1 set1);
         set2 = collect 100 (begin_block (address validator1) (st_order e 1 votes) 1 set2)
     in and_then (block_rewards (st_vm e) (st_order e 0) set1) (\<lambda>records11.
     and_then (block_rewards (st_vm e) (st_order e 1) set2) (\<lambda>records21.
     let records11 = sort_records e records11; records21 = sort_records e records21
     in and_then (assert_eq records11 records21) (\<lambda>_.
     let set1 = collect 100 (begin_block (address validator1) (st_order e 2 votes) 2 set1);
         set2 = collect 100 (begin_block (address validator1) (st_order e 3 votes) 2 set2)
     in and_then (block_rewards (st_vm e) (st_order e 0) set1) (\<lambda>records12.
     and_then (block_rewards (st_vm e) (st_order e 1) set2) (\<lambda>records22.
     let records12 = sort_records e records12; records22 = sort_records e records22
     in and_then (all_of
          [assert_eq records12 records22,
           assert_ne records11 records12,
           assert_ne records21 records22]) (\<lambda>_.
     and_then (decrypt_rewards e aleo1 records11) (\<lambda>rewards111.
     and_then (decrypt_rewards e aleo1 records12) (\<lambda>rewards121.
     assert_eq rewards111 rewards121))))))))))))))"


section \<open>The tests of the updates\<close>

text \<open>The validators file of a set starts as a path without a file.\<close>

definition add_update_validators :: "('f, 'er, 'tr, 'out, 'rng, 'vk, 'rec) set_test \<Rightarrow> unit result" where
  "add_update_validators e =
     and_then (account_keys e 0) (\<lambda>aleo1. and_then (account_keys e 1) (\<lambda>aleo2.
     and_then (account_keys e 2) (\<lambda>aleo3.
     and_then (test_validator e tmint1 aleo1 1) (\<lambda>validator1.
     and_then (test_validator e tmint2 aleo2 1) (\<lambda>validator2.
     and_then (load_or_create (st_crypto e) (st_io e) None) (\<lambda>set.
     let address = validator_address (st_crypto e);
         set = replace (st_crypto e) [validator1, validator2] set;
         votes = hm_insert (address validator1) 15 [];
         set = begin_block (address validator1) (st_order e 0 votes) 1 set
     in and_then (pending_updates set) (\<lambda>updates.
     and_then (assert_eq 0 (length updates)) (\<lambda>_.
     and_then (block_rewards (st_vm e) (st_order e 0) set) (\<lambda>records.
     and_then (committed (st_io e) set None) (\<lambda>file.
     let set = begin_block (address validator1) (st_order e 1 votes) 1 set
     in and_then (unwrap (stake_new (st_crypto e) tmint3 (snd aleo3) 1)) (\<lambda>stake3.
     and_then (unwrap (stake_new (st_crypto e) tmint2 (snd aleo2) 5)) (\<lambda>stake2.
     and_then (applied (st_crypto e) stake3 set) (\<lambda>set.
     and_then (applied (st_crypto e) stake2 set) (\<lambda>set.
     and_then (pending_updates set) (\<lambda>updates.
     let updates = sort_key v_voting_power updates
     in and_then (all_of
          [assert_eq 2 (length updates),
           assert_eq (stake_address (st_crypto e) stake3) (address (updates ! 0)),
           assert_eq 1 (v_voting_power (updates ! 0)),
           assert_eq (stake_address (st_crypto e) stake2) (address (updates ! 1)),
           assert_eq 6 (v_voting_power (updates ! 1))]) (\<lambda>_.
     and_then (block_rewards (st_vm e) (st_order e 0) set) (\<lambda>records.
     and_then (committed (st_io e) set file) (\<lambda>_. Ok ()))))))))))))))))))"

definition remove_validators :: "('f, 'er, 'tr, 'out, 'rng, 'vk, 'rec) set_test \<Rightarrow> unit result" where
  "remove_validators e =
     and_then (account_keys e 0) (\<lambda>aleo1. and_then (account_keys e 1) (\<lambda>aleo2.
     and_then (test_validator e tmint1 aleo1 5) (\<lambda>validator1.
     and_then (test_validator e tmint2 aleo2 5) (\<lambda>validator2.
     and_then (load_or_create (st_crypto e) (st_io e) None) (\<lambda>set.
     let address = validator_address (st_crypto e);
         set = replace (st_crypto e) [validator1, validator2] set;
         votes = hm_insert (address validator2) 5 [];
         set = begin_block (address validator2) (st_order e 0 votes) 1 set
     in and_then (unwrap (stake_new (st_crypto e) tmint2 (snd aleo2) (- 3))) (\<lambda>stake2.
     and_then (applied (st_crypto e) stake2 set) (\<lambda>set.
     and_then (pending_updates set) (\<lambda>updates.
     and_then (all_of
          [assert_eq 1 (length updates),
           assert_eq (stake_address (st_crypto e) stake2) (address (updates ! 0)),
           assert_eq 2 (v_voting_power (updates ! 0))]) (\<lambda>_.
     and_then (block_rewards (st_vm e) (st_order e 0) set) (\<lambda>records.
     and_then (committed (st_io e) set None) (\<lambda>file.
     let set = begin_block (address validator2) (st_order e 1 votes) 1 set
     in and_then (unwrap (stake_new (st_crypto e) tmint2 (snd aleo2) (- 2))) (\<lambda>stake2.
     and_then (applied (st_crypto e) stake2 set) (\<lambda>set.
     and_then (pending_updates set) (\<lambda>updates.
     and_then (all_of
          [assert_eq 1 (length updates),
           assert_eq (stake_address (st_crypto e) stake2) (address (updates ! 0)),
           assert_eq 0 (v_voting_power (updates ! 0))]) (\<lambda>_.
     and_then (block_rewards (st_vm e) (st_order e 0) set) (\<lambda>records.
     and_then (committed (st_io e) set file) (\<lambda>file.
     let set = begin_block (address validator2) (st_order e 2 votes) 1 set
     in and_then (pending_updates set) (\<lambda>updates.
     and_then (assert_eq 0 (length updates)) (\<lambda>_.
     and_then (block_rewards (st_vm e) (st_order e 0) set) (\<lambda>records.
     and_then (committed (st_io e) set file) (\<lambda>_. Ok ())))))))))))))))))))))"

definition validators_update_validations :: "('f, 'er, 'tr, 'out, 'rng, 'vk, 'rec) set_test \<Rightarrow> unit result" where
  "validators_update_validations e =
     and_then (account_keys e 0) (\<lambda>aleo1. and_then (account_keys e 1) (\<lambda>aleo2.
     and_then (test_validator e tmint1 aleo1 5) (\<lambda>validator1.
     and_then (test_validator e tmint2 aleo2 5) (\<lambda>validator2.
     and_then (load_or_create (st_crypto e) (st_io e) None) (\<lambda>set.
     let set = replace (st_crypto e) [validator1, validator2] set
     in and_then (account_keys e 2) (\<lambda>aleo2_fake.
     and_then (unwrap (stake_new (st_crypto e) tmint2 (snd aleo2_fake) 5)) (\<lambda>validator2_fake.
     and_then (unwrap_err (validate (st_crypto e) set validator2_fake)) (\<lambda>error.
     and_then (assert_eq DifferentAccount error) (\<lambda>_.
     and_then (account_keys e 3) (\<lambda>aleo3.
     and_then (unwrap (stake_new (st_crypto e) tmint3 (snd aleo3) (- 5))) (\<lambda>validator3.
     and_then (unwrap_err (validate (st_crypto e) set validator3)) (\<lambda>error.
     and_then (assert_eq NegativeVotingPower error) (\<lambda>_.
     and_then (unwrap_err (stake_new (st_crypto e) tmint3 (snd aleo3) 0)) (\<lambda>error.
     and_then (assert_eq ZeroStake error) (\<lambda>_.
     and_then (unwrap (stake_new (st_crypto e) tmint2 (snd aleo2) (- 6))) (\<lambda>validator2.
     and_then (unwrap_err (validate (st_crypto e) set validator2)) (\<lambda>error.
     assert_eq NotEnoughStake error)))))))))))))))))"


section \<open>What the tests rely on\<close>

text \<open>
  The four accounts are different, their addresses can be printed and parsed, the four keys
  parse and have different addresses, the validators file can be written, and a minted record
  belongs to its owner only, who decrypts the credits it was minted with. Records minted for
  different accounts or with different seeds have different commitments.
\<close>

definition owned_record ::
  "('f, 'er, 'tr, 'out, 'rng, 'vk, 'rec) set_test \<Rightarrow> (nat \<Rightarrow> 'vk \<times> aleo_address) \<Rightarrow> nat \<Rightarrow> u64 \<Rightarrow> 'er \<Rightarrow> bool" where
  "owned_record e account i credits r \<longleftrightarrow>
     (\<forall>j<4. ac_is_owner (st_accounts e) r (snd (account j)) (fst (account j)) = (j = i))
     \<and> (\<exists>plain. ac_decrypt (st_accounts e) r (fst (account i)) = Inr plain \<and> ac_gates (st_accounts e) plain = credits)"

definition set_test_laws ::
  "('f, 'er, 'tr, 'out, 'rng, 'vk, 'rec) set_test \<Rightarrow> (nat \<Rightarrow> 'vk \<times> aleo_address) \<Rightarrow> (nat \<Rightarrow> pub_key) \<Rightarrow> bool" where
  "set_test_laws e account key \<longleftrightarrow>
     (\<forall>i<4. account_keys e i = Ok (account i)
        \<and> vm_parse_address (st_vm e) (ac_address_to_string (st_accounts e) (snd (account i))) = Ok (snd (account i))
        \<and> parse_pub_key (st_crypto e) ([tmint1, tmint2, tmint3, tmint4] ! i) = Ok (key i))
     \<and> inj_on (\<lambda>i. snd (account i)) {..<4} \<and> inj_on (\<lambda>i. pub_key_to_address (st_crypto e) (key i)) {..<4}
     \<and> (\<forall>i. any_order (st_order e i)) \<and> (\<forall>file json. fst (io_write (st_io e) file json))
     \<and> (\<forall>i<4. \<forall>credits height. \<exists>cm r.
          vm_mint_record (st_vm e) ''credits.aleo'' ''credits'' (snd (account i)) credits height = Ok (cm, r)
          \<and> owned_record e account i credits r)"

definition fresh_commitments ::
  "('f, 'er, 'tr, 'out, 'rng, 'vk, 'rec) set_test \<Rightarrow> (nat \<Rightarrow> 'vk \<times> aleo_address) \<Rightarrow> bool" where
  "fresh_commitments e account \<longleftrightarrow> inj (st_field_rank e)
     \<and> (\<forall>i<4. \<forall>j<4. \<forall>m n g h cm r r'.
          vm_mint_record (st_vm e) ''credits.aleo'' ''credits'' (snd (account i)) m g = Ok (cm, r) \<and>
          vm_mint_record (st_vm e) ''credits.aleo'' ''credits'' (snd (account j)) n h = Ok (cm, r') \<longrightarrow> i = j \<and> g = h)"

lemma fresh_commitmentsD:
  assumes "fresh_commitments e account" and "i < 4" and "j < 4"
    and "vm_mint_record (st_vm e) ''credits.aleo'' ''credits'' (snd (account i)) m g = Ok (cm, r)"
    and "vm_mint_record (st_vm e) ''credits.aleo'' ''credits'' (snd (account j)) n h = Ok (cm, r')"
  shows "i = j \<and> g = h"
  using assms unfolding fresh_commitments_def by blast

text \<open>The i-th validator of the tests, and its address.\<close>

abbreviation test_address :: "('f, 'er, 'tr, 'out, 'rng, 'vk, 'rec) set_test \<Rightarrow> (nat \<Rightarrow> pub_key) \<Rightarrow> nat \<Rightarrow> address" where
  "test_address e key i \<equiv> pub_key_to_address (st_crypto e) (key i)"

definition nth_validator :: "(nat \<Rightarrow> 'vk \<times> aleo_address) \<Rightarrow> (nat \<Rightarrow> pub_key) \<Rightarrow> nat \<Rightarrow> u64 \<Rightarrow> validator" where
  "nth_validator account key i p = \<lparr>v_aleo_address = snd (account i), v_pub_key = key i, v_voting_power = p\<rparr>"

lemma nth_validator_simps [simp]:
  "v_aleo_address (nth_validator account key i p) = snd (account i)"
  "v_pub_key (nth_validator account key i p) = key i"
  "v_voting_power (nth_validator account key i p) = p"
  "validator_address (st_crypto e) (nth_validator account key i p) = test_address e key i"
  "nth_validator account key i p\<lparr>v_voting_power := q\<rparr> = nth_validator account key i q"
  by (simp_all add: nth_validator_def validator_address_def)

lemma test_laws_keys:
  assumes "set_test_laws e account key"
  shows "account_keys e 0 = Ok (account 0)" "account_keys e (Suc 0) = Ok (account 1)" "account_keys e 1 = Ok (account 1)"
    "account_keys e 2 = Ok (account 2)" "account_keys e 3 = Ok (account 3)"
    "parse_pub_key (st_crypto e) tmint1 = Ok (key 0)" "parse_pub_key (st_crypto e) tmint2 = Ok (key 1)"
    "parse_pub_key (st_crypto e) tmint3 = Ok (key 2)" "parse_pub_key (st_crypto e) tmint4 = Ok (key 3)"
proof -
  have all: "\<forall>i<4. account_keys e i = Ok (account i)
      \<and> parse_pub_key (st_crypto e) ([tmint1, tmint2, tmint3, tmint4] ! i) = Ok (key i)"
    using assms by (simp add: set_test_laws_def)
  from all [rule_format, of 0] all [rule_format, of 1] all [rule_format, of 2] all [rule_format, of 3]
  show "account_keys e 0 = Ok (account 0)" "account_keys e (Suc 0) = Ok (account 1)" "account_keys e 1 = Ok (account 1)"
    "account_keys e 2 = Ok (account 2)" "account_keys e 3 = Ok (account 3)"
    "parse_pub_key (st_crypto e) tmint1 = Ok (key 0)" "parse_pub_key (st_crypto e) tmint2 = Ok (key 1)"
    "parse_pub_key (st_crypto e) tmint3 = Ok (key 2)" "parse_pub_key (st_crypto e) tmint4 = Ok (key 3)"
    by simp_all
qed

lemma test_laws_validators:
  assumes "set_test_laws e account key"
  shows "test_validator e tmint1 (account 0) p = Ok (nth_validator account key 0 p)"
    "test_validator e tmint2 (account 1) p = Ok (nth_validator account key 1 p)"
    "test_validator e tmint3 (account 2) p = Ok (nth_validator account key 2 p)"
    "test_validator e tmint4 (account 3) p = Ok (nth_validator account key 3 p)"
proof -
  have all: "\<forall>i<4. vm_parse_address (st_vm e) (ac_address_to_string (st_accounts e) (snd (account i))) = Ok (snd (account i))"
    using assms by (simp add: set_test_laws_def)
  from all [rule_format, of 0] all [rule_format, of 1] all [rule_format, of 2] all [rule_format, of 3]
  show "test_validator e tmint1 (account 0) p = Ok (nth_validator account key 0 p)"
    "test_validator e tmint2 (account 1) p = Ok (nth_validator account key 1 p)"
    "test_validator e tmint3 (account 2) p = Ok (nth_validator account key 2 p)"
    "test_validator e tmint4 (account 3) p = Ok (nth_validator account key 3 p)"
    by (simp_all add: test_validator_def validator_from_str_def test_laws_keys [OF assms] nth_validator_def)
qed

lemma test_laws_distinct:
  assumes "set_test_laws e account key" and "i < 4" and "j < 4"
  shows "test_address e key i = test_address e key j \<longleftrightarrow> i = j"
    and "snd (account i) = snd (account j) \<longleftrightarrow> i = j"
  using assms by (auto simp: set_test_laws_def inj_on_def)


section \<open>The rewards an account decrypts\<close>

lemma decrypt_Nil: "decrypt_rewards e owner [] = Ok 0"
  by (simp add: decrypt_rewards_def)

lemma decrypt_Cons:
  assumes "set_test_laws e account key" and "owned_record e account j credits r" and "i < 4" and "j < 4"
    and "decrypt_rewards e (account i) records = Ok w"
  shows "decrypt_rewards e (account i) ((cm, r) # records) = Ok ((if i = j then credits else 0) + w)"
proof -
  have total: "fold (\<lambda>g acc. acc + g) gates a = a + sum_list gates" for gates and a :: u64
    by (induction gates arbitrary: a) (simp_all add: add.assoc)
  from assms(2) obtain plain where "ac_decrypt (st_accounts e) r (fst (account j)) = Inr plain"
    "ac_gates (st_accounts e) plain = credits" by (auto simp: owned_record_def)
  moreover have "ac_is_owner (st_accounts e) r (snd (account i)) (fst (account i)) = (i = j)"
    using assms(2,3) by (simp add: owned_record_def)
  ultimately show ?thesis
    using assms(5) by (auto simp: decrypt_rewards_def total map_ok_Ok_iff)
qed

definition rewarded :: "('f, 'er, 'tr, 'out, 'rng, 'vk, 'rec) set_test \<Rightarrow> (nat \<Rightarrow> 'vk \<times> aleo_address) \<Rightarrow>
   (nat \<Rightarrow> pub_key) \<Rightarrow> validator_set \<Rightarrow> address \<Rightarrow> bool" where
  "rewarded e account key vs a \<longleftrightarrow> (\<exists>j<4. a = test_address e key j
     \<and> (\<exists>v. map_of (vs_validators vs) a = Some v \<and> v_aleo_address v = snd (account j)))"

lemma decrypt_minted:
  assumes laws: "set_test_laws e account key" and "\<forall>(a, m) \<in> set es. rewarded e account key vs a"
  shows "\<exists>records. try_map (reward_record (st_vm e) vs) es = Ok records
    \<and> (\<forall>i<4. decrypt_rewards e (account i) records = Ok (\<Sum>(a, m)\<leftarrow>es. if a = test_address e key i then m else 0))"
  using assms(2)
proof (induction es)
  case Nil
  then show ?case by (simp add: decrypt_Nil)
next
  case (Cons am es)
  obtain a m where am: "am = (a, m)" by force
  with Cons.prems obtain j v where j: "j < 4" "a = test_address e key j" "map_of (vs_validators vs) a = Some v"
    "v_aleo_address v = snd (account j)" by (auto simp: rewarded_def)
  from laws j(1) obtain cm r where mint: "vm_mint_record (st_vm e) ''credits.aleo'' ''credits'' (snd (account j)) m
      (vs_current_height vs) = Ok (cm, r)" and own: "owned_record e account j m r"
    unfolding set_test_laws_def by blast
  from Cons obtain records where records: "try_map (reward_record (st_vm e) vs) es = Ok records"
    and sums: "\<forall>i<4. decrypt_rewards e (account i) records = Ok (\<Sum>(a, m)\<leftarrow>es. if a = test_address e key i then m else 0)"
    by auto
  have "try_map (reward_record (st_vm e) vs) (am # es) = Ok ((cm, r) # records)"
    using mint records j(3,4) am by (simp add: reward_record_def)
  moreover have "decrypt_rewards e (account i) ((cm, r) # records)
      = Ok (\<Sum>(a, m)\<leftarrow>am # es. if a = test_address e key i then m else 0)" if "i < 4" for i
    using decrypt_Cons [OF laws own that j(1)] sums that test_laws_distinct(1) [OF laws j(1) that] am j(2) by auto
  ultimately show ?case by blast
qed

text \<open>Whatever the iteration orders are, the records are minted for the same entries.\<close>

lemma block_rewards_entries:
  assumes laws: "set_test_laws e account key" and "vs_current_proposer vs = Some proposer"
    and "vs_current_votes vs = st_order e k votes" and "votes_ok votes"
  shows "\<exists>es. mset es = mset (full_rewards (vs_fees vs) proposer votes)
    \<and> block_rewards (st_vm e) (st_order e l) vs = try_map (reward_record (st_vm e) vs) es"
proof -
  let ?es = "st_order e l (full_rewards (vs_fees vs) proposer (st_order e k votes))"
  have orders: "mset (st_order e k votes) = mset votes"
    "mset ?es = mset (full_rewards (vs_fees vs) proposer (st_order e k votes))"
    using laws by (simp_all add: set_test_laws_def any_order_def)
  have "hm_ok votes" using assms(4) by (simp add: votes_ok_def)
  have "mset (map fst (st_order e k votes)) = mset (map fst votes)" using orders(1) by simp
  from mset_eq_imp_distinct_iff [OF this] \<open>hm_ok votes\<close> have ok: "hm_ok (st_order e k votes)" by (simp add: hm_ok_def)
  have "st_order e k votes = [] \<longleftrightarrow> votes = []" using mset_eq_length [OF orders(1)] by auto
  then have "votes_ok (st_order e k votes)"
    using assms(4) ok total_voting_power_perm [OF orders(1)] by (auto simp: votes_ok_def)
  then have run: "block_rewards (st_vm e) (st_order e l) vs = try_map (reward_record (st_vm e) vs) ?es"
    by (simp add: block_rewards_def assms(2,3) reward_map_Ok)
  have "map_of (st_order e k votes) = map_of votes"
    using ok \<open>hm_ok votes\<close> mset_eq_setD [OF orders(1)] unfolding hm_ok_def by (subst map_of_inject_set) simp_all
  from full_rewards_perm [OF ok \<open>hm_ok votes\<close> this] run orders(2) show ?thesis by metis
qed

lemma block_rewards_decrypted:
  assumes laws: "set_test_laws e account key" and "vs_current_proposer vs = Some proposer"
    and "vs_current_votes vs = st_order e k votes" and "votes_ok votes"
    and known: "\<forall>a \<in> insert proposer (fst ` set votes). rewarded e account key vs a"
  shows "\<exists>records. block_rewards (st_vm e) (st_order e l) vs = Ok records
    \<and> (\<forall>i<4. decrypt_rewards e (account i) records
        = Ok (\<Sum>(a, m)\<leftarrow>full_rewards (vs_fees vs) proposer votes. if a = test_address e key i then m else 0))"
proof -
  from block_rewards_entries [OF assms(1-4)] obtain es where
    perm: "mset es = mset (full_rewards (vs_fees vs) proposer votes)"
    and run: "block_rewards (st_vm e) (st_order e l) vs = try_map (reward_record (st_vm e) vs) es" by blast
  have "fst ` set es = insert proposer (fst ` set votes)"
    unfolding mset_eq_setD [OF perm] by (rule keys_full_rewards)
  then have "rewarded e account key vs (fst x)" if "x \<in> set es" for x
    using known that by (metis imageI)
  then have "\<forall>(a, m) \<in> set es. rewarded e account key vs a" by auto
  from decrypt_minted [OF laws this] show ?thesis
    unfolding run sum_list_perm [OF perm] .
qed


section \<open>The tests pass\<close>

lemma all_of_simps [simp]:
  "all_of [] = Ok ()" "all_of (r # rs) = and_then r (\<lambda>_. all_of rs)"
  by (simp_all add: all_of_def)

text \<open>A set that was just created, with its validators.\<close>

definition started_set :: "(address, validator) hash_map \<Rightarrow> validator_set" where
  "started_set validators =
     \<lparr>vs_validators = validators, vs_fees = 0, vs_current_proposer = None,
      vs_current_votes = [], vs_current_height = 0, vs_updated_validators = []\<rparr>"

lemma load_new_set: "load_or_create c io None = Ok (started_set [])"
  by (simp add: load_or_create_def started_set_def)

lemma replace_started: "replace c validators (started_set old) = started_set (by_address c validators)"
  by (simp add: replace_def started_set_def)

lemma by_address_tests:
  assumes "set_test_laws e account key"
  shows "by_address (st_crypto e) [nth_validator account key 0 p, nth_validator account key 1 q]
      = [(test_address e key 0, nth_validator account key 0 p), (test_address e key 1, nth_validator account key 1 q)]"
    and "by_address (st_crypto e) [nth_validator account key 0 p, nth_validator account key 1 q,
        nth_validator account key 2 r, nth_validator account key 3 w]
      = [(test_address e key 0, nth_validator account key 0 p), (test_address e key 1, nth_validator account key 1 q),
         (test_address e key 2, nth_validator account key 2 r), (test_address e key 3, nth_validator account key 3 w)]"
  by (simp_all add: by_address_def hm_collect_def hm_insert_def test_laws_distinct(1) [OF assms])

lemmas reward_evaluation = full_rewards_def voter_shares_def share_def leftover_def total_voter_reward_def
  PROPOSER_REWARD_PERCENTAGE_def BASELINE_BLOCK_REWARD_def total_voting_power_sum

lemma rewarded_started:
  assumes "set_test_laws e account key" and "j < 4"
    and "map_of (vs_validators vs) (test_address e key j) = Some (nth_validator account key j p)"
  shows "rewarded e account key vs (test_address e key j)"
  using assms by (auto simp: rewarded_def intro!: exI [of _ j])

lemma generate_rewards_passes:
  assumes laws: "set_test_laws e account key"
  shows "generate_rewards e = Ok ()"
proof -
  note diff = test_laws_distinct(1) [OF laws]
  let ?A = "test_address e key" and ?V = "\<lambda>i. nth_validator account key i 1"
  let ?set = "started_set [(?A 0, ?V 0), (?A 1, ?V 1), (?A 2, ?V 2), (?A 3, ?V 3)]"
  let ?votes = "[(?A 0, 10), (?A 1, 15), (?A 2, 25)]"
  let ?s1 = "collect 35 (collect 20 (begin_block (?A 0) (st_order e 0 ?votes) 1 ?set))"
  let ?s2 = "collect 10 (begin_block (?A 3) (st_order e 1 [(?A 3, 10)]) 2 ?s1)"
  have known: "rewarded e account key ?s1 (?A i)" "rewarded e account key ?s2 (?A i)" if "i \<in> {0, 1, 2, 3}" for i
    using that by (auto intro!: rewarded_started [OF laws, where p = 1] simp: started_set_def begin_block_def collect_def diff)
  have "votes_ok ?votes" "votes_ok [(?A 3, 10)]"
    by (simp_all add: votes_ok_def hm_ok_def total_voting_power_sum diff)
  then obtain records records' where
    records: "block_rewards (st_vm e) (st_order e 0) ?s1 = Ok records"
      "\<forall>i<4. decrypt_rewards e (account i) records
        = Ok (\<Sum>(a, m)\<leftarrow>full_rewards (vs_fees ?s1) (?A 0) ?votes. if a = ?A i then m else 0)"
    and records': "block_rewards (st_vm e) (st_order e 0) ?s2 = Ok records'"
      "\<forall>i<4. decrypt_rewards e (account i) records'
        = Ok (\<Sum>(a, m)\<leftarrow>full_rewards (vs_fees ?s2) (?A 3) [(?A 3, 10)]. if a = ?A i then m else 0)"
    using block_rewards_decrypted [OF laws, of ?s1 "?A 0" 0 ?votes 0]
      block_rewards_decrypted [OF laws, of ?s2 "?A 3" 1 "[(?A 3, 10)]" 0] known
    by (auto simp: begin_block_def collect_def)
  have fees: "vs_fees ?s1 = 155" "vs_fees ?s2 = 110"
    by (simp_all add: begin_block_def collect_def BASELINE_BLOCK_REWARD_def)
  have votes: "hm_insert (?A 2) 25 (hm_insert (?A 1) 15 (hm_insert (?A 0) 10 [])) = ?votes"
    "hm_insert (?A 3) 10 [] = [(?A 3, 10)]"
    by (simp_all add: hm_insert_def diff)
  have sums: "decrypt_rewards e (account 0) records = Ok 94" "decrypt_rewards e (account 1) records = Ok 23"
    "decrypt_rewards e (account 2) records = Ok 38" "decrypt_rewards e (account 3) records = Ok 0"
    "decrypt_rewards e (account 0) records' = Ok 0" "decrypt_rewards e (account 1) records' = Ok 0"
    "decrypt_rewards e (account 2) records' = Ok 0" "decrypt_rewards e (account 3) records' = Ok 110"
    using records(2) records'(2) unfolding fees by (simp_all add: reward_evaluation hm_insert_def diff)
  show ?thesis
    unfolding generate_rewards_def
    by (simp add: test_laws_keys [OF laws] test_laws_validators [OF laws] load_new_set replace_started
        by_address_tests [OF laws] Let_def votes records(1) records'(1) sums BASELINE_BLOCK_REWARD_def
        PROPOSER_REWARD_PERCENTAGE_def del: One_nat_def)
qed


lemma current_proposer_hadnt_vote_passes:
  assumes laws: "set_test_laws e account key"
  shows "current_proposer_hadnt_vote e = Ok ()"
proof -
  note diff = test_laws_distinct(1) [OF laws]
  let ?A = "test_address e key" and ?V = "\<lambda>i. nth_validator account key i 1"
  let ?s = "collect 35 (begin_block (?A 0) (st_order e 0 [(?A 1, 15)]) 1 (started_set [(?A 0, ?V 0), (?A 1, ?V 1)]))"
  have known: "rewarded e account key ?s (?A i)" if "i \<in> {0, 1}" for i
    using that by (auto intro!: rewarded_started [OF laws, where p = 1] simp: started_set_def begin_block_def collect_def diff)
  have "votes_ok [(?A 1, 15)]" by (simp add: votes_ok_def hm_ok_def total_voting_power_sum)
  then obtain records where records: "block_rewards (st_vm e) (st_order e 0) ?s = Ok records"
    and sum: "\<forall>i<4. decrypt_rewards e (account i) records
        = Ok (\<Sum>(a, m)\<leftarrow>full_rewards (vs_fees ?s) (?A 0) [(?A 1, 15)]. if a = ?A i then m else 0)"
    using block_rewards_decrypted [OF laws, of ?s "?A 0" 0 "[(?A 1, 15)]" 0] known
    by (auto simp: begin_block_def collect_def)
  have fees: "vs_fees ?s = 135" by (simp add: begin_block_def collect_def BASELINE_BLOCK_REWARD_def)
  have votes: "hm_insert (?A 1) 15 [] = [(?A 1, 15)]" by (simp add: hm_insert_def)
  have "decrypt_rewards e (account 0) records = Ok 68" "decrypt_rewards e (account 1) records = Ok 67"
    using sum unfolding fees by (simp_all add: reward_evaluation hm_insert_def diff)
  then show ?thesis
    unfolding current_proposer_hadnt_vote_def
    by (simp add: test_laws_keys [OF laws] test_laws_validators [OF laws] load_new_set replace_started
        by_address_tests [OF laws] Let_def votes records BASELINE_BLOCK_REWARD_def
        PROPOSER_REWARD_PERCENTAGE_def del: One_nat_def)
qed

lemma genesis_rewards_passes:
  assumes laws: "set_test_laws e account key"
  shows "genesis_rewards e = Ok ()"
proof -
  note diff = test_laws_distinct(1) [OF laws]
  let ?A = "test_address e key" and ?V = "\<lambda>i. nth_validator account key i 1"
  let ?s = "collect 35 (collect 20 (begin_block (?A 0) (st_order e 0 []) 1 (started_set [(?A 0, ?V 0), (?A 1, ?V 1)])))"
  have known: "rewarded e account key ?s (?A 0)"
    by (auto intro!: rewarded_started [OF laws, where p = 1] simp: started_set_def begin_block_def collect_def)
  have "votes_ok []" by (simp add: votes_ok_def)
  then obtain records where records: "block_rewards (st_vm e) (st_order e 0) ?s = Ok records"
    and sum: "\<forall>i<4. decrypt_rewards e (account i) records
        = Ok (\<Sum>(a, m)\<leftarrow>full_rewards (vs_fees ?s) (?A 0) []. if a = ?A i then m else 0)"
    using block_rewards_decrypted [OF laws, of ?s "?A 0" 0 "[]" 0] known
    by (auto simp: begin_block_def collect_def)
  have fees: "vs_fees ?s = 155" by (simp add: begin_block_def collect_def BASELINE_BLOCK_REWARD_def)
  have "decrypt_rewards e (account 0) records = Ok 155" "decrypt_rewards e (account 1) records = Ok 0"
    using sum unfolding fees by (simp_all add: reward_evaluation hm_insert_def diff)
  then show ?thesis
    unfolding genesis_rewards_def
    by (simp add: test_laws_keys [OF laws] test_laws_validators [OF laws] load_new_set replace_started
        by_address_tests [OF laws] Let_def records BASELINE_BLOCK_REWARD_def del: One_nat_def)
qed


text \<open>The two records of a block of the determinism test, whichever node mints them.\<close>

lemma sort_two: "sort_records e [a, b] = (if st_field_rank e (fst a) \<le> st_field_rank e (fst b) then [a, b] else [b, a])"
  by (auto simp: sort_records_def)

lemma two_rewards:
  assumes laws: "set_test_laws e account key" and fresh: "fresh_commitments e account"
    and minted: "\<forall>i<4. \<forall>m h. vm_mint_record (st_vm e) ''credits.aleo'' ''credits'' (snd (account i)) m h = Ok (x i m h)"
    and "vs_current_proposer vs = Some (test_address e key 0)"
    and "vs_current_votes vs = st_order e k [(test_address e key 0, 10), (test_address e key 1, 15)]"
    and "vs_validators vs = [(test_address e key 0, nth_validator account key 0 1), (test_address e key 1, nth_validator account key 1 1)]"
    and "vs_fees vs = 200" and "vs_current_height vs = h"
  shows "\<exists>records. block_rewards (st_vm e) (st_order e l) vs = Ok records
    \<and> sort_records e records = sort_records e [x 0 140 h, x 1 60 h]"
proof -
  note diff = test_laws_distinct(1) [OF laws]
  let ?A = "test_address e key" and ?x0 = "x 0 140 h" and ?x1 = "x 1 60 h"
  have "votes_ok [(?A 0, 10), (?A 1, 15)]" by (simp add: votes_ok_def hm_ok_def total_voting_power_sum diff)
  from block_rewards_entries [OF laws assms(4,5) this] obtain es where
    perm: "mset es = mset (full_rewards 200 (?A 0) [(?A 0, 10), (?A 1, 15)])"
    and run: "block_rewards (st_vm e) (st_order e l) vs = try_map (reward_record (st_vm e) vs) es"
    unfolding assms(7) by blast
  have entries: "full_rewards 200 (?A 0) [(?A 0, 10), (?A 1, 15)] = [(?A 0, 140), (?A 1, 60)]"
    by (simp add: reward_evaluation hm_insert_def diff)
  have "try_map (reward_record (st_vm e) vs) [(?A 0, 140), (?A 1, 60)] = Ok [?x0, ?x1]"
    using minted by (simp add: reward_record_def assms(6,8) diff)
  from try_map_perm [OF this perm [unfolded entries]] obtain records where
    ok: "block_rewards (st_vm e) (st_order e l) vs = Ok records" and two: "mset records = mset [?x0, ?x1]"
    unfolding run by blast
  have "fst ?x0 \<noteq> fst ?x1"
  proof
    assume eq: "fst ?x0 = fst ?x1"
    have "vm_mint_record (st_vm e) ''credits.aleo'' ''credits'' (snd (account 0)) 140 h = Ok (fst ?x0, snd ?x0)"
      "vm_mint_record (st_vm e) ''credits.aleo'' ''credits'' (snd (account 1)) 60 h = Ok (fst ?x0, snd ?x1)"
      using minted eq by (metis prod.collapse zero_less_numeral, metis one_less_numeral_iff prod.collapse semiring_norm(76))
    from fresh_commitmentsD [OF fresh _ _ this] show False by simp
  qed
  then have "inj_on (\<lambda>k. st_field_rank e (fst k)) (set records)"
    using mset_eq_setD [OF two] fresh unfolding fresh_commitments_def by (auto simp: inj_on_def inj_def)
  from sort_key_inj_key_eq [OF _ this, of "sort_records e [?x0, ?x1]"] two
  have "sort_records e records = sort_records e [?x0, ?x1]" by (simp add: sort_records_def)
  with ok show ?thesis by blast
qed

text \<open>The records of all amounts and blocks, those of two blocks, and what their owner reads.\<close>

lemma minted_records:
  assumes "set_test_laws e account key"
  obtains x where "\<forall>i<4. \<forall>m h. vm_mint_record (st_vm e) ''credits.aleo'' ''credits'' (snd (account i)) m h = Ok (x i m h)"
    and "\<forall>i<4. \<forall>m h. owned_record e account i m (snd (x i m h))"
proof -
  have "\<exists>y. vm_mint_record (st_vm e) ''credits.aleo'' ''credits'' (snd (account i)) m h = Ok y
      \<and> owned_record e account i m (snd y)" if "i < 4" for i m h
    using assms that unfolding set_test_laws_def by fastforce
  then show ?thesis using that by metis
qed

lemma other_block:
  assumes fresh: "fresh_commitments e account"
    and minted: "\<forall>i<4. \<forall>m h. vm_mint_record (st_vm e) ''credits.aleo'' ''credits'' (snd (account i)) m h = Ok (x i m h)"
    and small: "i < 4" "j < 4"
  shows "x i m 1 \<noteq> x j n 2"
proof
  assume "x i m 1 = x j n 2"
  then have "vm_mint_record (st_vm e) ''credits.aleo'' ''credits'' (snd (account i)) m 1 = Ok (fst (x i m 1), snd (x i m 1))"
    "vm_mint_record (st_vm e) ''credits.aleo'' ''credits'' (snd (account j)) n 2 = Ok (fst (x i m 1), snd (x i m 1))"
    using minted small by simp_all
  from fresh_commitmentsD [OF fresh small this] show False by simp
qed

lemma two_gates:
  assumes laws: "set_test_laws e account key" and owned: "\<forall>i<4. \<forall>m h. owned_record e account i m (snd (x i m h))"
  shows "decrypt_rewards e (account 0) (sort_records e [x 0 140 h, x 1 60 h]) = Ok 140"
proof -
  have one: "decrypt_rewards e (account 0) (x j m h # rs) = Ok ((if j = 0 then m else 0) + w)"
    if "j < 4" "decrypt_rewards e (account 0) rs = Ok w" for j m rs w
    using decrypt_Cons [OF laws, of j m "snd (x j m h)" 0 rs w "fst (x j m h)"] owned that by auto
  show ?thesis
    using one [of 0 "[x 1 60 h]" 0 140] one [of 1 "[]" 0 60] one [of 1 "[x 0 140 h]" 140 60] one [of 0 "[]" 0 140]
    by (simp add: sort_two decrypt_Nil)
qed

lemma rewards_are_deterministic_passes:
  assumes laws: "set_test_laws e account key" and fresh: "fresh_commitments e account"
  shows "rewards_are_deterministic e = Ok ()"
proof -
  note diff = test_laws_distinct(1) [OF laws]
  let ?A = "test_address e key" and ?V = "\<lambda>i. nth_validator account key i 1"
  let ?set = "started_set [(?A 0, ?V 0), (?A 1, ?V 1)]" and ?votes = "[(?A 0, 10), (?A 1, 15)]"
  let ?next = "\<lambda>k h vs. collect 100 (begin_block (?A 0) (st_order e k ?votes) h vs)"
  obtain x where minted: "\<forall>i<4. \<forall>m h. vm_mint_record (st_vm e) ''credits.aleo'' ''credits'' (snd (account i)) m h = Ok (x i m h)"
    and owned: "\<forall>i<4. \<forall>m h. owned_record e account i m (snd (x i m h))"
    using minted_records [OF laws] by blast
  have next_two: "\<exists>records. block_rewards (st_vm e) (st_order e l) (?next k h vs) = Ok records
      \<and> sort_records e records = sort_records e [x 0 140 h, x 1 60 h]"
    if "vs_validators vs = [(?A 0, ?V 0), (?A 1, ?V 1)]" for k l h vs
    by (rule two_rewards [OF laws fresh minted])
      (simp_all add: begin_block_def collect_def BASELINE_BLOCK_REWARD_def that)
  have vals: "vs_validators ?set = [(?A 0, ?V 0), (?A 1, ?V 1)]"
    "vs_validators (?next k h ?set) = [(?A 0, ?V 0), (?A 1, ?V 1)]" for k h
    by (simp_all add: started_set_def begin_block_def collect_def)
  obtain r11 r21 r12 r22 where
    run: "block_rewards (st_vm e) (st_order e 0) (?next 0 1 ?set) = Ok r11"
      "block_rewards (st_vm e) (st_order e 1) (?next 1 1 ?set) = Ok r21"
      "block_rewards (st_vm e) (st_order e 0) (?next 2 2 (?next 0 1 ?set)) = Ok r12"
      "block_rewards (st_vm e) (st_order e 1) (?next 3 2 (?next 1 1 ?set)) = Ok r22"
    and sorted: "sort_records e r11 = sort_records e [x 0 140 1, x 1 60 1]" "sort_records e r21 = sort_records e [x 0 140 1, x 1 60 1]"
      "sort_records e r12 = sort_records e [x 0 140 2, x 1 60 2]" "sort_records e r22 = sort_records e [x 0 140 2, x 1 60 2]"
    using next_two [OF vals(1)] next_two [OF vals(2)] by metis
  have distinct_blocks: "sort_records e [x 0 140 1, x 1 60 1] \<noteq> sort_records e [x 0 140 2, x 1 60 2]"
    using other_block [OF fresh minted, of 0 0] other_block [OF fresh minted, of 0 1] by (simp add: sort_two)
  have votes: "hm_insert (?A 1) 15 (hm_insert (?A 0) 10 []) = ?votes" by (simp add: hm_insert_def diff)
  show ?thesis
    unfolding rewards_are_deterministic_def
    by (simp add: test_laws_keys [OF laws] test_laws_validators [OF laws] load_new_set replace_started
        by_address_tests [OF laws] Let_def votes run sorted two_gates [OF laws owned] distinct_blocks del: One_nat_def)
qed


definition nth_stake :: "(nat \<Rightarrow> 'vk \<times> aleo_address) \<Rightarrow> (nat \<Rightarrow> pub_key) \<Rightarrow> nat \<Rightarrow> i64 \<Rightarrow> stake" where
  "nth_stake account key i d = \<lparr>s_aleo_address = snd (account i), s_pub_key = key i, s_gates_delta = d\<rparr>"

lemma nth_stake_simps [simp]:
  "stake_address (st_crypto e) (nth_stake account key i d) = test_address e key i"
  "s_aleo_address (nth_stake account key i d) = snd (account i)"
  "s_gates_delta (nth_stake account key i d) = d"
  "s_pub_key (nth_stake account key i d) = key i"
  by (simp_all add: nth_stake_def stake_address_def)

lemma test_laws_stakes:
  assumes "set_test_laws e account key" and "d \<noteq> 0"
  shows "stake_new (st_crypto e) tmint2 (snd (account 2)) d
      = Ok \<lparr>s_aleo_address = snd (account 2), s_pub_key = key 1, s_gates_delta = d\<rparr>"
    and "stake_new (st_crypto e) tmint2 (snd (account 1)) d = Ok (nth_stake account key 1 d)"
    and "stake_new (st_crypto e) tmint3 (snd (account 2)) d = Ok (nth_stake account key 2 d)"
    and "stake_new (st_crypto e) tmint3 (snd (account 3)) d
      = Ok \<lparr>s_aleo_address = snd (account 3), s_pub_key = key 2, s_gates_delta = d\<rparr>"
  using assms(2) by (simp_all add: stake_new_def test_laws_keys [OF assms(1)] nth_stake_def)

lemma applied_update:
  assumes "updated_validator c vs stake = Ok v"
  shows "applied c stake vs = Ok (marked c stake vs\<lparr>vs_validators := hm_insert (stake_address c stake) v (vs_validators vs)\<rparr>)"
  using assms by (simp add: applied_def apply_update_eq)

lemma committed_Ok:
  assumes "set_test_laws e account key"
  shows "\<exists>new. committed (st_io e) vs old = Ok new"
proof -
  let ?json = "io_to_json (st_io e) (map snd (vs_validators vs))"
  have "fst (io_write (st_io e) old ?json)" using assms by (simp add: set_test_laws_def)
  then show ?thesis
    by (cases "io_write (st_io e) old ?json") (simp add: committed_def commit_validators_def Let_def)
qed

text \<open>One vote, for the proposer: the rewards of the tests that only call \<open>block_rewards\<close>.\<close>

lemma proposer_rewards_Ok:
  assumes laws: "set_test_laws e account key" and "j < 4" and "p \<noteq> 0"
    and "vs_current_proposer vs = Some (test_address e key j)"
    and "vs_current_votes vs = st_order e k [(test_address e key j, p)]"
    and "map_of (vs_validators vs) (test_address e key j) = Some (nth_validator account key j q)"
  shows "\<exists>records. block_rewards (st_vm e) (st_order e l) vs = Ok records"
proof -
  have "votes_ok [(test_address e key j, p)]" using assms(3) by (simp add: votes_ok_def hm_ok_def total_voting_power_sum)
  moreover have "rewarded e account key vs (test_address e key j)" by (rule rewarded_started [OF laws assms(2,6)])
  ultimately show ?thesis using block_rewards_decrypted [OF laws assms(4,5)] by auto
qed

lemma add_update_validators_passes:
  assumes laws: "set_test_laws e account key"
  shows "add_update_validators e = Ok ()"
proof -
  note diff = test_laws_distinct(1) [OF laws]
  let ?c = "st_crypto e" and ?A = "test_address e key" and ?V = "nth_validator account key"
  let ?set = "started_set [(?A 0, ?V 0 1), (?A 1, ?V 1 1)]"
  define s1 where "s1 = begin_block (?A 0) (st_order e 0 [(?A 0, 15)]) 1 ?set"
  define s2 where "s2 = begin_block (?A 0) (st_order e 1 [(?A 0, 15)]) 1 s1"
  define s4 where "s4 = s2\<lparr>vs_updated_validators := [?A 1, ?A 2],
    vs_validators := [(?A 0, ?V 0 1), (?A 1, ?V 1 6), (?A 2, ?V 2 1)]\<rparr>"
  have vals: "vs_validators s2 = [(?A 0, ?V 0 1), (?A 1, ?V 1 1)]" "vs_updated_validators s2 = []"
    by (simp_all add: s1_def s2_def begin_block_def started_set_def)
  have new: "updated_validator ?c s2 (nth_stake account key 2 1) = Ok (?V 2 1)"
    by (simp add: updated_validator_def vals diff from_stake_Ok_iff nth_validator_def)
  define s3 where "s3 = s2\<lparr>vs_updated_validators := [?A 2],
    vs_validators := [(?A 0, ?V 0 1), (?A 1, ?V 1 1), (?A 2, ?V 2 1)]\<rparr>"
  have stake3: "applied ?c (nth_stake account key 2 1) s2 = Ok s3"
    by (simp add: applied_update [OF new] marked_def vals hm_insert_def diff s3_def List.insert_def)
  have old: "updated_validator ?c s3 (nth_stake account key 1 5) = Ok (?V 1 6)"
    by (simp add: updated_validator_def s3_def diff validator_apply_Ok_iff)
  have stake2: "applied ?c (nth_stake account key 1 5) s3 = Ok s4"
    unfolding applied_update [OF old] by (simp add: marked_def hm_insert_def diff s3_def s4_def List.insert_def)
  have r1: "\<exists>records. block_rewards (st_vm e) (st_order e 0) s1 = Ok records"
    by (rule proposer_rewards_Ok [OF laws, where j = 0 and p = 15 and k = 0 and q = 1])
      (simp_all add: s1_def begin_block_def started_set_def)
  have r4: "\<exists>records. block_rewards (st_vm e) (st_order e 0) s4 = Ok records"
    by (rule proposer_rewards_Ok [OF laws, where j = 0 and p = 15 and k = 1 and q = 1])
      (simp_all add: s4_def s2_def begin_block_def)
  obtain rec1 rec4 where rewards: "block_rewards (st_vm e) (st_order e 0) s1 = Ok rec1"
    "block_rewards (st_vm e) (st_order e 0) s4 = Ok rec4" using r1 r4 by blast
  obtain f1 where f1: "committed (st_io e) s1 None = Ok f1" using committed_Ok [OF laws] by blast
  obtain f4 where f4: "committed (st_io e) s4 f1 = Ok f4" using committed_Ok [OF laws] by blast
  have pending: "pending_updates s1 = Ok []" "pending_updates s4 = Ok [?V 1 6, ?V 2 1]"
    by (simp_all add: pending_updates_def s1_def s4_def begin_block_def diff)
  have votes: "hm_insert (?A 0) 15 [] = [(?A 0, 15)]" by (simp add: hm_insert_def)
  show ?thesis
    unfolding add_update_validators_def
    by (simp add: test_laws_keys [OF laws] test_laws_validators [OF laws] load_new_set replace_started
        by_address_tests [OF laws] Let_def votes test_laws_stakes [OF laws] stake3 stake2 rewards pending
        f1 f4 assert_eq_def word_le_nat_alt flip: s1_def s2_def del: One_nat_def)
qed


lemma remove_validators_passes:
  assumes laws: "set_test_laws e account key"
  shows "remove_validators e = Ok ()"
proof -
  note diff = test_laws_distinct(1) [OF laws]
  let ?c = "st_crypto e" and ?A = "test_address e key" and ?V = "nth_validator account key"
  define s1 where "s1 = begin_block (?A 1) (st_order e 0 [(?A 1, 5)]) 1 (started_set [(?A 0, ?V 0 5), (?A 1, ?V 1 5)])"
  define s2 where "s2 = s1\<lparr>vs_updated_validators := [?A 1], vs_validators := [(?A 0, ?V 0 5), (?A 1, ?V 1 2)]\<rparr>"
  define s3 where "s3 = begin_block (?A 1) (st_order e 1 [(?A 1, 5)]) 1 s2"
  define s4 where "s4 = s3\<lparr>vs_updated_validators := [?A 1], vs_validators := [(?A 0, ?V 0 5), (?A 1, ?V 1 0)]\<rparr>"
  define s5 where "s5 = begin_block (?A 1) (st_order e 2 [(?A 1, 5)]) 1 s4"
  note states = s1_def s2_def s3_def s4_def s5_def begin_block_def started_set_def
  have "updated_validator ?c s1 (nth_stake account key 1 (- 3)) = Ok (?V 1 2)"
    by (simp add: updated_validator_def states diff validator_apply_Ok_iff)
  from applied_update [OF this] have stake1: "applied ?c (nth_stake account key 1 (- 3)) s1 = Ok s2"
    by (simp add: marked_def hm_insert_def diff s2_def List.insert_def) (simp add: states diff)
  have "updated_validator ?c s3 (nth_stake account key 1 (- 2)) = Ok (?V 1 0)"
    by (simp add: updated_validator_def states diff validator_apply_Ok_iff)
  from applied_update [OF this] have stake2: "applied ?c (nth_stake account key 1 (- 2)) s3 = Ok s4"
    by (simp add: marked_def hm_insert_def diff s4_def List.insert_def) (simp add: states diff)
  have "\<exists>records. block_rewards (st_vm e) (st_order e 0) s2 = Ok records"
    by (rule proposer_rewards_Ok [OF laws, where j = 1 and p = 5 and k = 0 and q = 2]) (simp_all add: states diff)
  moreover have "\<exists>records. block_rewards (st_vm e) (st_order e 0) s4 = Ok records"
    by (rule proposer_rewards_Ok [OF laws, where j = 1 and p = 5 and k = 1 and q = 0]) (simp_all add: states diff)
  moreover have "\<exists>records. block_rewards (st_vm e) (st_order e 0) s5 = Ok records"
    by (rule proposer_rewards_Ok [OF laws, where j = 1 and p = 5 and k = 2 and q = 0]) (simp_all add: states diff)
  ultimately obtain r2 r4 r5 where rewards: "block_rewards (st_vm e) (st_order e 0) s2 = Ok r2"
    "block_rewards (st_vm e) (st_order e 0) s4 = Ok r4" "block_rewards (st_vm e) (st_order e 0) s5 = Ok r5" by blast
  obtain f2 f4 f5 where files: "committed (st_io e) s2 None = Ok f2" "committed (st_io e) s4 f2 = Ok f4"
    "committed (st_io e) s5 f4 = Ok f5" using committed_Ok [OF laws] by metis
  have pending: "pending_updates s2 = Ok [?V 1 2]" "pending_updates s4 = Ok [?V 1 0]" "pending_updates s5 = Ok []"
    by (simp_all add: pending_updates_def states diff)
  have votes: "hm_insert (?A 1) 5 [] = [(?A 1, 5)]" by (simp add: hm_insert_def)
  show ?thesis
    unfolding remove_validators_def
    by (simp add: test_laws_keys [OF laws] test_laws_validators [OF laws] load_new_set replace_started
        by_address_tests [OF laws] Let_def votes test_laws_stakes [OF laws] stake1 stake2 rewards pending
        files assert_eq_def flip: s1_def s3_def s5_def del: One_nat_def)
qed

lemma validators_update_validations_passes:
  assumes laws: "set_test_laws e account key"
  shows "validators_update_validations e = Ok ()"
proof -
  note diff = test_laws_distinct [OF laws]
  let ?c = "st_crypto e" and ?V = "nth_validator account key"
  let ?set = "started_set [(test_address e key 0, ?V 0 5), (test_address e key 1, ?V 1 5)]"
  have address: "stake_address ?c \<lparr>s_aleo_address = a, s_pub_key = key i, s_gates_delta = d\<rparr> = test_address e key i" for a i d
    by (simp add: stake_address_def)
  have "validate ?c ?set \<lparr>s_aleo_address = snd (account 2), s_pub_key = key 1, s_gates_delta = 5\<rparr> = Err DifferentAccount"
    by (simp add: validate_def address started_set_def diff validator_apply_def Let_def)
  moreover have "validate ?c ?set \<lparr>s_aleo_address = snd (account 3), s_pub_key = key 2, s_gates_delta = - 5\<rparr>
      = Err NegativeVotingPower"
    by (simp add: validate_def address started_set_def diff from_stake_def)
  moreover have "validate ?c ?set (nth_stake account key 1 (- 6)) = Err NotEnoughStake"
    by (simp add: validate_def started_set_def diff validator_apply_def Let_def)
  moreover have "stake_new ?c tmint3 (snd (account 3)) 0 = Err ZeroStake" by (simp add: stake_new_def)
  ultimately show ?thesis
    unfolding validators_update_validations_def
    by (simp add: test_laws_keys [OF laws] test_laws_validators [OF laws] load_new_set replace_started
        by_address_tests [OF laws] Let_def test_laws_stakes [OF laws] del: One_nat_def)
qed

text \<open>C39. The unit tests of the validator set pass for every VM whose minted records are read by
  their owner only, for all accounts and keys that are different, and for every iteration order
  of the hash maps: rewards by voting power with the rest for the proposer, also one who did not
  vote and in a block without votes; equal records on two nodes and different ones in the next
  block; updates that add, change and remove validators; and the errors of invalid updates.\<close>
theorem validator_set_tests_pass:
  assumes "set_test_laws e account key" and "fresh_commitments e account"
  shows "generate_rewards e = Ok () \<and> current_proposer_hadnt_vote e = Ok ()
    \<and> rewards_are_deterministic e = Ok () \<and> genesis_rewards e = Ok ()
    \<and> add_update_validators e = Ok () \<and> remove_validators e = Ok ()
    \<and> validators_update_validations e = Ok ()"
  using generate_rewards_passes [OF assms(1)] current_proposer_hadnt_vote_passes [OF assms(1)]
    rewards_are_deterministic_passes [OF assms] genesis_rewards_passes [OF assms(1)]
    add_update_validators_passes [OF assms(1)] remove_validators_passes [OF assms(1)]
    validators_update_validations_passes [OF assms(1)] by simp


section \<open>Witness\<close>

text \<open>
  A VM whose encrypted records are their owner and gates, and whose commitments number the seed
  and the account; the i-th account is the text of i letters.
\<close>

definition reading_vm :: "(int, aleo_address \<times> u64, unit, unit) vm_backend" where
  "reading_vm =
     \<lparr>vm_program_id = (\<lambda>t. ''credits.aleo''), vm_function_name = (\<lambda>t. ''fee''), vm_fee = (\<lambda>t. 0),
      vm_outputs = (\<lambda>t. []), vm_serial_numbers = (\<lambda>t. []), vm_output_records = (\<lambda>t. []),
      vm_verify_deployment = (\<lambda>p ks. Err NoVerifyingKeys), vm_verify_execution = (\<lambda>t ks. Err InvalidProof),
      vm_int_from_output = (\<lambda>out. Err UnsupportedOutput), vm_address_from_output = (\<lambda>out. Err UnsupportedOutput),
      vm_parse_address = (\<lambda>text. Ok (AleoAddress text)),
      vm_mint_record = (\<lambda>program name owner amount seed. Ok
        (int (unat seed) * 4 + (case owner of AleoAddress text \<Rightarrow> int (length text)), (owner, amount))),
      vm_field_to_string = (\<lambda>n. decimal (nat n)), vm_field_from_string = (\<lambda>text. None),
      vm_record_to_string = (\<lambda>r. decimal (unat (snd r))), vm_record_from_string = (\<lambda>text. None)\<rparr>"

definition plain_crypto :: tendermint_crate where
  "plain_crypto =
     \<lparr>tc_base64_decode = (\<lambda>text. Inr (bytes_of text)), tc_base64_encode = text_of,
      tc_from_raw_ed25519 = (\<lambda>raw. Some (Ed25519 raw)), tc_account_id = id\<rparr>"

definition reading_test :: "(int, aleo_address \<times> u64, unit, unit, nat, aleo_address, u64) set_test" where
  "reading_test =
     \<lparr>st_vm = reading_vm, st_crypto = plain_crypto, st_io = sample_io,
      st_accounts = \<lparr>ac_private_key = (\<lambda>i. Inr (PrivateKey (replicate i CHR ''a''))),
        ac_view_key = (\<lambda>key. case key of PrivateKey text \<Rightarrow> Inr (AleoAddress text)), ac_address = Inr,
        ac_address_to_string = (\<lambda>a. case a of AleoAddress text \<Rightarrow> text),
        ac_is_owner = (\<lambda>r a vk. fst r = a), ac_decrypt = (\<lambda>r vk. Inr (snd r)), ac_gates = id\<rparr>,
      st_rng = id, st_order = (\<lambda>i. if even i then rev else id), st_field_rank = id\<rparr>"

definition reading_account :: "nat \<Rightarrow> aleo_address \<times> aleo_address" where
  "reading_account i = (AleoAddress (replicate i CHR ''a''), AleoAddress (replicate i CHR ''a''))"

definition reading_key :: "nat \<Rightarrow> pub_key" where
  "reading_key i = Ed25519 (bytes_of ([tmint1, tmint2, tmint3, tmint4] ! i))"

lemma four_cases: "(i :: nat) < 4 \<longleftrightarrow> i = 0 \<or> i = 1 \<or> i = 2 \<or> i = 3"
  by auto

lemma replicate_eq_iff: "replicate m x = replicate n x \<longleftrightarrow> m = n"
  by (metis length_replicate)

lemma reading_laws: "set_test_laws reading_test reading_account reading_key"
proof -
  have keys: "inj_on (\<lambda>i. pub_key_to_address plain_crypto (reading_key i)) {..<4}"
    by (auto simp: inj_on_def reading_key_def plain_crypto_def four_cases bytes_of_def tmint1_def tmint2_def tmint3_def tmint4_def)
  have "inj_on (\<lambda>i. snd (reading_account i)) {..<4}"
    by (auto simp: inj_on_def reading_account_def replicate_eq_iff)
  moreover have "any_order (st_order reading_test i)" for i
    by (simp add: reading_test_def any_order_def)
  ultimately show ?thesis
    using keys
    by (auto simp: set_test_laws_def reading_test_def account_keys_def reading_account_def parse_pub_key_def
        reading_vm_def reading_key_def plain_crypto_def owned_record_def replicate_eq_iff sample_io_def)
qed

lemma reading_fresh: "fresh_commitments reading_test reading_account"
proof -
  have "g = h" if "i < 4" "j < 4" "uint h * 4 + int j = uint g * 4 + int i" for i j :: nat and g h :: u64
  proof -
    have "uint h = uint g" using that by presburger
    then show ?thesis by (simp add: word_uint_eq_iff)
  qed
  moreover have "i = j" if "i < 4" "j < 4" "uint h * 4 + int j = uint g * 4 + int i" for i j :: nat and g h :: u64
    using that by presburger
  ultimately show ?thesis
    by (auto simp: fresh_commitments_def reading_test_def reading_vm_def reading_account_def)
qed

theorem validator_set_tests_pass_witness:
  "generate_rewards reading_test = Ok () \<and> rewards_are_deterministic reading_test = Ok ()"
  using validator_set_tests_pass [OF reading_laws reading_fresh] by simp

end
