(* ===== verification/Tests_Application.thy ===== *)
theory Tests_Application
  imports Guarantees Test_Harness
begin

text \<open>
  The unit test of \<open>src/blockchain/application.rs\<close> as a definition, and that it passes: on
  every reliable database that starts empty, for every VM that executes and verifies the
  functions of the test program as the test expects.
\<close>

section \<open>The test\<close>

text \<open>
  What the test calls beside the application: keys, the program of \<open>aleo/records.aleo\<close>, the
  bytes of a request, and the JSON form of a transaction, in which it looks for a record.
\<close>

datatype vm_feature = LambdavmBackend | SnarkvmBackend

record ('tr, 'vk, 'v, 'r, 'er, 'j) hook_crate =
  hc_feature :: vm_feature
  hc_private_key :: "string + private_key"
  hc_view_key :: "private_key \<Rightarrow> string + 'vk"
  hc_address :: "'vk \<Rightarrow> string + string"
  hc_generate_program :: "string \<Rightarrow> program result"
  hc_records_aleo :: string
  hc_identifier :: "string \<Rightarrow> string + string"
  hc_u64_to_value :: "u64 \<Rightarrow> 'v"
  hc_value_from_str :: "string \<Rightarrow> string + 'v"
  hc_serialize :: "'tr transaction \<Rightarrow> string + bytes"
  hc_deserialize :: "bytes \<Rightarrow> 'tr transaction option"
  hc_json :: "'tr transaction \<Rightarrow> 'j"
  hc_pointer :: "'j \<Rightarrow> string \<Rightarrow> 'j option"
  hc_as_str :: "'j \<Rightarrow> string option"
  hc_decrypt :: "'er \<Rightarrow> 'vk \<Rightarrow> string + 'r"

definition pointer_path :: "vm_feature \<Rightarrow> string" where
  "pointer_path feature =
     (case feature of
        LambdavmBackend \<Rightarrow> ''/Execution/transitions/0/outputs/0/EncryptedRecord/1/ciphertext''
      | SnarkvmBackend \<Rightarrow> ''/Execution/transitions/0/outputs/0/value'')"

text \<open>The requests: the bytes of a transaction, and for \<open>check_tx\<close> its type, a new transaction.\<close>

definition check_request ::
  "('tr, 'vk, 'v, 'r, 'er, 'j) hook_crate \<Rightarrow> 'tr transaction \<Rightarrow> (bytes \<times> int) result" where
  "check_request c tx = map_ok (\<lambda>tx. (tx, 0)) (unwrap (external (hc_serialize c tx)))"

definition deliver_request :: "('tr, 'vk, 'v, 'r, 'er, 'j) hook_crate \<Rightarrow> 'tr transaction \<Rightarrow> bytes result" where
  "deliver_request c tx = unwrap (external (hc_serialize c tx))"

text \<open>The \<open>code\<close> of a response: 0, or 1 with the error in the log.\<close>

fun check_code :: "check_response \<Rightarrow> nat" where
  "check_code (CheckOk gas) = 0"
| "check_code (CheckFailed e) = 1"

fun deliver_code :: "deliver_response \<Rightarrow> nat" where
  "deliver_code (Delivered i) = 0"
| "deliver_code (DeliverFailed e) = 1"

definition check_bytes ::
  "('db, 'f, 'er, 'tr, 'out) env \<Rightarrow> ('tr, 'vk, 'v, 'r, 'er, 'j) hook_crate \<Rightarrow> 'tr transaction \<Rightarrow> ('db app, nat) action" where
  "check_bytes env c tx =
     act_then (pure_action (\<lambda>_. check_request c tx)) (\<lambda>(request, _).
     outcome (map_ok check_code) (check_tx env (hc_deserialize c request)))"

definition deliver_bytes ::
  "('db, 'f, 'er, 'tr, 'out) env \<Rightarrow> ('tr, 'vk, 'v, 'r, 'er, 'j) hook_crate \<Rightarrow> 'tr transaction \<Rightarrow> ('db app, nat) action" where
  "deliver_bytes env c tx =
     act_then (pure_action (\<lambda>_. deliver_request c tx)) (\<lambda>request.
     outcome (map_ok deliver_code) (deliver_tx env (hc_deserialize c request)))"

text \<open>A \<open>let\<close> of the test whose value does not depend on the application.\<close>

abbreviation let_value :: "'a result \<Rightarrow> ('a \<Rightarrow> ('s, 'b) action) \<Rightarrow> ('s, 'b) action" where
  "let_value r \<equiv> act_then (pure_action (\<lambda>_. r))"

text \<open>\<open>Transaction::execution\<close> of a function of the test program, unwrapped.\<close>

definition call_program ::
  "('db, 'f, 'er, 'tr, 'out) env \<Rightarrow> ('tr, 'vk, 'v, 'r, 'er, 'j) hook_crate \<Rightarrow> ('tr, 'v, 'r) tx_vm \<Rightarrow>
   program \<Rightarrow> string \<Rightarrow> 'v list result \<Rightarrow> private_key \<Rightarrow> 'tr transaction result" where
  "call_program env c tv prog function_text arguments private_key =
     and_then (unwrap (external (hc_identifier c function_text))) (\<lambda>name.
     and_then arguments (\<lambda>inputs.
     unwrap (tx_execution (e_vm env) (e_tx env) tv prog name inputs private_key None)))"

text \<open>The record that the output of the mint transaction decrypts to, as an input value.\<close>

definition minted_record ::
  "('db, 'f, 'er, 'tr, 'out) env \<Rightarrow> ('tr, 'vk, 'v, 'r, 'er, 'j) hook_crate \<Rightarrow> ('tr, 'v, 'r) tx_vm \<Rightarrow>
   'vk \<Rightarrow> 'tr transaction \<Rightarrow> 'v result" where
  "minted_record env c tv view_key tx =
     and_then (expect_some ''unwrap on None'' (hc_pointer c (hc_json c tx) (pointer_path (hc_feature c)))) (\<lambda>value.
     and_then (expect_some ''unwrap on None'' (hc_as_str c value)) (\<lambda>output_record.
     and_then (expect_some ''unwrap on an error'' (vm_record_from_string (e_vm env) output_record)) (\<lambda>ciphertext.
     map_ok (tv_record_value tv) (unwrap (external (hc_decrypt c ciphertext view_key))))))"

definition hooks_body ::
  "('db, 'f, 'er, 'tr, 'out) env \<Rightarrow> ('tr, 'vk, 'v, 'r, 'er, 'j) hook_crate \<Rightarrow> ('tr, 'v, 'r) tx_vm \<Rightarrow>
   ('db app, unit) action" where
  "hooks_body env c tv =
     let_value (unwrap (external (hc_private_key c))) (\<lambda>private_key.
     let_value (unwrap (external (hc_view_key c private_key))) (\<lambda>view_key.
     let_value (unwrap (external (hc_address c view_key))) (\<lambda>address.
     let_value (unwrap (hc_generate_program c (hc_records_aleo c))) (\<lambda>prog.
     let_value (unwrap (deployment (e_tx env) tv ''aleo/records.aleo'' private_key None)) (\<lambda>deployment_transaction.
     act_then (ignore_error (store_program env deployment_transaction)) (\<lambda>_.
     let_value (call_program env c tv prog ''mint'' (map_ok (\<lambda>receiver. [hc_u64_to_value c 10, receiver])
       (unwrap (external (hc_value_from_str c address)))) private_key) (\<lambda>transaction.
     act_then (asserting (\<lambda>code. code = 0) (check_bytes env c transaction)) (\<lambda>_.
     let_value (minted_record env c tv view_key transaction) (\<lambda>record.
     let_value (call_program env c tv prog ''consume_two'' (Ok [record, record]) private_key) (\<lambda>consume_two_transaction.
     act_then (statements
       [asserting (\<lambda>code. code \<noteq> 0) (check_bytes env c consume_two_transaction),
        asserting (\<lambda>code. code \<noteq> 0) (deliver_bytes env c consume_two_transaction),
        unwrapped (check_inputs_are_unspent env consume_two_transaction)]) (\<lambda>_.
     let_value (call_program env c tv prog ''consume'' (Ok [record]) private_key) (\<lambda>consume_transaction.
     statements
       [asserting (\<lambda>code. code = 0) (check_bytes env c consume_transaction),
        asserting (\<lambda>code. code = 0) (deliver_bytes env c consume_transaction),
        asserting (\<lambda>code. code \<noteq> 0) (check_bytes env c consume_transaction),
        asserting (\<lambda>code. code \<noteq> 0) (deliver_bytes env c consume_transaction)]))))))))))))"

text \<open>The application of the test; there is no file \<open>void\<close>, and no height is read.\<close>

definition hooks_app ::
  "('db, 'f, 'er, 'tr, 'out) env \<Rightarrow> program \<times> (string \<times> proving_key \<times> verifying_key) list \<Rightarrow>
   (string \<Rightarrow> string + 'db) \<Rightarrow> 'db app result" where
  "hooks_app env credits open_default =
     and_then (expect_ok ''could not create a program store''
       (program_store_new (e_kv env) (e_bincode env) credits open_default ''programs_test'')) (\<lambda>programs.
     and_then (expect_ok ''could not create a record store'' (record_store_new open_default ''records_test'')) (\<lambda>records.
     and_then (load_or_create (e_crypto env) (e_io env) None) (\<lambda>validators.
     Ok \<lparr>app_records = records, app_programs = programs, app_validators = validators,
         app_poisoned = False, app_validators_file = None, app_height_file = NoHeight\<rparr>)))"

definition test_abci_hooks ::
  "('db, 'f, 'er, 'tr, 'out) env \<Rightarrow> ('tr, 'vk, 'v, 'r, 'er, 'j) hook_crate \<Rightarrow> ('tr, 'v, 'r) tx_vm \<Rightarrow>
   program \<times> (string \<times> proving_key \<times> verifying_key) list \<Rightarrow> (string \<Rightarrow> string + 'db) \<Rightarrow> unit result" where
  "test_abci_hooks env c tv credits open_default =
     and_then (hooks_app env credits open_default) (\<lambda>app. fst (hooks_body env c tv app))"


section \<open>A node on which the test runs\<close>

text \<open>A program is deployed, the lock is not poisoned, and exactly these serial numbers are spent.\<close>

definition serves ::
  "('db, 'f, 'er, 'tr, 'out) env \<Rightarrow> ('db \<Rightarrow> string \<Rightarrow> string option) \<Rightarrow> program \<Rightarrow> vk_map \<Rightarrow> string set \<Rightarrow> 'db app \<Rightarrow> bool" where
  "serves env contents prog keys spent s \<longleftrightarrow> rs_alive (app_records s) \<and> \<not> app_poisoned s
     \<and> ps_inv (e_bincode env) contents (app_programs s)
     \<and> deployed (e_bincode env) contents (app_programs s) (prog_id prog) = Some (prog, keys)
     \<and> spent_keys contents (app_records s) = spent"

text \<open>A transaction of calls of that program, which its keys verify.\<close>

definition verified_calls ::
  "('db, 'f, 'er, 'tr, 'out) env \<Rightarrow> program \<Rightarrow> vk_map \<Rightarrow> 'tr transaction \<Rightarrow> bool" where
  "verified_calls env prog keys tx \<longleftrightarrow>
     (\<exists>i ts. tx = Execution i ts \<and> ts \<noteq> [] \<and> (\<forall>t \<in> set ts. vm_program_id (e_vm env) t = prog_id prog
        \<and> vm_verify_execution (e_vm env) t keys = Ok ()))"

lemma serves_unspent:
  "kv_reliable (e_kv env) contents \<Longrightarrow> serves env contents prog keys spent s \<Longrightarrow>
   unspent_key (e_kv env) (app_records s) k \<longleftrightarrow> k \<notin> spent"
  by (auto simp: serves_def unspent_key_def handle_is_unspent_def spent_keys_def hm_contains_iff reliable_exists)

lemma served_transition:
  assumes "kv_reliable (e_kv env) contents" and "serves env contents prog keys spent s"
    and "vm_program_id (e_vm env) t = prog_id prog" and "vm_verify_execution (e_vm env) t keys = Ok ()"
  shows "verify_transition env t s = (Ok (), s)"
proof -
  have "get_program (e_kv env) (e_bincode env) (prog_id prog) (app_programs s) = (Ok (Some (prog, keys)), app_programs s)"
    using get_program_eq [OF reliable_laws [OF assms(1)] reliable_available [OF assms(1)]] assms(2)
    by (simp add: serves_def)
  then show ?thesis using assms(3,4) by (simp add: verify_transition_def act_then_def on_programs_def)
qed

lemma calls_without_updates:
  assumes "verified_calls env prog keys tx" and "prog_id prog \<noteq> ''credits.aleo''"
  shows "stake_updates (e_vm env) (e_crypto env) tx = Ok []"
proof -
  obtain i ts where tx: "tx = Execution i ts" and ids: "\<forall>t \<in> set ts. vm_program_id (e_vm env) t = prog_id prog"
    using assms(1) by (auto simp: verified_calls_def)
  have "map_ok somes (try_map (stake_update (e_vm env) (e_crypto env)) us) = Ok []"
    if "\<forall>t \<in> set us. vm_program_id (e_vm env) t = prog_id prog" for us
    using that assms(2)
    by (induction us) (auto simp: stake_update_def map_ok_Ok_iff)
  with ids tx show ?thesis by simp
qed

lemma served_checks:
  assumes "kv_reliable (e_kv env) contents" and "serves env contents prog keys spent s"
    and "verified_calls env prog keys tx" and "prog_id prog \<noteq> ''credits.aleo''" and ver: "verify (e_tx env) tx = Ok ()"
    and "distinct (record_serial_numbers (e_vm env) tx)" and "set (input_keys (e_vm env) tx) \<inter> spent = {}"
  shows "run_checks env tx s = (Ok (), s)"
proof -
  obtain i ts where tx: "tx = Execution i ts" and ne: "ts \<noteq> []"
    and calls: "\<forall>t \<in> set ts. vm_program_id (e_vm env) t = prog_id prog \<and> vm_verify_execution (e_vm env) t keys = Ok ()"
    using assms(3) by (auto simp: verified_calls_def)
  have "check_inputs_are_unspent env tx s = (Ok (), s)"
    using assms(7) serves_unspent [OF assms(1,2)] by (auto simp: check_inputs_Ok_iff input_keys_def)
  moreover have each: "act_each (verify_transition env) ts s = (Ok (), s)"
    using calls served_transition [OF assms(1,2)]
    by (subst act_each_Ok_unchanged) simp_all
  then have "validate_contents env tx s = (Ok (), s)"
    using ne calls_without_updates [OF assms(3,4)] assms(2) by (simp add: tx locked_def serves_def)
  moreover have "check_no_duplicate_records (e_vm env) tx = Ok ()"
    using assms(6) by (simp add: check_no_duplicates_Ok_iff)
  ultimately show ?thesis using ver by (simp add: run_checks_def validate_transaction_def act_then_def)
qed

lemma check_inputs_no_panic: "fst (check_inputs_are_unspent env tx s) \<noteq> Panic p"
proof -
  have "fst (act_each (check_unspent env) ns s) \<noteq> Panic p" for ns
    by (induction ns) (simp_all add: act_then_def check_unspent_eq)
  then show ?thesis by (simp add: check_inputs_are_unspent_def)
qed

text \<open>The checks refuse a repeated or a spent input and leave the state alone.\<close>

lemma refused_checks:
  assumes "kv_reliable (e_kv env) contents" and "serves env contents prog keys spent s"
    and "\<not> distinct (record_serial_numbers (e_vm env) tx) \<or> set (input_keys (e_vm env) tx) \<inter> spent \<noteq> {}"
  shows "\<exists>e. run_checks env tx s = (Err e, s)"
proof (cases "distinct (record_serial_numbers (e_vm env) tx)")
  case True
  obtain r where r: "check_inputs_are_unspent env tx s = (r, s)"
    using check_inputs_unchanged by (metis prod.collapse)
  obtain m where m: "m \<in> set (record_serial_numbers (e_vm env) tx)" "vm_field_to_string (e_vm env) m \<in> spent"
    using assms(3) True by (auto simp: input_keys_def)
  then have "\<not> unspent_key (e_kv env) (app_records s) (vm_field_to_string (e_vm env) m)"
    by (simp add: serves_unspent [OF assms(1,2)])
  then have "r \<noteq> Ok ()" using check_inputs_Ok_iff [of env tx s s] r m(1) assms(2) by (auto simp: serves_def)
  moreover have "r \<noteq> Panic p" for p using check_inputs_no_panic [of env tx s p] r by simp
  ultimately obtain e where "r = Err e" by (cases r) auto
  moreover have "check_no_duplicate_records (e_vm env) tx = Ok ()" using True by (simp add: check_no_duplicates_Ok_iff)
  ultimately show ?thesis using r by (simp add: run_checks_def act_then_def)
next
  case False
  then obtain e where "check_no_duplicate_records (e_vm env) tx = Err e"
    using check_no_duplicates_Ok_iff [of "e_vm env" tx] by (auto simp: check_no_duplicate_records_def split: option.splits)
  then show ?thesis by (simp add: run_checks_def)
qed

lemma served_delivery:
  assumes "kv_reliable (e_kv env) contents" and "serves env contents prog keys spent s"
    and "verified_calls env prog keys tx" and "prog_id prog \<noteq> ''credits.aleo''"
    and "input_keys (e_vm env) tx = [k]" and "k \<notin> spent" and "output_records (e_vm env) tx = []"
  shows "\<exists>t. apply_transaction env tx s = (Ok (), t) \<and> serves env contents prog keys (insert k spent) t"
proof -
  obtain i ts where tx: "tx = Execution i ts" using assms(3) by (auto simp: verified_calls_def)
  let ?rs = "(app_records s)\<lparr>rs_spent_buffer := hm_insert k ''1'' (rs_spent_buffer (app_records s))\<rparr>"
  let ?vs = "collect (fees (e_vm env) tx) (app_validators s)"
  let ?t = "s\<lparr>app_validators := ?vs, app_records := ?rs\<rparr>"
  have "update_validators env tx s = (Ok (), s\<lparr>app_validators := ?vs\<rparr>)"
    using update_validators_eq [OF calls_without_updates [OF assms(3,4)]] assms(2) by (simp add: serves_def)
  moreover have "unspent_key (e_kv env) (app_records s) k" using serves_unspent [OF assms(1,2)] assms(6) by simp
  then have "spend_input_records env tx (s\<lparr>app_validators := ?vs\<rparr>) = (Ok (), ?t)"
    by (simp add: spend_inputs_eq assms(5) on_records_def spend_key_eq act_then_def)
  moreover have "add_output_records env tx ?t = (Ok (), ?t)" by (simp add: add_output_records_def assms(7))
  ultimately have "apply_transaction env tx s = (Ok (), ?t)"
    by (simp add: apply_transaction_def ignore_error_def act_then_def tx)
  moreover have "serves env contents prog keys (insert k spent) ?t"
    using assms(2) by (simp add: serves_def spent_keys_def)
  ultimately show ?thesis by blast
qed


section \<open>The statements of the test\<close>

lemma let_value_Ok: "let_value (Ok a) f = f a"
  by (rule ext) simp

text \<open>A transaction that survives the trip through the bytes of a request.\<close>

definition sendable :: "('tr, 'vk, 'v, 'r, 'er, 'j) hook_crate \<Rightarrow> 'tr transaction \<Rightarrow> bool" where
  "sendable c tx \<longleftrightarrow> (\<exists>bytes. hc_serialize c tx = Inr bytes \<and> hc_deserialize c bytes = Some tx)"

lemma check_bytes_eq: "sendable c tx \<Longrightarrow> check_bytes env c tx s = outcome (map_ok check_code) (check_tx env (Some tx)) s"
  by (auto simp: sendable_def check_bytes_def check_request_def)

lemma deliver_bytes_eq: "sendable c tx \<Longrightarrow> deliver_bytes env c tx s = outcome (map_ok deliver_code) (deliver_tx env (Some tx)) s"
  by (auto simp: sendable_def deliver_bytes_def deliver_request_def)

lemma check_accepts:
  assumes "kv_reliable (e_kv env) contents" and "verified_calls env prog keys tx" and "prog_id prog \<noteq> ''credits.aleo''"
    and "verify (e_tx env) tx = Ok ()" and "sendable c tx"
    and "distinct (record_serial_numbers (e_vm env) tx)" and "set (input_keys (e_vm env) tx) \<inter> spent = {}"
  shows "passes (serves env contents prog keys spent) (asserting (\<lambda>code. code = 0) (check_bytes env c tx))
    (serves env contents prog keys spent)"
  using served_checks [OF assms(1) _ assms(2-4,6,7)]
  by (intro passes_outcome) (simp add: check_bytes_eq [OF assms(5)] outcome_def check_tx_def)

lemma check_refuses:
  assumes "kv_reliable (e_kv env) contents" and "sendable c tx"
    and "\<not> distinct (record_serial_numbers (e_vm env) tx) \<or> set (input_keys (e_vm env) tx) \<inter> spent \<noteq> {}"
  shows "passes (serves env contents prog keys spent) (asserting (\<lambda>code. code \<noteq> 0) (check_bytes env c tx))
    (serves env contents prog keys spent)"
  using refused_checks [OF assms(1) _ assms(3)]
  by (intro passes_outcome) (fastforce simp: check_bytes_eq [OF assms(2)] outcome_def check_tx_def)

lemma deliver_refuses:
  assumes "kv_reliable (e_kv env) contents" and "sendable c tx"
    and "\<not> distinct (record_serial_numbers (e_vm env) tx) \<or> set (input_keys (e_vm env) tx) \<inter> spent \<noteq> {}"
  shows "passes (serves env contents prog keys spent) (asserting (\<lambda>code. code \<noteq> 0) (deliver_bytes env c tx))
    (serves env contents prog keys spent)"
  using refused_checks [OF assms(1) _ assms(3)]
  by (intro passes_outcome) (fastforce simp: deliver_bytes_eq [OF assms(2)] outcome_def deliver_tx_def act_then_def)

lemma deliver_accepts:
  assumes "kv_reliable (e_kv env) contents" and "verified_calls env prog keys tx" and "prog_id prog \<noteq> ''credits.aleo''"
    and "verify (e_tx env) tx = Ok ()" and "sendable c tx"
    and "record_serial_numbers (e_vm env) tx = [n]" and "vm_field_to_string (e_vm env) n \<notin> spent"
    and "output_records (e_vm env) tx = []"
  shows "passes (serves env contents prog keys spent) (asserting (\<lambda>code. code = 0) (deliver_bytes env c tx))
    (serves env contents prog keys (insert (vm_field_to_string (e_vm env) n) spent))"
proof (intro passes_outcome)
  fix s
  assume s: "serves env contents prog keys spent s"
  have inputs: "input_keys (e_vm env) tx = [vm_field_to_string (e_vm env) n]" by (simp add: input_keys_def assms(6))
  from served_delivery [OF assms(1) s assms(2,3) inputs assms(7,8)] obtain t where
    t: "apply_transaction env tx s = (Ok (), t)"
      "serves env contents prog keys (insert (vm_field_to_string (e_vm env) n) spent) t" by blast
  have "run_checks env tx s = (Ok (), s)"
    by (rule served_checks [OF assms(1) s assms(2-4)]) (simp_all add: assms(6,7) inputs)
  with t show "\<exists>r u. deliver_bytes env c tx s = (r, u)
      \<and> and_then (unwrap r) (\<lambda>code. assert_that (code = 0)) = Ok ()
      \<and> serves env contents prog keys (insert (vm_field_to_string (e_vm env) n) spent) u"
    by (simp add: deliver_bytes_eq [OF assms(5)] outcome_def deliver_tx_def act_then_def)
qed

lemma inputs_still_unspent:
  assumes "kv_reliable (e_kv env) contents" and "set (input_keys (e_vm env) tx) \<inter> spent = {}"
  shows "passes (serves env contents prog keys spent) (unwrapped (check_inputs_are_unspent env tx))
    (serves env contents prog keys spent)"
proof (intro passes_outcome)
  fix s
  assume s: "serves env contents prog keys spent s"
  have "check_inputs_are_unspent env tx s = (Ok (), s)"
    using assms(2) serves_unspent [OF assms(1) s] by (auto simp: check_inputs_Ok_iff input_keys_def)
  with s show "\<exists>r t. check_inputs_are_unspent env tx s = (r, t) \<and> and_then (unwrap r) (\<lambda>_. Ok ()) = Ok ()
      \<and> serves env contents prog keys spent t" by simp
qed

text \<open>The end of the test: a valid transaction is checked and delivered once.\<close>

lemma consumed_once:
  assumes rel: "kv_reliable (e_kv env) contents" and id: "prog_id prog \<noteq> ''credits.aleo''"
    and "tx_execution (e_vm env) (e_tx env) tv prog f inputs key None = Ok consume"
    and calls: "verified_calls env prog keys consume" and one: "record_serial_numbers (e_vm env) consume = [n]"
    and "output_records (e_vm env) consume = []" and sent: "sendable c consume"
    and "vm_field_to_string (e_vm env) n \<notin> spent"
  shows "passes (serves env contents prog keys spent) (statements
       [asserting (\<lambda>code. code = 0) (check_bytes env c consume),
        asserting (\<lambda>code. code = 0) (deliver_bytes env c consume),
        asserting (\<lambda>code. code \<noteq> 0) (check_bytes env c consume),
        asserting (\<lambda>code. code \<noteq> 0) (deliver_bytes env c consume)])
    (serves env contents prog keys (insert (vm_field_to_string (e_vm env) n) spent))"
proof -
  note ver = tx_execution_verifies [OF assms(3)]
  have "input_keys (e_vm env) consume = [vm_field_to_string (e_vm env) n]" by (simp add: input_keys_def one)
  then show ?thesis
    by (intro passes_Cons [OF check_accepts [OF rel calls id ver sent]]
        passes_Cons [OF deliver_accepts [OF rel calls id ver sent one]]
        passes_Cons [OF check_refuses [OF rel sent]] passes_Cons [OF deliver_refuses [OF rel sent]] passes_Nil)
      (simp_all add: assms(6,8) one)
qed

text \<open>The deployment of the test program.\<close>

definition ready ::
  "('db, 'f, 'er, 'tr, 'out) env \<Rightarrow> ('db \<Rightarrow> string \<Rightarrow> string option) \<Rightarrow> program \<Rightarrow> 'db app \<Rightarrow> bool" where
  "ready env contents prog s \<longleftrightarrow> rs_alive (app_records s) \<and> \<not> app_poisoned s
     \<and> ps_inv (e_bincode env) contents (app_programs s)
     \<and> contents (ps_db (app_programs s)) (prog_id prog) = None \<and> spent_keys contents (app_records s) = {}"

lemma program_deploys:
  assumes "kv_reliable (e_kv env) contents" and "bincode_law (e_bincode env)"
    and "bc_serialize (e_bincode env) (prog, keys) = Some bytes"
  shows "passes (ready env contents prog) (ignore_error (store_program env (Deployment i prog keys None)))
    (serves env contents prog keys {})"
  unfolding passes_def
proof (intro allI impI)
  fix s
  assume s: "ready env contents prog s"
  note laws = reliable_laws [OF assms(1)]
  let ?ps = "(app_programs s)\<lparr>ps_db := snd (kv_write (e_kv env) (ps_db (app_programs s)) [(prog_id prog, bytes)])\<rparr>"
  have added: "add_program (e_kv env) (e_bincode env) (prog_id prog) prog keys (app_programs s) = (Ok (), ?ps)"
    using add_program_outcome [OF laws reliable_available [OF assms(1)] _ assms(3), of "app_programs s" "prog_id prog"] s
    by (simp add: ready_def ps_inv_def)
  have "ps_inv (e_bincode env) contents ?ps"
    using add_program_inv [OF laws assms(2) _ _ added] s assms(3) by (simp add: ready_def)
  moreover have "deployed (e_bincode env) contents ?ps (prog_id prog) = Some (prog, keys)"
    using reliable_write [OF assms(1), of "ps_db (app_programs s)" "[(prog_id prog, bytes)]"] assms(2,3)
    by (simp add: deployed_def bincode_law_def)
  ultimately show "\<exists>t. ignore_error (store_program env (Deployment i prog keys None)) s = (Ok (), t)
      \<and> serves env contents prog keys {} t"
    using s added by (simp add: ignore_error_def on_programs_def serves_def ready_def)
qed

lemma hooks_app_ready:
  assumes "kv_reliable (e_kv env) contents" and "bincode_law (e_bincode env)"
    and "\<And>path. \<exists>db. open_default path = Inr db \<and> contents db = Map.empty"
    and "bc_serialize (e_bincode env) (credits, map (\<lambda>(i, _, vk). (i, vk)) keys) = Some bytes"
    and "prog_id prog \<noteq> prog_id credits"
  shows "\<exists>s. hooks_app env (credits, keys) open_default = Ok s \<and> ready env contents prog s"
proof -
  obtain p r n where dbs: "open_default (''programs_test'' @ ''.deployed.db'') = Inr p"
      "open_default (''records_test'' @ ''.records.db'') = Inr r" "open_default (''records_test'' @ ''.spent.db'') = Inr n"
    and empty: "contents p = Map.empty" "contents n = Map.empty" using assms(3) by metis
  have "decodable (e_bincode env) (contents p)" by (simp add: empty decodable_def)
  from program_store_starts [where open_default = open_default and db = p, OF reliable_laws [OF assms(1)]
      reliable_available [OF assms(1)] assms(2) dbs(1) this assms(4)] assms(1)
  obtain ps where ps: "program_store_new (e_kv env) (e_bincode env) (credits, keys) open_default ''programs_test'' = Ok ps"
      "ps_inv (e_bincode env) contents ps" "contents (ps_db ps) (prog_id prog) = None"
    using assms(5) empty(1) by (auto simp: kv_reliable_def kv_working_def)
  have "record_store_new open_default ''records_test'' = Ok (new_record_store r n)"
    using dbs(2,3) by (simp add: record_store_new_def)
  with ps show ?thesis
    using empty(2) by (simp add: hooks_app_def load_or_create_def ready_def new_record_store_def spent_keys_def)
qed


section \<open>The test passes\<close>

text \<open>C38. The test of the application passes on every reliable database that starts empty (on a
  disk that works, with a \<open>key_may_exist\<close> that has no false positives), with every VM in which the calls of the test program verify, the mint takes no record and the two
  consuming functions spend their inputs: a repeated input is refused without being spent, and a
  delivered transaction cannot be checked or delivered again.\<close>
theorem abci_hooks_test_passes:
  assumes "kv_reliable (e_kv env) contents" and "bincode_law (e_bincode env)"
    and "\<And>path. \<exists>db. open_default path = Inr db \<and> contents db = Map.empty"
    and "bc_serialize (e_bincode env) (credits, map (\<lambda>(i, _, vk). (i, vk)) credits_keys) = Some credits_bytes"
    and "bc_serialize (e_bincode env) (prog, keys) = Some bytes"
    and "prog_id prog \<noteq> prog_id credits" and "prog_id prog \<noteq> ''credits.aleo''"
    and "hc_private_key c = Inr key" and "hc_view_key c key = Inr view_key" and "hc_address c view_key = Inr address"
    and "hc_value_from_str c address = Inr receiver" and "\<And>name. hc_identifier c name = Inr name"
    and "hc_generate_program c (hc_records_aleo c) = Ok prog"
    and "deployment (e_tx env) tv ''aleo/records.aleo'' key None = Ok (Deployment i prog keys None)"
    and mint: "tx_execution (e_vm env) (e_tx env) tv prog ''mint'' [hc_u64_to_value c 10, receiver] key None = Ok mint"
      "verified_calls env prog keys mint" "record_serial_numbers (e_vm env) mint = []"
    and "minted_record env c tv view_key mint = Ok input"
    and two: "tx_execution (e_vm env) (e_tx env) tv prog ''consume_two'' [input, input] key None = Ok consume_two"
      "record_serial_numbers (e_vm env) consume_two = [n, n]"
    and one: "tx_execution (e_vm env) (e_tx env) tv prog ''consume'' [input] key None = Ok consume"
      "verified_calls env prog keys consume" "record_serial_numbers (e_vm env) consume = [n]"
      "output_records (e_vm env) consume = []"
    and "\<And>tx. tx \<in> {mint, consume_two, consume} \<Longrightarrow> sendable c tx"
  shows "test_abci_hooks env c tv (credits, credits_keys) open_default = Ok ()"
proof -
  let ?S = "serves env contents prog keys" and ?k = "vm_field_to_string (e_vm env) n"
  note rel = assms(1)
  have inputs: "input_keys (e_vm env) mint = []" "input_keys (e_vm env) consume_two = [?k, ?k]"
      by (simp_all add: input_keys_def mint two one)
  have sent: "sendable c mint" "sendable c consume_two" "sendable c consume" using assms by simp_all
  have minted: "passes (?S {}) (asserting (\<lambda>code. code = 0) (check_bytes env c mint)) (?S {})"
    by (rule check_accepts [OF rel mint(2) assms(7) tx_execution_verifies [OF mint(1)] sent(1)]) (simp_all add: mint inputs)
  have refused: "passes (?S {}) (statements
       [asserting (\<lambda>code. code \<noteq> 0) (check_bytes env c consume_two),
        asserting (\<lambda>code. code \<noteq> 0) (deliver_bytes env c consume_two),
        unwrapped (check_inputs_are_unspent env consume_two)]) (?S {})"
    by (intro passes_Cons [OF check_refuses [OF rel sent(2)]] passes_Cons [OF deliver_refuses [OF rel sent(2)]]
        passes_Cons [OF inputs_still_unspent [OF rel]] passes_Nil) (simp_all add: two)
  have "?k \<notin> {}" by simp
  note consumed = consumed_once [OF rel assms(7) one sent(3) this]
  have lets: "unwrap (external (hc_private_key c)) = Ok key" "unwrap (external (hc_view_key c key)) = Ok view_key"
    "unwrap (external (hc_address c view_key)) = Ok address" "unwrap (hc_generate_program c (hc_records_aleo c)) = Ok prog"
    "unwrap (deployment (e_tx env) tv ''aleo/records.aleo'' key None) = Ok (Deployment i prog keys None)"
    "call_program env c tv prog ''mint'' (map_ok (\<lambda>receiver. [hc_u64_to_value c 10, receiver])
       (unwrap (external (hc_value_from_str c address)))) key = Ok mint"
    "call_program env c tv prog ''consume_two'' (Ok [input, input]) key = Ok consume_two"
    "call_program env c tv prog ''consume'' (Ok [input]) key = Ok consume"
    using assms(8-14) mint(1) two(1) one(1) by (simp_all add: call_program_def)
  have "passes (ready env contents prog) (hooks_body env c tv) (?S {?k})"
    unfolding hooks_body_def lets let_value_Ok assms(18)
    by (rule passes_then [OF program_deploys [OF rel assms(2,5)]], rule passes_then [OF minted])
      (rule passes_then [OF refused consumed])
  then show ?thesis
    using hooks_app_ready [OF rel assms(2) _ assms(4,6), of open_default] assms(3) passesD
    by (fastforce simp: test_abci_hooks_def)
qed

text \<open>A VM in memory: a call has its inputs as serial numbers, and the mint has one record.\<close>

definition hooks_program :: program where
  "hooks_program =
     \<lparr>prog_id = ''records.aleo'', prog_functions = map (\<lambda>f. (f, f)) [''mint'', ''consume'', ''consume_two''],
      prog_source = ''records''\<rparr>"

definition hooks_keys :: vk_map where
  "hooks_keys = map (\<lambda>f. (f, VerifyingKey ''vk'')) [''mint'', ''consume'', ''consume_two'']"

definition hooks_bincode :: bincode where
  "hooks_bincode =
     \<lparr>bc_serialize = (\<lambda>p. if p = (hooks_program, hooks_keys) then Some ''h'' else bc_serialize staking_bincode p),
      bc_deserialize = (\<lambda>text. if text = ''h'' then Some (hooks_program, hooks_keys) else bc_deserialize staking_bincode text)\<rparr>"

definition hooks_call :: "string \<Rightarrow> variable_type list \<Rightarrow> lambda_transition" where
  "hooks_call name inputs =
     \<lparr>lt_program_id = ''records.aleo'', lt_function_name = name, lt_inputs = inputs,
      lt_outputs = (if name = ''mint'' then [OtherVariable ''r1''] else []), lt_proof = ''vk'', lt_fee = 0\<rparr>"

definition hooks_tv :: "(lambda_transition, variable_type, string) tx_vm" where
  "hooks_tv =
     \<lparr>tv_read_file = Inr,
      tv_build_program = (\<lambda>_. Ok (hooks_program, map (\<lambda>(f, vk). (f, ProvingKey ''pk'', vk)) hooks_keys)),
      tv_execution = (\<lambda>prog name inputs key pk. Ok [hooks_call name inputs]),
      tv_identifier = Ok, tv_record_value = OtherVariable, tv_amount = (\<lambda>gates. Ok (Public (U64 gates))),
      tv_credits = Ok (staking_program, [])\<rparr>"

abbreviation mint_sample :: "lambda_transition transaction" where
  "mint_sample \<equiv> sample_tx [hooks_call ''mint'' [Public (U64 10), Public (AddressValue ''aleo1'')]]"

abbreviation consume_sample :: "lambda_transition transaction" where
  "consume_sample \<equiv> sample_tx [hooks_call ''consume'' [OtherVariable ''r1'']]"

abbreviation consume_two_sample :: "lambda_transition transaction" where
  "consume_two_sample \<equiv> sample_tx [hooks_call ''consume_two'' [OtherVariable ''r1'', OtherVariable ''r1'']]"

definition hooks_sample :: "(lambda_transition, string, variable_type, string, string, string) hook_crate" where
  "hooks_sample =
     \<lparr>hc_feature = LambdavmBackend, hc_private_key = Inr (PrivateKey ''key''), hc_view_key = (\<lambda>_. Inr ''view''),
      hc_address = (\<lambda>_. Inr ''aleo1''), hc_generate_program = (\<lambda>_. Ok hooks_program), hc_records_aleo = ''records'',
      hc_identifier = Inr, hc_u64_to_value = (\<lambda>n. Public (U64 n)), hc_value_from_str = (\<lambda>text. Inr (Public (AddressValue text))),
      hc_serialize = (\<lambda>tx. Inr (bytes_of (lt_function_name (hd (transitions tx))))),
      hc_deserialize = (\<lambda>bytes. Some (if bytes = bytes_of ''mint'' then mint_sample
        else if bytes = bytes_of ''consume'' then consume_sample else consume_two_sample)),
      hc_json = (\<lambda>tx. case lt_outputs (hd (transitions tx)) of OtherVariable cm # _ \<Rightarrow> cm | _ \<Rightarrow> ''none''),
      hc_pointer = (\<lambda>j path. Some j), hc_as_str = Some, hc_decrypt = (\<lambda>ciphertext view_key. Inr ciphertext)\<rparr>"

lemma hooks_execution:
  "tx_execution sample_vm sample_tx_crate hooks_tv prog name inputs key None = Ok (sample_tx [hooks_call name inputs])"
  by (simp add: tx_execution_def finish_execution_def execute_fee_def hooks_tv_def Let_def set_hashed_id_def
      sample_tx_def tx_hash_def json_bytes_def sample_tx_crate_def)

lemma hooks_verified:
  "name \<in> {''mint'', ''consume'', ''consume_two''} \<Longrightarrow> length inputs \<le> 8 \<Longrightarrow>
   verified_calls (sample_env\<lparr>e_bincode := hooks_bincode\<rparr>) hooks_program hooks_keys (sample_tx [hooks_call name inputs])"
  by (auto simp: verified_calls_def sample_tx_def hooks_call_def lambda_backend_def verify_execution_Ok_iff
      hooks_program_def hooks_keys_def program_is_coinbase_def MAX_INPUTS_def MAX_OUTPUTS_def sample_crate_def)

lemma hooks_serials:
  "record_serial_numbers sample_vm (sample_tx [hooks_call name inputs])
     = concat (map (\<lambda>i. case i of OtherVariable sn \<Rightarrow> [sn] | _ \<Rightarrow> []) inputs)"
  "name \<noteq> ''mint'' \<Longrightarrow> output_records sample_vm (sample_tx [hooks_call name inputs]) = []"
  by (simp_all add: record_serial_numbers_def output_records_def sample_tx_def hooks_call_def lambda_backend_def sample_crate_def)

lemma hooks_sent: "tx \<in> {mint_sample, consume_two_sample, consume_sample} \<Longrightarrow> sendable hooks_sample tx"
  by (auto simp: sendable_def hooks_sample_def sample_tx_def hooks_call_def bytes_of_def)

lemma key_pairs:
  "map (\<lambda>(i, _, vk). (i, vk)) (map (\<lambda>(f, vk). (f, ProvingKey ''pk'', vk)) ks) = (ks :: vk_map)"
  "map (\<lambda>(i, keys). (i, snd keys)) (map (\<lambda>(f, vk). (f, ProvingKey ''pk'', vk)) ks) = ks"
  by (induction ks) auto

lemmas key_pairs_comp = key_pairs [unfolded map_map]

theorem abci_hooks_test_passes_witness:
  "test_abci_hooks (sample_env\<lparr>e_bincode := hooks_bincode\<rparr>) hooks_sample hooks_tv
     (staking_program, map (\<lambda>(f, vk). (f, ProvingKey ''pk'', vk)) staking_keys) (\<lambda>_. Inr []) = Ok ()"
proof -
  let ?env = "sample_env\<lparr>e_bincode := hooks_bincode\<rparr>"
  have laws: "bincode_law (e_bincode ?env)" by (auto simp: bincode_law_def hooks_bincode_def staking_bincode_def)
  obtain i where "tx_hash sample_tx_crate (Deployment ''not known yet'' hooks_program hooks_keys None) = Ok i"
    by (simp add: tx_hash_def hooks_keys_def sample_tx_crate_def)
  then have deploy: "deployment (e_tx ?env) hooks_tv ''aleo/records.aleo'' (PrivateKey ''key'') None
      = Ok (Deployment i hooks_program hooks_keys None)"
    by (simp add: deployment_def hooks_tv_def key_pairs_comp execute_fee_def set_hashed_id_def)
  have mint: "minted_record ?env hooks_sample hooks_tv ''view'' mint_sample = Ok (OtherVariable ''r1'')"
    by (simp add: minted_record_def hooks_sample_def hooks_tv_def sample_tx_def hooks_call_def lambda_backend_def sample_crate_def)
  show ?thesis
    by (rule abci_hooks_test_passes [OF _ laws, of map_of _ _ _ "''k''" hooks_program hooks_keys "''h''" _ "PrivateKey ''key''"
          "''view''" "''aleo1''" "Public (AddressValue ''aleo1'')" _ i mint_sample "OtherVariable ''r1''"
          consume_two_sample "''r1''" consume_sample, OF _ _ _ _ _ _ _ _ _ _ _ _ deploy _ _ _ mint _ _ _ _ _ _ hooks_sent])
      (simp_all add: memory_kv_reliable key_pairs key_pairs_comp hooks_execution hooks_verified hooks_serials,
       simp_all add: hooks_sample_def hooks_bincode_def staking_bincode_def hooks_program_def staking_program_def)
qed

end
