(* ===== verification/Tests_Client.thy ===== *)
theory Tests_Client
  imports Client Test_Harness
begin

text \<open>
  The unit tests of \<open>src/client/commands.rs\<close> and of \<open>src/lib/transaction.rs\<close> as definitions, and
  that they pass: for every VM that mints records its view key decrypts, and for every base64
  decoder that decodes the key of the test.
\<close>

section \<open>The choice of a fee record\<close>

definition mint_test_record ::
  "('f, 'er, 'tr, 'out, 'v, 'r) client_env \<Rightarrow> view_key \<Rightarrow> u64 \<Rightarrow> 'r result" where
  "mint_test_record env view_key amount =
     and_then (unwrap (external (ce_address env view_key))) (\<lambda>address.
     and_then (unwrap (vm_mint_record (ce_vm env) ''credits.aleo'' ''credits'' address amount 123)) (\<lambda>minted.
     unwrap (external (ce_decrypt env (snd minted) view_key))))"

definition select_default_record :: "('f, 'er, 'tr, 'out, 'v, 'r) client_env \<Rightarrow> unit result" where
  "select_default_record env =
     and_then (unwrap (external (ce_new_private_key env))) (\<lambda>private_key.
     and_then (unwrap (external (ce_view_key env private_key))) (\<lambda>view_key.
     and_then (mint_test_record env view_key 10) (\<lambda>record10.
     and_then (mint_test_record env view_key 5) (\<lambda>record5.
     and_then (mint_test_record env view_key 6) (\<lambda>record6.
     let input = tv_record_value (ce_tv env)
     in and_then (unwrap_err (select_default_fee_record env 10 [] [])) (\<lambda>error.
     and_then (assert_eq NoFeeRecord error) (\<lambda>_.
     and_then (unwrap_err (select_default_fee_record env 10 [] [record5, record6])) (\<lambda>error.
     and_then (assert_eq NoFeeRecord error) (\<lambda>_.
     and_then (unwrap (select_default_fee_record env 5 [] [record6])) (\<lambda>result.
     and_then (assert_eq record6 result) (\<lambda>_.
     and_then (unwrap_err (select_default_fee_record env 5 [input record6] [record6])) (\<lambda>error.
     and_then (assert_eq NoFeeRecord error) (\<lambda>_.
     and_then (unwrap (select_default_fee_record env 5 [] [record5, record10, record6])) (\<lambda>result.
     and_then (assert_eq record10 result) (\<lambda>_.
     and_then (unwrap (select_default_fee_record env 5 [input record10] [record5, record10, record6])) (\<lambda>result.
     assert_eq record6 result))))))))))))))))"

text \<open>
  What the test relies on: an account can be created, a minted record is decrypted to a record
  with its gates, records of different gates print differently, and an input made of a record
  is recognised as that record.
\<close>

definition fee_test_laws ::
  "('f, 'er, 'tr, 'out, 'v, 'r) client_env \<Rightarrow> private_key \<Rightarrow> view_key \<Rightarrow> (u64 \<Rightarrow> 'r) \<Rightarrow> bool" where
  "fee_test_laws env key vk plain \<longleftrightarrow>
     ce_new_private_key env = Inr key \<and> ce_view_key env key = Inr vk
     \<and> (\<exists>a. ce_address env vk = Inr a \<and> (\<forall>amount. \<exists>cm r.
          vm_mint_record (ce_vm env) ''credits.aleo'' ''credits'' a amount 123 = Ok (cm, r)
          \<and> ce_decrypt env r vk = Inr (plain amount)))
     \<and> (\<forall>amount. ce_gates env (plain amount) = amount)
     \<and> (\<forall>m n. ce_record_text env (plain m) = ce_record_text env (plain n) \<longrightarrow> m = n)
     \<and> (\<forall>r. ce_record_of env (tv_record_value (ce_tv env) r) = Some r)"

text \<open>The unit test of the choice of a fee record passes for every client environment whose
  VM mints records that the view key decrypts: the choice fails without a record that is big
  enough and not an input, and takes the biggest one otherwise.\<close>
theorem select_default_record_passes:
  assumes "fee_test_laws env key vk plain"
  shows "select_default_record env = Ok ()"
proof -
  from assms obtain a where a: "ce_address env vk = Inr a"
    and minted: "\<forall>amount. \<exists>cm r. vm_mint_record (ce_vm env) ''credits.aleo'' ''credits'' a amount 123 = Ok (cm, r)
          \<and> ce_decrypt env r vk = Inr (plain amount)"
    by (auto simp: fee_test_laws_def)
  have mint: "mint_test_record env vk amount = Ok (plain amount)" for amount
    using a minted [rule_format, of amount] by (auto simp: mint_test_record_def)
  have keys: "ce_new_private_key env = Inr key" "ce_view_key env key = Inr vk"
    and gates: "ce_gates env (plain amount) = amount"
    and text_eq: "ce_record_text env (plain m) = ce_record_text env (plain n) \<longleftrightarrow> m = n"
    and rec: "ce_record_of env (tv_record_value (ce_tv env) r) = Some r" for amount m n r
    using assms by (auto simp: fee_test_laws_def)
  have fee_keys: "fee_key env (plain 5) = - 5" "fee_key env (plain 6) = - 6" "fee_key env (plain 10) = - 10"
    by (simp_all add: fee_key_def gates)
  have sorted: "sort_key (fee_key env) [] = []" "sort_key (fee_key env) [plain 6] = [plain 6]"
    "sort_key (fee_key env) [plain 5, plain 6] = [plain 6, plain 5]"
    "sort_key (fee_key env) [plain 5, plain 10, plain 6] = [plain 10, plain 6, plain 5]"
    by (simp_all add: fee_keys)
  have big: "\<not> (10 :: u64) \<le> 5" "\<not> (10 :: u64) \<le> 6" "(5 :: u64) \<le> 6" "(5 :: u64) \<le> 10"
    by (simp_all add: word_le_nat_alt)
  show ?thesis
    unfolding select_default_record_def
    by (simp add: keys mint Let_def select_default_fee_record_def sorted input_records_def rec gates text_eq big
        del: sort_key_simps)
qed


section \<open>The sections of a validator key\<close>

definition test_pub_key :: string where "test_pub_key = ''KvYujhwQVoCOH1B3FrmtjSN5GgKUjarOKDNIbWfA8hc=''"

definition convert_validator_address_u128 :: "tendermint_crate \<Rightarrow> unit result" where
  "convert_validator_address_u128 c =
     and_then (unwrap (external (tc_base64_decode c test_pub_key))) (\<lambda>key_encoded.
     and_then (unwrap (validator_key_as_u128s key_encoded)) (\<lambda>(h, l).
     and_then (assert_that (h = 57105825100092210844007095251039268237)) (\<lambda>_.
     and_then (assert_that (l = 47151775319435836265997973510082851351)) (\<lambda>_.
     and_then (unwrap (validator_key_from_u128s c h l)) (\<lambda>key.
     assert_that (key = test_pub_key))))))"

definition convert_validator_address_u64 :: "tendermint_crate \<Rightarrow> unit result" where
  "convert_validator_address_u64 c =
     and_then (unwrap (external (tc_base64_decode c test_pub_key))) (\<lambda>key_encoded.
     and_then (unwrap (validator_key_as_u64s key_encoded)) (\<lambda>key_sections.
     let expected_slice = [3095712981754861184, 10240992550076394893, 2556102861894036174, 2896738620058694167]
     in and_then (assert_eq key_sections expected_slice) (\<lambda>_.
     and_then (unwrap (validator_key_from_u64s c key_sections)) (\<lambda>key.
     assert_that (key = test_pub_key)))))"

text \<open>The bytes of the key: what base64 decodes its text to.\<close>

definition test_key_bytes :: bytes where
  "test_key_bytes = [42, 246, 46, 142, 28, 16, 86, 128, 142, 31, 80, 119, 22, 185, 173, 141,
     35, 121, 26, 2, 148, 141, 170, 206, 40, 51, 72, 109, 103, 192, 242, 23]"

lemma test_key_sections:
  "validator_key_as_u64s test_key_bytes
     = Ok [3095712981754861184, 10240992550076394893, 2556102861894036174, 2896738620058694167]"
  "validator_key_as_u128s test_key_bytes
     = Ok (57105825100092210844007095251039268237, 47151775319435836265997973510082851351)"
  by (simp_all add: validator_key_as_u64s_def validator_key_as_u128s_def test_key_bytes_def chunks_exact.simps
      u64_from_be_bytes_def u128_from_be_bytes_def)


lemma test_key_pieces:
  "concat (map u64_to_be_bytes [3095712981754861184, 10240992550076394893, 2556102861894036174, 2896738620058694167])
     = test_key_bytes"
  "u128_to_be_bytes 57105825100092210844007095251039268237 @ u128_to_be_bytes 47151775319435836265997973510082851351
     = test_key_bytes"
proof -
  have "u64_from_be_bytes [42, 246, 46, 142, 28, 16, 86, 128] = 3095712981754861184" "u64_from_be_bytes [142, 31, 80, 119, 22, 185, 173, 141] = 10240992550076394893"
    "u64_from_be_bytes [35, 121, 26, 2, 148, 141, 170, 206] = 2556102861894036174" "u64_from_be_bytes [40, 51, 72, 109, 103, 192, 242, 23] = 2896738620058694167"
    by (simp_all add: u64_from_be_bytes_def)
  then show "concat (map u64_to_be_bytes [3095712981754861184, 10240992550076394893, 2556102861894036174, 2896738620058694167]) = test_key_bytes"
    using u64_bytes_round_trip [of "[42, 246, 46, 142, 28, 16, 86, 128]"] u64_bytes_round_trip [of "[142, 31, 80, 119, 22, 185, 173, 141]"]
      u64_bytes_round_trip [of "[35, 121, 26, 2, 148, 141, 170, 206]"] u64_bytes_round_trip [of "[40, 51, 72, 109, 103, 192, 242, 23]"]
    by (simp add: test_key_bytes_def)
  have "u128_from_be_bytes (take 16 test_key_bytes) = 57105825100092210844007095251039268237"
    "u128_from_be_bytes (drop 16 test_key_bytes) = 47151775319435836265997973510082851351"
    using test_key_sections(2) by (simp_all add: validator_key_as_u128s_def test_key_bytes_def)
  then show "u128_to_be_bytes 57105825100092210844007095251039268237 @ u128_to_be_bytes 47151775319435836265997973510082851351
     = test_key_bytes"
    using u128_bytes_round_trip [of "take 16 test_key_bytes"] u128_bytes_round_trip [of "drop 16 test_key_bytes"]
    by (simp add: test_key_bytes_def)
qed

text \<open>The unit tests of the validator key sections pass with every base64 codec that maps the
  key of the tests to its 32 bytes and back: the sections are the numbers the tests expect.\<close>
theorem validator_key_tests_pass:
  assumes "tc_base64_decode c test_pub_key = Inr test_key_bytes" and "tc_base64_encode c test_key_bytes = test_pub_key"
  shows "convert_validator_address_u128 c = Ok () \<and> convert_validator_address_u64 c = Ok ()"
  using assms test_key_pieces
  by (simp add: convert_validator_address_u128_def convert_validator_address_u64_def test_key_sections
      validator_key_from_u64s_def validator_key_from_u128s_def Let_def)


section \<open>Witnesses\<close>

definition minting_client ::
  "(string, string, lambda_transition, variable_type, user_value, plain_record) client_env" where
  "minting_client = (sample_client (\<lambda>q. Inl ''down''))
     \<lparr>ce_vm := sample_vm\<lparr>vm_mint_record := (\<lambda>p n a amount seed. Ok (''cm'', replicate (unat amount) CHR ''x''))\<rparr>\<rparr>"

definition minted_plain :: "u64 \<Rightarrow> plain_record" where
  "minted_plain amount = sample_record\<lparr>rec_gates := amount, rec_nonce := replicate (unat amount) CHR ''x''\<rparr>"

theorem select_default_record_passes_witness: "select_default_record minting_client = Ok ()"
proof -
  have "m = n" if "replicate (unat m) CHR ''x'' = replicate (unat n) CHR ''x''" for m n :: u64
    using arg_cong [OF that, of length] by (simp add: word_unat_eq_iff)
  then have "fee_test_laws minting_client (PrivateKey ''k'') (ViewKey ''v'') minted_plain"
    by (simp add: fee_test_laws_def minting_client_def sample_client_def minted_plain_def lambda_tx_vm_def)
  then show ?thesis by (rule select_default_record_passes)
qed

definition one_key_codec :: tendermint_crate where
  "one_key_codec = sample_crypto\<lparr>tc_base64_decode := (\<lambda>text. if text = test_pub_key then Inr test_key_bytes else Inl ''base64''),
     tc_base64_encode := (\<lambda>raw. if raw = test_key_bytes then test_pub_key else ''?'')\<rparr>"

theorem validator_key_tests_pass_witness:
  "convert_validator_address_u128 one_key_codec = Ok () \<and> convert_validator_address_u64 one_key_codec = Ok ()"
  by (rule validator_key_tests_pass) (simp_all add: one_key_codec_def)

end
