(* ===== verification/Spec2Isabelle.thy ===== *)
theory Spec2Isabelle
  imports Genesis Client_Commands Vm_Snark Server Replication
    Tests_Record_Store Tests_Program_Store Tests_Validator_Set Tests_Application Tests_Client
begin

text \<open>
  A model of a Tendermint blockchain for Aleo programs (\<open>src/src\<close>), with the theorems that make
  it correct. The system is an ABCI application (\<open>blockchain\<close>), a client (\<open>client\<close>), a tool that
  prepares a testnet (\<open>blockchain/genesis.rs\<close>) and a library they share (\<open>lib\<close>).

  \<^bold>\<open>The program\<close>

  Clients build transactions, deployments of programs or executions of their functions, seal them
  with a hash and broadcast them. Tendermint orders them and calls the application: \<open>check_tx\<close>
  when a transaction enters the mempool, \<open>begin_block\<close>, \<open>deliver_tx\<close> for each transaction of a
  block, \<open>end_block\<close> and \<open>commit\<close>. The application keeps three components. The record store
  holds encrypted records under their commitments and the serial numbers of the spent ones; the
  program store holds programs with their verifying keys; the validator set holds voting powers,
  which staking transactions change, and shares the fees of a block among proposer and voters.
  Each store is a thread with a RocksDB database that answers commands on a channel. Proofs are
  made and checked by one of two virtual machines, chosen when the program is compiled.

  \<^bold>\<open>Theories\<close>

  \<^item> \<open>Prelude\<close>: results with errors and panics as values (\<open>result\<close>), actions on a state and the
    relations they keep (locale \<open>action_relation\<close>), machine integers, hash maps as association
    lists whose order is arbitrary, numbers as text. Arithmetic wraps, as in a release build.
  \<^item> \<open>Kv_Db\<close>: the database as a parameter with its documented behaviour (\<open>kv_laws\<close>).
  \<^item> \<open>Vm_Api\<close>: what the application uses of a virtual machine, with the contract \<open>vm_contract\<close>;
    \<open>Vm_Lambda\<close> (\<open>lib/vm/lambdavm/mod.rs\<close>) and \<open>Vm_Snark\<close> (\<open>lib/vm/snarkvm/mod.rs\<close>, \<open>stack.rs\<close>)
    are the two backends, each an interpretation of the contract.
  \<^item> \<open>Validator\<close> (\<open>lib/validator.rs\<close>), \<open>Validator_Set\<close> (\<open>blockchain/validator_set.rs\<close>) and \<open>Rewards\<close>
    (its \<open>block_rewards\<close>): stakes, powers, marked updates, and the shares of a block.
  \<^item> \<open>Record_Store\<close> (\<open>blockchain/record_store.rs\<close>) and \<open>Program_Store\<close>
    (\<open>blockchain/program_store.rs\<close>): the handlers of each command, the public methods, and the
    channel as a step relation between senders and server.
  \<^item> \<open>Transaction\<close> (\<open>lib/transaction.rs\<close>): hash, fees, staking updates and the building of
    transactions.
  \<^item> \<open>Application\<close> (\<open>blockchain/application.rs\<close>, \<open>lib/query.rs\<close>): every ABCI handler as an action
    on the record \<open>app\<close>, with the poisoning of the mutex around the validator set.
  \<^item> \<open>Delivery\<close>: what one transaction does. \<open>Chain\<close>: histories of requests and the locales
    \<open>app_relation\<close> and \<open>store_relation\<close>, which lift a relation kept by the calls to the stores to
    whole requests. \<open>History\<close> interprets them. \<open>Guarantees\<close> draws the conclusions.
  \<^item> \<open>Mempool\<close>: what checks and queries leave behind. \<open>Replication\<close>: agreeing states of two nodes
    and the requests that keep them in agreement.
  \<^item> \<open>Server\<close> (\<open>blockchain/main.rs\<close>): the options and the start of a node.
  \<^item> \<open>Program_File\<close> (\<open>lib/program_file.rs\<close>, \<open>lib/mod.rs\<close>): files and the cached credits program.
  \<^item> \<open>Client\<close> (\<open>client/account.rs\<close>, \<open>client/tendermint.rs\<close>, the helpers of \<open>client/commands.rs\<close>) and
    \<open>Client_Commands\<close> (\<open>Command::run\<close>, the exit code of \<open>client/main.rs\<close>).
  \<^item> \<open>Genesis\<close> (\<open>blockchain/genesis.rs\<close>).
  \<^item> \<open>Test_Harness\<close>: assertions and a rule of total correctness for straight line test bodies.
    \<open>Tests_Record_Store\<close>, \<open>Tests_Program_Store\<close>, \<open>Tests_Validator_Set\<close>, \<open>Tests_Application\<close> and
    \<open>Tests_Client\<close> (which also has those of \<open>lib/transaction.rs\<close>): the unit tests of the modules,
    statement by statement.
  \<^item> \<open>Samples\<close>: instances of the parameters that compute, for concrete inputs.

  \<^bold>\<open>How state and effects correspond\<close>

  A method that changes its receiver is a function from the state to a result and the new state,
  which also exists when the result is an error or a panic; \<open>?\<close> is \<open>and_then\<close> or \<open>act_then\<close>. A panic
  of a store thread closes its channel (\<open>rs_alive\<close>, \<open>ps_alive\<close>), one under the validators lock
  poisons it (\<open>app_poisoned\<close>). Errors are a datatype with one constructor per message of the code;
  failures of other crates are \<open>External\<close>. Types of crates that the code only passes on are type
  variables or texts.

  \<^bold>\<open>What the theorems show\<close>

  \<^item> Safety over any history of requests: no serial number is spent twice while commits are
    written, deployed programs never change while lookups answer, every reachable state is well
    formed, and \<open>end_block\<close> reports every changed validator.
  \<^item> Replication: nodes that serve the same consensus requests stay in agreement, whatever their
    hash map orders and validators files are, as long as \<open>key_may_exist\<close> answers alike for the
    programs they are asked to deploy; the mempool and the queries can be left out of any history
    in which no checked transaction makes the extraction of its staking updates panic; and a node
    that \<open>main\<close> starts on the databases of an earlier run has lost nothing and stays well formed.
    It has the credits program unless that was absent and \<open>key_may_exist\<close> said yes.
  \<^item> The effect of a delivered transaction, the atomicity of the checks, and that an accepted
    execution is delivered unless its outputs or stakes collide.
  \<^item> Refinements: the record store behind its channel is an abstract store of known and committed
    records and serial numbers, in every interleaving of its callers; asked alone it is the set of
    spent serial numbers; the program store is a map; and what a client lists are the committed
    unspent records of its account.
  \<^item> Rewards: they conserve the fees, do not depend on the order of hash maps, and panic in
    exactly the cases stated.
  \<^item> The client: every broadcast transaction verifies, dry runs broadcast nothing, the default
    fee record is the biggest usable one, and the cache of the credits program is sound.
  \<^item> The unit tests pass, not for the values they draw but for all: every VM, account, database
    and map order with the behaviour a test relies on.
  \<^item> Where the code fails: a delivery that is applied in part, a delivered transaction that stops
    a node, a transaction that stops it from the mempool without being verified, a deployment on
    which nodes disagree, a failed write that allows a double spend, a failed lookup that lets a
    program be overwritten, rewards that are persisted one block late, outputs that the default
    backend does not bind, a hash that does not cover the program, genesis files on which no node
    starts.

  No fuel is used: every recursive definition is total, and \<open>channel_drains\<close> shows that the loop of a
  server thread answers all queued commands and then waits.

  \<^bold>\<open>Assumptions\<close>

  The database behaves as documented (\<open>kv_laws\<close>: a lookup that succeeds returns what is stored, a
  write is all or nothing, an iterator yields stored pairs); \<open>kv_available\<close>, that lookups do not
  fail, is a hypothesis of the theorems that need it, \<open>kv_iterates\<close> is the same for iterations, and
  \<open>kv_working\<close> adds to availability that writes succeed. That \<open>key_may_exist\<close> has no false positives
  (\<open>kv_reliable\<close>) is not documented and assumed for unit tests only, which rely on it for
  new databases; replication asks for equal answers instead (\<open>same_answers\<close>). Replication also needs that the commitment of a
  minted record determines it (\<open>mint_binding\<close>) and that values and their texts correspond
  (\<open>text_codec\<close>). Each theorem on a test names what the test relies on. Serialization gives back
  what was written (\<open>bincode_law\<close>, \<open>json_law\<close>). Hashing, base64, proofs, encryption and commitments are functions
  of the crates with no property assumed, except where a theorem names one.

  \<^bold>\<open>Not modelled\<close>

  The parsing of command lines and the set-up of loggers belong to crates; \<open>Server\<close> has the options
  and the level of a node, those of the client and of the genesis tool are left out, as are log
  messages, \<open>Display\<close> instances and the layout of printed JSON. The tests leave out the removal of
  old test directories, \<open>mem::forget\<close> and their logger; the integration tests in \<open>tests/\<close> drive the
  built binaries and are not modelled. The generation of the SRS file belongs to the \<open>lambdavm\<close>
  crate; the model has its outcome only. The programs in \<open>aleo/\<close> are data for the virtual machine. Requests are handled one
  at a time: the consensus and the mempool connection share state through the channels, whose
  interleavings \<open>channel_machine\<close> reduces to sequences of commands, and the mutex.
\<close>

end
